(* ===== verification/STM_Prelude.thy ===== *)
theory STM_Prelude
  imports Main "HOL-Library.Word" "HOL-Library.Multiset"
begin

text \<open>
  The prelude of the development: the collections of facts the component theories share, the
  addresses of the control blocks of the transactional variables with the order the code gives
  them, the compile-time features of the crate, the faults (panics and undefined behaviour) that
  the models report as values, and generic lemmas on association lists and sorting.
\<close>

named_theorems stm_defs \<open>definitions unfolded to compute a concrete run\<close>
named_theorems reg_simps \<open>look-up, update and key lemmas of the transaction registers\<close>
named_theorems wf_intros \<open>operations preserve well-formedness\<close>

section \<open>Identities of variables\<close>

text \<open>
  A \<open>VarControlBlock\<close> of tvar.rs is compared, ordered and used as a register key by its address
  only (\<open>get_address\<close> and the implementations of \<open>PartialEq\<close>, \<open>Eq\<close>, \<open>Ord\<close> and
  \<open>PartialOrd\<close>).  A value of type \<open>block\<close> is a reference to such a control block.
\<close>

datatype block = Block (get_address: nat)

datatype ordering = OrderingLess | OrderingEqual | OrderingGreater

definition VarControlBlock_eq :: "block \<Rightarrow> block \<Rightarrow> bool" where
  "VarControlBlock_eq self other \<longleftrightarrow> get_address self = get_address other"

definition VarControlBlock_cmp :: "block \<Rightarrow> block \<Rightarrow> ordering" where
  "VarControlBlock_cmp self other =
     (if get_address self < get_address other then OrderingLess
      else if get_address self = get_address other then OrderingEqual else OrderingGreater)"

definition VarControlBlock_partial_cmp :: "block \<Rightarrow> block \<Rightarrow> ordering option" where
  "VarControlBlock_partial_cmp self other = Some (VarControlBlock_cmp self other)"

lemma VarControlBlock_eq_iff: "VarControlBlock_eq a b \<longleftrightarrow> a = b"
  by (auto simp: VarControlBlock_eq_def intro: block.expand)

text \<open>The order of the code is a linear order; the operators \<open><\<close> and \<open>\<le>\<close> are those of Rust, which call
  \<open>partial_cmp\<close>.\<close>

instantiation block :: linorder
begin

definition less_eq_block :: "block \<Rightarrow> block \<Rightarrow> bool" where
  "less_eq_block a b \<longleftrightarrow>
     VarControlBlock_partial_cmp a b \<in> {Some OrderingLess, Some OrderingEqual}"

definition less_block :: "block \<Rightarrow> block \<Rightarrow> bool" where
  "less_block a b \<longleftrightarrow> VarControlBlock_partial_cmp a b = Some OrderingLess"

lemmas block_order_defs = less_eq_block_def less_block_def VarControlBlock_partial_cmp_def
  VarControlBlock_cmp_def

instance
  by standard (auto simp: block_order_defs intro: block.expand split: if_splits)

end

lemma less_Block [simp]: "Block m < Block n \<longleftrightarrow> m < n"
  by (simp add: block_order_defs)

lemma less_eq_Block [simp]: "Block m \<le> Block n \<longleftrightarrow> m \<le> n"
  by (auto simp: block_order_defs)

section \<open>Compile-time features\<close>

text \<open>
  The cargo features that change the code under \<open>fast-stm/src\<close>.  \<open>hash_rank\<close> stands for the
  iteration order of the hash map of the \<open>hash-registers\<close> feature, which third-party code decides:
  for every number of entries it ranks the keys, and the entries are visited by increasing rank.
\<close>

record config =
  early_conflict_detection :: bool
  hash_registers :: bool
  wait_on_retry :: bool
  profiling :: bool
  hash_rank :: "nat \<Rightarrow> block \<Rightarrow> nat"

text \<open>The default features: only \<open>wait-on-retry\<close>.\<close>

definition default_config :: config where
  "default_config = \<lparr>early_conflict_detection = False, hash_registers = False,
     wait_on_retry = True, profiling = False, hash_rank = (\<lambda>_ _. 0)\<rparr>"

lemma default_config_simps [simp]:
  "early_conflict_detection default_config = False" "hash_registers default_config = False"
  "wait_on_retry default_config = True" "profiling default_config = False"
  by (simp_all add: default_config_def)

section \<open>Faults\<close>

text \<open>
  The ways in which the code stops other than by returning: a panic (with its reason), or the
  use of a freed control block through the raw pointer keys of \<open>hash-registers\<close>.
\<close>

datatype fault =
    TVarWrongType
  | NestedTransaction
  | Unreachable
  | PanicMessage string
  | DanglingBlock
  | UserPanic

section \<open>Association lists and sorting\<close>

lemma map_of_eq_if_mset_eq:
  assumes "distinct (map fst xs)" and "mset xs = mset ys"
  shows "map_of xs = map_of ys"
proof -
  from assms(2) have "mset (map fst xs) = mset (map fst ys)"
    by (metis mset_map)
  with assms(1) have "distinct (map fst ys)"
    by (metis mset_eq_imp_distinct_iff)
  moreover from assms(2) have "set xs = set ys"
    by (metis set_mset_mset)
  ultimately show ?thesis
    using assms(1) by (simp add: map_of_inject_set)
qed

lemma map_of_sort_key:
  "distinct (map fst xs) \<Longrightarrow> map_of (sort_key f xs) = map_of xs"
  by (rule sym, rule map_of_eq_if_mset_eq) simp_all

lemma keys_sort_key [simp]: "fst ` set (sort_key f xs) = fst ` set xs"
  by simp

lemma distinct_keys_sort_key [simp]:
  "distinct (map fst (sort_key f xs)) \<longleftrightarrow> distinct (map fst xs)"
  by (rule mset_eq_imp_distinct_iff) (metis mset_map mset_sort)

lemma map_fst_sort_key_fst: "map fst (sort_key fst xs) = sort (map fst xs)"
  by (rule properties_for_sort[symmetric]) (simp_all add: sorted_sort_key)

lemma sorted_wrt_less_iff: "sorted_wrt (<) (xs :: 'a :: linorder list) \<longleftrightarrow> sorted xs \<and> distinct xs"
  using strict_sorted_iff by blast

lemma map_of_eq_None_keys: "map_of xs k = None \<longleftrightarrow> k \<notin> fst ` set xs"
  by (simp add: map_of_eq_None_iff)

lemma map_of_SomeD_keys: "map_of xs k = Some v \<Longrightarrow> k \<in> fst ` set xs"
  by (force dest: map_of_SomeD)

lemma case_sum_eq_Inr_iff:
  "(case x of Inl a \<Rightarrow> Inl a | Inr b \<Rightarrow> f b) = Inr y \<longleftrightarrow> (\<exists>b. x = Inr b \<and> f b = Inr y)"
  by (cases x) auto

end
