(* ===== verification/Log_Var.thy ===== *)
theory Log_Var
  imports STM_Prelude
begin

text \<open>
  \<open>transaction/log_var.rs\<close>: the entries of the transaction log.  An entry is described by three
  views: the value first read from the variable (\<open>LogVar_into_read_value\<close>), the value that the
  transaction would store (\<open>LogVar_written\<close>), and whether a commit checks the first
  (\<open>LogVar_checked\<close>).  The lemmas say how every operation acts on the three views.
\<close>

section \<open>The entries and their operations\<close>

datatype 'a log_var =
    Read 'a
  | Write 'a
  | ReadWrite 'a 'a
  | ReadObsolete 'a
  | ReadObsoleteWrite 'a 'a

text \<open>\<open>LogVar::read\<close>: the value a read returns, and the upgraded entry.\<close>

fun LogVar_read :: "'a log_var \<Rightarrow> 'a \<times> 'a log_var" where
  "LogVar_read (Read v) = (v, Read v)"
| "LogVar_read (Write v) = (v, Write v)"
| "LogVar_read (ReadWrite r v) = (v, ReadWrite r v)"
| "LogVar_read (ReadObsoleteWrite w v) = (v, ReadWrite w v)"
| "LogVar_read (ReadObsolete v) = (v, Read v)"

text \<open>\<open>LogVar::write\<close>: register a written value.\<close>

fun LogVar_write :: "'a \<Rightarrow> 'a log_var \<Rightarrow> 'a log_var" where
  "LogVar_write w (Write _) = Write w"
| "LogVar_write w (ReadObsolete r) = ReadObsoleteWrite r w"
| "LogVar_write w (ReadObsoleteWrite r _) = ReadObsoleteWrite r w"
| "LogVar_write w (Read r) = ReadWrite r w"
| "LogVar_write w (ReadWrite r _) = ReadWrite r w"

text \<open>\<open>LogVar::into_read_value\<close>: the original value of the variable, if it was read.\<close>

fun LogVar_into_read_value :: "'a log_var \<Rightarrow> 'a option" where
  "LogVar_into_read_value (Read v) = Some v"
| "LogVar_into_read_value (ReadWrite v _) = Some v"
| "LogVar_into_read_value (ReadObsolete v) = Some v"
| "LogVar_into_read_value (ReadObsoleteWrite v _) = Some v"
| "LogVar_into_read_value (Write _) = None"

text \<open>\<open>LogVar::obsolete\<close>: the entry kept for a blocked path.\<close>

definition LogVar_obsolete :: "'a log_var \<Rightarrow> 'a log_var option" where
  "LogVar_obsolete l = map_option ReadObsolete (LogVar_into_read_value l)"

section \<open>Views of an entry\<close>

fun LogVar_written :: "'a log_var \<Rightarrow> 'a option" where
  "LogVar_written (Read _) = None"
| "LogVar_written (Write w) = Some w"
| "LogVar_written (ReadWrite _ w) = Some w"
| "LogVar_written (ReadObsolete _) = None"
| "LogVar_written (ReadObsoleteWrite _ w) = Some w"

text \<open>The original value that a commit compares with the variable, if it does.\<close>

fun LogVar_checked :: "'a log_var \<Rightarrow> 'a option" where
  "LogVar_checked (Read v) = Some v"
| "LogVar_checked (Write _) = None"
| "LogVar_checked (ReadWrite v _) = Some v"
| "LogVar_checked (ReadObsolete _) = None"
| "LogVar_checked (ReadObsoleteWrite _ _) = None"

text \<open>What the transaction sees in the variable: its own write, or the value first read.\<close>

fun LogVar_current :: "'a log_var \<Rightarrow> 'a" where
  "LogVar_current (Read v) = v"
| "LogVar_current (Write w) = w"
| "LogVar_current (ReadWrite _ w) = w"
| "LogVar_current (ReadObsolete v) = v"
| "LogVar_current (ReadObsoleteWrite _ w) = w"

fun_cases LogVar_written_SomeE: "LogVar_written l = Some w"
fun_cases LogVar_checked_SomeE: "LogVar_checked l = Some v"
fun_cases LogVar_checked_NoneE: "LogVar_checked l = None"

section \<open>Operations on the views\<close>

lemma LogVar_read_value: "fst (LogVar_read l) = LogVar_current l"
  by (cases l) simp_all

lemma LogVar_read_written [simp]: "LogVar_written (snd (LogVar_read l)) = LogVar_written l"
  by (cases l) simp_all

lemma LogVar_read_orig [simp]:
  "LogVar_into_read_value (snd (LogVar_read l)) = LogVar_into_read_value l"
  by (cases l) simp_all

text \<open>A read turns an unchecked original into a checked one, and never the other way round.\<close>

lemma LogVar_read_checked [simp]:
  "LogVar_checked (snd (LogVar_read l)) = LogVar_into_read_value l"
  by (cases l) simp_all

lemma LogVar_write_written [simp]: "LogVar_written (LogVar_write w l) = Some w"
  by (cases l) simp_all

lemma LogVar_write_orig [simp]:
  "LogVar_into_read_value (LogVar_write w l) = LogVar_into_read_value l"
  by (cases l) simp_all

lemma LogVar_write_checked [simp]: "LogVar_checked (LogVar_write w l) = LogVar_checked l"
  by (cases l) simp_all

lemma LogVar_write_current [simp]: "LogVar_current (LogVar_write w l) = w"
  by (cases l) simp_all

lemma LogVar_read_current [simp]: "LogVar_current (snd (LogVar_read l)) = LogVar_current l"
  by (cases l) simp_all

lemma LogVar_obsolete_written [simp]: "LogVar_obsolete l = Some l' \<Longrightarrow> LogVar_written l' = None"
  by (auto simp: LogVar_obsolete_def)

lemma LogVar_obsolete_checked [simp]: "LogVar_obsolete l = Some l' \<Longrightarrow> LogVar_checked l' = None"
  by (auto simp: LogVar_obsolete_def)

lemma LogVar_obsolete_orig:
  "LogVar_obsolete l = Some l' \<Longrightarrow> LogVar_into_read_value l' = LogVar_into_read_value l"
  by (auto simp: LogVar_obsolete_def)

lemma LogVar_obsolete_eq_None [simp]: "LogVar_obsolete l = None \<longleftrightarrow> LogVar_into_read_value l = None"
  by (simp add: LogVar_obsolete_def)

lemma LogVar_checked_orig: "LogVar_checked l = Some v \<Longrightarrow> LogVar_into_read_value l = Some v"
  by (cases l) simp_all

lemma LogVar_current_unwritten:
  "LogVar_written l = None \<Longrightarrow> LogVar_into_read_value l = Some (LogVar_current l)"
  by (cases l) simp_all

lemma LogVar_current_written: "LogVar_written l = Some w \<Longrightarrow> LogVar_current l = w"
  by (cases l) simp_all

lemmas LogVar_views = LogVar_read_value LogVar_read_written LogVar_read_orig LogVar_read_checked
  LogVar_write_written LogVar_write_orig LogVar_write_checked

end
