(* ===== verification/Shared_World.thy ===== *)
theory Shared_World
  imports STM_Prelude
begin

text \<open>
  The state that all threads share, and the operations on it: reference-counted values
  (\<open>Arc<dyn Any + Send + Sync>\<close>), the control blocks of waiting transactions
  (\<open>transaction/control_block.rs\<close>), and the control blocks of the variables with the typed
  handles to them (\<open>tvar.rs\<close>).  Interference by other threads while the current one is parked is
  a parameter \<open>env\<close> of the operations that park.
\<close>

section \<open>Values\<close>

text \<open>
  A value of type \<open>dyn Any\<close> carries its type.  An \<open>Arc\<close> is a pointer with the value it points to,
  which is never mutated; \<open>Arc::ptr_eq\<close> compares pointers only.
\<close>

datatype 'v dyn = Dyn (type_id: nat) (payload: 'v)

datatype 'v arc = Arc (arc_ptr: nat) (arc_dyn: "'v dyn")

definition ptr_eq :: "'v arc \<Rightarrow> 'v arc \<Rightarrow> bool" where
  "ptr_eq a b \<longleftrightarrow> arc_ptr a = arc_ptr b"

section \<open>The shared state\<close>

text \<open>\<open>ControlBlock\<close>: the thread to wake, the flag that it has not been woken yet, and the bound on
  the time one call of \<open>park_timeout\<close> may take (milliseconds).\<close>

record control_block =
  thread :: nat
  blocked :: bool
  max_parked_time :: nat

text \<open>
  \<open>VarControlBlock\<close>: the waiting threads are weak references, here the identities of the control
  blocks they refer to; \<open>dead_threads\<close> is a \<open>usize\<close>.
\<close>

record 'v vcb =
  waiting_threads :: "nat list"
  dead_threads :: "64 word"
  vcb_value :: "'v arc"

text \<open>
  \<open>live\<close> tells which control blocks of variables are allocated; \<open>ctrls\<close> holds the control blocks
  of waiting transactions that some thread still owns, so that upgrading a weak reference \<open>c\<close>
  succeeds iff \<open>ctrls w c \<noteq> None\<close>.  \<open>unparked\<close> is the token of \<open>Thread::unpark\<close>,
  \<open>transaction_running\<close> the thread-local \<open>TRANSACTION_RUNNING\<close>.  The \<open>next_\<close> fields are the
  allocator: the address it returns next.  \<open>clock\<close> counts the interference steps.
\<close>

record 'v world =
  blocks :: "block \<Rightarrow> 'v vcb"
  live :: "block \<Rightarrow> bool"
  ctrls :: "nat \<Rightarrow> control_block option"
  unparked :: "nat \<Rightarrow> bool"
  transaction_running :: "nat \<Rightarrow> bool"
  next_arc :: nat
  next_ctrl :: nat
  next_block :: nat
  clock :: nat

text \<open>The value a variable holds.\<close>

abbreviation mem :: "'v world \<Rightarrow> block \<Rightarrow> 'v arc" where
  "mem w a \<equiv> vcb_value (blocks w a)"

abbreviation update_block :: "block \<Rightarrow> ('v vcb \<Rightarrow> 'v vcb) \<Rightarrow> 'v world \<Rightarrow> 'v world" where
  "update_block a f w \<equiv> w\<lparr>blocks := (blocks w)(a := f (blocks w a))\<rparr>"

text \<open>\<open>Arc::new\<close>.\<close>

definition Arc_new :: "'v dyn \<Rightarrow> 'v world \<Rightarrow> 'v arc \<times> 'v world" where
  "Arc_new v w = (Arc (next_arc w) v, w\<lparr>next_arc := Suc (next_arc w)\<rparr>)"

section \<open>Control blocks of waiting transactions\<close>

definition ControlBlock_new :: "nat \<Rightarrow> control_block" where
  "ControlBlock_new me = \<lparr>thread = me, blocked = True, max_parked_time = 1000\<rparr>"

text \<open>\<open>ControlBlock::set_changed\<close> swaps the flag to false and wakes the thread if it was true.\<close>

definition ControlBlock_set_changed :: "nat \<Rightarrow> 'v world \<Rightarrow> 'v world" where
  "ControlBlock_set_changed c w = (case ctrls w c of
       None \<Rightarrow> w
     | Some cb \<Rightarrow>
         let w' = w\<lparr>ctrls := (ctrls w)(c := Some (cb\<lparr>blocked := False\<rparr>))\<rparr> in
         if blocked cb then w'\<lparr>unparked := (unparked w')(thread cb := True)\<rparr> else w')"

text \<open>The load of the flag \<open>blocked\<close>.\<close>

definition ctrl_blocked :: "nat \<Rightarrow> 'v world \<Rightarrow> bool" where
  "ctrl_blocked c w = (case ctrls w c of Some cb \<Rightarrow> blocked cb | None \<Rightarrow> False)"

text \<open>
  \<open>thread::park_timeout\<close>: the other threads run (\<open>env\<close>) until the token is there, the time is over
  or the thread wakes up for no reason; a token is consumed.
\<close>

definition park_timeout :: "('v world \<Rightarrow> 'v world) \<Rightarrow> nat \<Rightarrow> 'v world \<Rightarrow> 'v world" where
  "park_timeout env me w =
     (let w' = env w in w'\<lparr>unparked := (unparked w')(me := False), clock := Suc (clock w)\<rparr>)"

text \<open>\<open>ControlBlock::wait\<close>; \<open>None\<close> when it never returns.\<close>

partial_function (option) ControlBlock_wait ::
  "('v world \<Rightarrow> 'v world) \<Rightarrow> nat \<Rightarrow> nat \<Rightarrow> 'v world \<Rightarrow> 'v world option" where
  "ControlBlock_wait env me c w =
     (if ctrl_blocked c w then ControlBlock_wait env me c (park_timeout env me w) else Some w)"

section \<open>Control blocks of variables\<close>

text \<open>\<open>VarControlBlock::new\<close>: the block is allocated at the next address.\<close>

definition VarControlBlock_new :: "'v dyn \<Rightarrow> 'v world \<Rightarrow> block \<times> 'v world" where
  "VarControlBlock_new val w =
     (let (boxed, w') = Arc_new val w;
          ctrl = \<lparr>waiting_threads = [], dead_threads = 0, vcb_value = boxed\<rparr>;
          a = Block (next_block w')
      in (a, w'\<lparr>blocks := (blocks w')(a := ctrl), live := (live w')(a := True),
               next_block := Suc (next_block w')\<rparr>))"

text \<open>\<open>VarControlBlock::wake_all\<close> takes the waiting threads and informs those still alive.\<close>

definition VarControlBlock_wake_all :: "block \<Rightarrow> 'v world \<Rightarrow> 'v world" where
  "VarControlBlock_wake_all a w =
     (let threads = waiting_threads (blocks w a);
          w' = update_block a (\<lambda>b. b\<lparr>waiting_threads := []\<rparr>) w;
          threads = filter (\<lambda>c. ctrls w' c \<noteq> None) threads
      in fold ControlBlock_set_changed threads w')"

text \<open>\<open>VarControlBlock::wait\<close> registers a weak reference.\<close>

definition VarControlBlock_wait :: "block \<Rightarrow> nat \<Rightarrow> 'v world \<Rightarrow> 'v world" where
  "VarControlBlock_wait a c w =
     update_block a (\<lambda>b. b\<lparr>waiting_threads := waiting_threads b @ [c]\<rparr>) w"

text \<open>\<open>VarControlBlock::set_dead\<close> counts a dead thread and cleans up when there are many: an atomic
  increment, which tells whether there are, and the clean-up under the lock of the waiting threads.\<close>

definition set_dead_count :: "block \<Rightarrow> 'v world \<Rightarrow> bool \<times> 'v world" where
  "set_dead_count a w =
     (let deads = dead_threads (blocks w a)
      in (64 \<le> deads, update_block a (\<lambda>b. b\<lparr>dead_threads := deads + 1\<rparr>) w))"

definition set_dead_cleanup :: "block \<Rightarrow> 'v world \<Rightarrow> 'v world" where
  "set_dead_cleanup a w =
     update_block a (\<lambda>b. b\<lparr>dead_threads := 0,
       waiting_threads := filter (\<lambda>c. ctrls w c \<noteq> None) (waiting_threads b)\<rparr>) w"

definition VarControlBlock_set_dead :: "block \<Rightarrow> 'v world \<Rightarrow> 'v world" where
  "VarControlBlock_set_dead a w =
     (let (many, w') = set_dead_count a w in if many then set_dead_cleanup a w' else w')"

section \<open>Transactional variables\<close>

text \<open>
  \<open>TVar<T>\<close>: a control block and the type parameter, which exists only at compile time in the code
  (\<open>PhantomData\<close>).
\<close>

record tvar =
  control_block_of :: block
  marker :: nat

definition TVar_new :: "nat \<Rightarrow> 'v \<Rightarrow> 'v world \<Rightarrow> tvar \<times> 'v world" where
  "TVar_new ty val w =
     (let (a, w') = VarControlBlock_new (Dyn ty val) w
      in (\<lparr>control_block_of = a, marker = ty\<rparr>, w'))"

definition TVar_read_ref_atomic :: "tvar \<Rightarrow> 'v world \<Rightarrow> 'v arc" where
  "TVar_read_ref_atomic var w = mem w (control_block_of var)"

text \<open>The checked downcast: the payload if the value has the wanted type, a panic otherwise.\<close>

definition downcast :: "nat \<Rightarrow> 'v arc \<Rightarrow> fault + 'v" where
  "downcast ty v =
     (if type_id (arc_dyn v) = ty then Inr (payload (arc_dyn v)) else Inl TVarWrongType)"

definition TVar_read_atomic :: "tvar \<Rightarrow> 'v world \<Rightarrow> fault + 'v" where
  "TVar_read_atomic var w = downcast (marker var) (TVar_read_ref_atomic var w)"

definition TVar_write_atomic :: "tvar \<Rightarrow> 'v \<Rightarrow> 'v world \<Rightarrow> 'v world" where
  "TVar_write_atomic var val w =
     (let (boxed, w') = Arc_new (Dyn (marker var) val) w
      in update_block (control_block_of var) (\<lambda>b. b\<lparr>vcb_value := boxed\<rparr>) w')"

definition TVar_ref_eq :: "tvar \<Rightarrow> tvar \<Rightarrow> bool" where
  "TVar_ref_eq this other \<longleftrightarrow> get_address (control_block_of this) = get_address (control_block_of other)"

text \<open>The implementation of \<open>Debug\<close> prints the value held at the moment; \<open>show\<close> is the one of the payload.\<close>

definition TVar_fmt :: "('v \<Rightarrow> string) \<Rightarrow> tvar \<Rightarrow> 'v world \<Rightarrow> fault + string" where
  "TVar_fmt show var w = (case TVar_read_atomic var w of
       Inl flt \<Rightarrow> Inl flt
     | Inr x \<Rightarrow> Inr (''TVar { value: '' @ show x @ '' }''))"

section \<open>Frame lemmas\<close>

lemmas set_dead_defs = VarControlBlock_set_dead_def set_dead_count_def set_dead_cleanup_def Let_def

lemma set_changed_frame [simp]:
  "blocks (ControlBlock_set_changed c w) = blocks w"
  "live (ControlBlock_set_changed c w) = live w"
  "transaction_running (ControlBlock_set_changed c w) = transaction_running w"
  "next_arc (ControlBlock_set_changed c w) = next_arc w"
  "next_ctrl (ControlBlock_set_changed c w) = next_ctrl w"
  "next_block (ControlBlock_set_changed c w) = next_block w"
  "clock (ControlBlock_set_changed c w) = clock w"
  by (simp_all add: ControlBlock_set_changed_def Let_def split: option.split)

lemma set_changed_ctrls [simp]:
  "ctrls (ControlBlock_set_changed c w) d =
     (if d = c then map_option (\<lambda>cb. cb\<lparr>blocked := False\<rparr>) (ctrls w c) else ctrls w d)"
  by (simp add: ControlBlock_set_changed_def Let_def split: option.split)

lemma set_changed_unparked:
  "unparked (ControlBlock_set_changed c w) t \<longleftrightarrow>
     unparked w t \<or> (\<exists>cb. ctrls w c = Some cb \<and> blocked cb \<and> thread cb = t)"
  by (auto simp: ControlBlock_set_changed_def Let_def split: option.split)

lemma fold_set_changed_frame [simp]:
  "blocks (fold ControlBlock_set_changed cs w) = blocks w"
  "live (fold ControlBlock_set_changed cs w) = live w"
  "transaction_running (fold ControlBlock_set_changed cs w) = transaction_running w"
  "next_arc (fold ControlBlock_set_changed cs w) = next_arc w"
  "next_ctrl (fold ControlBlock_set_changed cs w) = next_ctrl w"
  "next_block (fold ControlBlock_set_changed cs w) = next_block w"
  "clock (fold ControlBlock_set_changed cs w) = clock w"
  by (induction cs arbitrary: w) simp_all

lemma fold_set_changed_ctrls [simp]:
  "ctrls (fold ControlBlock_set_changed cs w) c =
     (if c \<in> set cs then map_option (\<lambda>cb. cb\<lparr>blocked := False\<rparr>) (ctrls w c) else ctrls w c)"
  by (induction cs arbitrary: w) (auto simp: option.map_comp o_def)

lemma fold_set_changed_unparked:
  "unparked (fold ControlBlock_set_changed cs w) t \<longleftrightarrow>
     unparked w t \<or> (\<exists>c\<in>set cs. \<exists>cb. ctrls w c = Some cb \<and> blocked cb \<and> thread cb = t)"
proof (induction cs arbitrary: w)
  case (Cons c cs)
  show ?case
    by (auto simp: Cons.IH set_changed_unparked split: if_splits)
qed simp

lemma wake_all_frame [simp]:
  "live (VarControlBlock_wake_all a w) = live w"
  "transaction_running (VarControlBlock_wake_all a w) = transaction_running w"
  "next_arc (VarControlBlock_wake_all a w) = next_arc w"
  "next_ctrl (VarControlBlock_wake_all a w) = next_ctrl w"
  "next_block (VarControlBlock_wake_all a w) = next_block w"
  "clock (VarControlBlock_wake_all a w) = clock w"
  by (simp_all add: VarControlBlock_wake_all_def Let_def)

lemma wake_all_blocks [simp]:
  "blocks (VarControlBlock_wake_all a w) = (blocks w)(a := (blocks w a)\<lparr>waiting_threads := []\<rparr>)"
  by (simp add: VarControlBlock_wake_all_def Let_def)

lemma wake_all_ctrls [simp]:
  "ctrls (VarControlBlock_wake_all a w) c =
     (if c \<in> set (waiting_threads (blocks w a))
      then map_option (\<lambda>cb. cb\<lparr>blocked := False\<rparr>) (ctrls w c) else ctrls w c)"
  by (auto simp: VarControlBlock_wake_all_def Let_def)

lemma wake_all_unparked:
  "unparked (VarControlBlock_wake_all a w) t \<longleftrightarrow>
     unparked w t \<or>
     (\<exists>c\<in>set (waiting_threads (blocks w a)). \<exists>cb. ctrls w c = Some cb \<and> blocked cb \<and> thread cb = t)"
  by (auto simp: VarControlBlock_wake_all_def Let_def fold_set_changed_unparked)

lemma fold_wake_all_frame [simp]:
  "live (fold VarControlBlock_wake_all as w) = live w"
  "transaction_running (fold VarControlBlock_wake_all as w) = transaction_running w"
  "next_arc (fold VarControlBlock_wake_all as w) = next_arc w"
  "next_ctrl (fold VarControlBlock_wake_all as w) = next_ctrl w"
  "next_block (fold VarControlBlock_wake_all as w) = next_block w"
  "clock (fold VarControlBlock_wake_all as w) = clock w"
  by (induction "as" arbitrary: w) simp_all

lemma fold_wake_all_blocks [simp]:
  "blocks (fold VarControlBlock_wake_all as w) a =
     (if a \<in> set as then (blocks w a)\<lparr>waiting_threads := []\<rparr> else blocks w a)"
  by (induction "as" arbitrary: w) auto

lemma fold_wake_all_ctrls [simp]:
  "ctrls (fold VarControlBlock_wake_all as w) c =
     (if \<exists>a\<in>set as. c \<in> set (waiting_threads (blocks w a))
      then map_option (\<lambda>cb. cb\<lparr>blocked := False\<rparr>) (ctrls w c) else ctrls w c)"
proof (induction "as" arbitrary: w)
  case (Cons a as)
  show ?case
    by (simp add: Cons.IH option.map_comp o_def) auto
qed simp

lemma set_dead_frame [simp]:
  "live (VarControlBlock_set_dead a w) = live w"
  "ctrls (VarControlBlock_set_dead a w) = ctrls w"
  "unparked (VarControlBlock_set_dead a w) = unparked w"
  "transaction_running (VarControlBlock_set_dead a w) = transaction_running w"
  "next_arc (VarControlBlock_set_dead a w) = next_arc w"
  "next_ctrl (VarControlBlock_set_dead a w) = next_ctrl w"
  "next_block (VarControlBlock_set_dead a w) = next_block w"
  "clock (VarControlBlock_set_dead a w) = clock w"
  "mem (VarControlBlock_set_dead a w) b = mem w b"
  by (simp_all add: set_dead_defs)

lemma fold_set_dead_frame [simp]:
  "live (fold VarControlBlock_set_dead as w) = live w"
  "ctrls (fold VarControlBlock_set_dead as w) = ctrls w"
  "unparked (fold VarControlBlock_set_dead as w) = unparked w"
  "transaction_running (fold VarControlBlock_set_dead as w) = transaction_running w"
  "next_arc (fold VarControlBlock_set_dead as w) = next_arc w"
  "next_ctrl (fold VarControlBlock_set_dead as w) = next_ctrl w"
  "next_block (fold VarControlBlock_set_dead as w) = next_block w"
  "clock (fold VarControlBlock_set_dead as w) = clock w"
  "mem (fold VarControlBlock_set_dead as w) b = mem w b"
  by (induction "as" arbitrary: w) simp_all

section \<open>Waiting and cleaning up\<close>

lemma ctrl_blocked_set_changed [simp]: "\<not> ctrl_blocked c (ControlBlock_set_changed c w)"
  by (simp add: ctrl_blocked_def split: option.split)

text \<open>\<open>wait\<close> returns at the first load that finds the flag cleared.\<close>

lemma ControlBlock_wait_Some_iff:
  "ControlBlock_wait env me c w = Some w' \<longleftrightarrow>
     (\<exists>n. w' = (park_timeout env me ^^ n) w \<and> \<not> ctrl_blocked c w' \<and>
          (\<forall>k<n. ctrl_blocked c ((park_timeout env me ^^ k) w)))"
proof
  assume *: "ControlBlock_wait env me c w = Some w'"
  show "\<exists>n. w' = (park_timeout env me ^^ n) w \<and> \<not> ctrl_blocked c w' \<and>
          (\<forall>k<n. ctrl_blocked c ((park_timeout env me ^^ k) w))"
  proof (rule ControlBlock_wait.raw_induct [where
        P = "\<lambda>env me c w w'. \<exists>n. w' = (park_timeout env me ^^ n) w \<and> \<not> ctrl_blocked c w' \<and>
          (\<forall>k<n. ctrl_blocked c ((park_timeout env me ^^ k) w))", OF _ *])
    fix f env me c and w w' :: "'v world"
    assume IH: "\<And>env me c w (w' :: 'v world). f env me c w = Some w' \<Longrightarrow>
        \<exists>n. w' = (park_timeout env me ^^ n) w \<and> \<not> ctrl_blocked c w' \<and>
          (\<forall>k<n. ctrl_blocked c ((park_timeout env me ^^ k) w))"
      and eq: "(if ctrl_blocked c w then f env me c (park_timeout env me w) else Some w) = Some w'"
    show "\<exists>n. w' = (park_timeout env me ^^ n) w \<and> \<not> ctrl_blocked c w' \<and>
          (\<forall>k<n. ctrl_blocked c ((park_timeout env me ^^ k) w))"
    proof (cases "ctrl_blocked c w")
      case True
      with eq have "f env me c (park_timeout env me w) = Some w'" by simp
      from IH [OF this] obtain n where
        n: "w' = (park_timeout env me ^^ n) (park_timeout env me w)" "\<not> ctrl_blocked c w'"
        "\<forall>k<n. ctrl_blocked c ((park_timeout env me ^^ k) (park_timeout env me w))" by blast
      have "\<forall>k<Suc n. ctrl_blocked c ((park_timeout env me ^^ k) w)"
        using n(3) True by (auto simp: less_Suc_eq_0_disj funpow_Suc_right simp del: funpow.simps)
      with n(1,2) show ?thesis
        by (intro exI [of _ "Suc n"]) (simp add: funpow_Suc_right del: funpow.simps)
    next
      case False
      with eq show ?thesis by (intro exI [of _ 0]) simp
    qed
  qed
next
  assume "\<exists>n. w' = (park_timeout env me ^^ n) w \<and> \<not> ctrl_blocked c w' \<and>
          (\<forall>k<n. ctrl_blocked c ((park_timeout env me ^^ k) w))"
  then obtain n where "w' = (park_timeout env me ^^ n) w" "\<not> ctrl_blocked c w'"
    "\<forall>k<n. ctrl_blocked c ((park_timeout env me ^^ k) w)" by blast
  then show "ControlBlock_wait env me c w = Some w'"
  proof (induction n arbitrary: w)
    case 0
    then show ?case by (simp add: ControlBlock_wait.simps)
  next
    case (Suc n)
    have "ctrl_blocked c w" using Suc.prems(3) by force
    moreover have "ControlBlock_wait env me c (park_timeout env me w) = Some w'"
    proof (rule Suc.IH)
      show "\<forall>k<n. ctrl_blocked c ((park_timeout env me ^^ k) (park_timeout env me w))"
        using Suc.prems(3) by (auto dest: spec [of _ "Suc _"] simp: funpow_swap1)
    qed (use Suc.prems in \<open>simp_all add: funpow_swap1\<close>)
    ultimately show ?case by (simp add: ControlBlock_wait.simps)
  qed
qed

lemma ControlBlock_wait_None_iff:
  "ControlBlock_wait env me c w = None \<longleftrightarrow> (\<forall>k. ctrl_blocked c ((park_timeout env me ^^ k) w))"
proof
  assume none: "ControlBlock_wait env me c w = None"
  show "\<forall>k. ctrl_blocked c ((park_timeout env me ^^ k) w)"
  proof (rule ccontr)
    assume "\<not> (\<forall>k. ctrl_blocked c ((park_timeout env me ^^ k) w))"
    then obtain k where "\<not> ctrl_blocked c ((park_timeout env me ^^ k) w)" by blast
    then obtain n where "\<not> ctrl_blocked c ((park_timeout env me ^^ n) w)"
      "\<forall>k<n. ctrl_blocked c ((park_timeout env me ^^ k) w)"
      using exists_least_iff [of "\<lambda>n. \<not> ctrl_blocked c ((park_timeout env me ^^ n) w)"] by blast
    then have "ControlBlock_wait env me c w = Some ((park_timeout env me ^^ n) w)"
      by (auto simp: ControlBlock_wait_Some_iff)
    with none show False by simp
  qed
next
  assume "\<forall>k. ctrl_blocked c ((park_timeout env me ^^ k) w)"
  then show "ControlBlock_wait env me c w = None"
    by (cases "ControlBlock_wait env me c w") (auto simp: ControlBlock_wait_Some_iff)
qed

lemma set_dead_waiting_live:
  "filter (\<lambda>c. ctrls w c \<noteq> None) (waiting_threads (blocks (VarControlBlock_set_dead a w) b)) =
   filter (\<lambda>c. ctrls w c \<noteq> None) (waiting_threads (blocks w b))"
  by (simp add: set_dead_defs)

lemma set_dead_bound:
  assumes "dead_threads (blocks w b) \<le> 64"
  shows "dead_threads (blocks (VarControlBlock_set_dead a w) b) \<le> 64"
proof (cases "b = a \<and> dead_threads (blocks w a) < 64")
  case True
  then have "dead_threads (blocks w a) + 1 \<le> 64"
    by (metis inc_le)
  with True show ?thesis
    by (simp add: set_dead_defs)
next
  case False
  with assms show ?thesis
    by (auto simp: set_dead_defs)
qed

end
