(* ===== verification/Result_Types.thy ===== *)
theory Result_Types
  imports STM_Prelude
begin

text \<open>
  \<open>result.rs\<close> and the helper functions of \<open>lib.rs\<close> that build results: the errors of a step of a
  transaction, the outcome of a fallible transaction with its methods, and the functions that
  raise the errors.  \<open>Result<T, E>\<close> is \<open>'e + 't\<close> with \<open>Inr\<close> for \<open>Ok\<close> and \<open>Inl\<close> for \<open>Err\<close>.
\<close>

section \<open>Errors and results\<close>

datatype stm_error = Failure | Retry

type_synonym 't stm_closure_result = "stm_error + 't"

datatype 'e transaction_error = Stm stm_error | Abort 'e

type_synonym ('t, 'e) transaction_closure_result = "'e transaction_error + 't"

datatype ('t, 'e) transaction_result = Validated 't | Cancelled 'e | Abandoned

text \<open>\<open>TransactionControl\<close> of \<open>transaction/mod.rs\<close>.\<close>

datatype transaction_control = ControlRetry | ControlAbort

section \<open>Methods of the result of a fallible transaction\<close>

fun is_validated :: "('t, 'e) transaction_result \<Rightarrow> bool" where
  "is_validated (Validated _) = True"
| "is_validated _ = False"

fun is_validated_and :: "('t, 'e) transaction_result \<Rightarrow> ('t \<Rightarrow> bool) \<Rightarrow> bool" where
  "is_validated_and (Validated t) f = f t"
| "is_validated_and (Cancelled _) f = False"
| "is_validated_and Abandoned f = False"

fun is_cancelled :: "('t, 'e) transaction_result \<Rightarrow> bool" where
  "is_cancelled (Cancelled _) = True"
| "is_cancelled _ = False"

fun is_cancelled_and :: "('t, 'e) transaction_result \<Rightarrow> ('e \<Rightarrow> bool) \<Rightarrow> bool" where
  "is_cancelled_and (Cancelled e) f = f e"
| "is_cancelled_and (Validated _) f = False"
| "is_cancelled_and Abandoned f = False"

fun validated :: "('t, 'e) transaction_result \<Rightarrow> 't option" where
  "validated (Validated t) = Some t"
| "validated (Cancelled _) = None"
| "validated Abandoned = None"

fun cancelled :: "('t, 'e) transaction_result \<Rightarrow> 'e option" where
  "cancelled (Cancelled e) = Some e"
| "cancelled (Validated _) = None"
| "cancelled Abandoned = None"

fun failed :: "('t, 'e) transaction_result \<Rightarrow> bool" where
  "failed Abandoned = True"
| "failed _ = False"

text \<open>The methods that panic; \<open>dbg\<close> is the \<open>Debug\<close> output of the value in the message.\<close>

fun expect :: "('e \<Rightarrow> string) \<Rightarrow> ('t, 'e) transaction_result \<Rightarrow> string \<Rightarrow> fault + 't" where
  "expect dbg (Validated t) msg = Inr t"
| "expect dbg (Cancelled e) msg = Inl (PanicMessage (msg @ '': '' @ dbg e))"
| "expect dbg Abandoned msg = Inl (PanicMessage msg)"

fun expect_err :: "('t \<Rightarrow> string) \<Rightarrow> ('t, 'e) transaction_result \<Rightarrow> string \<Rightarrow> fault + 'e" where
  "expect_err dbg (Validated t) msg = Inl (PanicMessage (msg @ '': '' @ dbg t))"
| "expect_err dbg (Cancelled e) msg = Inr e"
| "expect_err dbg Abandoned msg = Inl (PanicMessage msg)"

fun unwrap :: "('e \<Rightarrow> string) \<Rightarrow> ('t, 'e) transaction_result \<Rightarrow> fault + 't" where
  "unwrap dbg (Validated t) = Inr t"
| "unwrap dbg (Cancelled e) =
     Inl (PanicMessage (''called `TransactionResult::unwrap()` on a `Cancelled` value: '' @ dbg e))"
| "unwrap dbg Abandoned =
     Inl (PanicMessage ''called `TransactionResult::unwrap()` on a `Abandoned` value'')"

fun unwrap_err :: "('t \<Rightarrow> string) \<Rightarrow> ('t, 'e) transaction_result \<Rightarrow> fault + 'e" where
  "unwrap_err dbg (Validated t) =
     Inl (PanicMessage (''called `TransactionResult::unwrap_err()` on a `Validated` value: '' @ dbg t))"
| "unwrap_err dbg (Cancelled e) = Inr e"
| "unwrap_err dbg Abandoned =
     Inl (PanicMessage ''called `TransactionResult::unwrap_err()` on a `Abandoned` value'')"

text \<open>\<open>unwrap_or_default\<close>; the \<open>Default\<close> implementation of \<open>T\<close> is a parameter.\<close>

fun unwrap_or_default :: "'t \<Rightarrow> ('t, 'e) transaction_result \<Rightarrow> 't" where
  "unwrap_or_default dflt (Validated t) = t"
| "unwrap_or_default dflt (Cancelled _) = dflt"
| "unwrap_or_default dflt Abandoned = dflt"

section \<open>Helper functions of the crate root\<close>

definition abort :: "'e \<Rightarrow> ('t, 'e) transaction_closure_result" where
  "abort e = Inl (Abort e)"

definition retry :: "'t stm_closure_result" where
  "retry = Inl Retry"

fun unwrap_or_retry :: "'t option \<Rightarrow> 't stm_closure_result" where
  "unwrap_or_retry (Some x) = Inr x"
| "unwrap_or_retry None = retry"

fun unwrap_or_abort :: "'t option \<Rightarrow> 'e \<Rightarrow> ('t, 'e) transaction_closure_result" where
  "unwrap_or_abort (Some x) e = Inr x"
| "unwrap_or_abort None e = abort e"

definition guard :: "bool \<Rightarrow> unit stm_closure_result" where
  "guard cond = (if cond then Inr () else retry)"

text \<open>The macro \<open>try_or_coerce\<close> up to its final \<open>?\<close>; \<open>conv\<close> is \<open>From::from\<close> of the target type.\<close>

fun try_or_coerce ::
  "('a \<Rightarrow> 'b) \<Rightarrow> ('t, 'a) transaction_closure_result \<Rightarrow> ('t, 'b) transaction_closure_result" where
  "try_or_coerce conv (Inl (Abort e)) = Inl (Abort (conv e))"
| "try_or_coerce conv (Inl (Stm e)) = Inl (Stm e)"
| "try_or_coerce conv (Inr t) = Inr t"

section \<open>Facts\<close>

lemma is_validated_iff: "is_validated r \<longleftrightarrow> (\<exists>t. r = Validated t)"
  by (cases r) simp_all

lemma is_cancelled_iff: "is_cancelled r \<longleftrightarrow> (\<exists>e. r = Cancelled e)"
  by (cases r) simp_all

lemma failed_iff: "failed r \<longleftrightarrow> r = Abandoned"
  by (cases r) simp_all

lemma guard_eq_Inr_iff [simp]: "guard b = Inr u \<longleftrightarrow> b"
  by (simp add: guard_def retry_def)

lemma guard_eq_Inl_iff [simp]: "guard b = Inl e \<longleftrightarrow> \<not> b \<and> e = Retry"
  by (auto simp: guard_def retry_def)

lemma unwrap_or_retry_eq_Inr_iff [simp]: "unwrap_or_retry x = Inr t \<longleftrightarrow> x = Some t"
  by (cases x) (simp_all add: retry_def)

lemma unwrap_or_retry_eq_Inl_iff [simp]: "unwrap_or_retry x = Inl e \<longleftrightarrow> x = None \<and> e = Retry"
  by (cases x) (auto simp: retry_def)

lemma try_or_coerce_comp: "try_or_coerce g (try_or_coerce f r) = try_or_coerce (g \<circ> f) r"
  by (cases "(f, r)" rule: try_or_coerce.cases) simp_all

end
