(* ===== verification/Registers.thy ===== *)
theory Registers
  imports Log_Var
begin

text \<open>
  The registers of a transaction (\<open>RegisterType\<close> of \<open>transaction/mod.rs\<close>): a \<open>BTreeMap\<close>, or with the
  feature \<open>hash-registers\<close> a hash map, from control blocks of variables to log entries.  Both are
  association lists with distinct keys in iteration order: by increasing key in the tree, by
  increasing rank (\<open>hash_rank\<close>) in the hash map.  The locale \<open>register\<close> states what the transaction
  relies on; both kinds interpret it.
\<close>

type_synonym 'a register = "(block \<times> 'a log_var) list"

section \<open>Operations\<close>

text \<open>\<open>Entry::Occupied\<close>: the entry is changed in place.\<close>

definition reg_update :: "block \<Rightarrow> 'b \<Rightarrow> (block \<times> 'b) list \<Rightarrow> (block \<times> 'b) list" where
  "reg_update k v r = map (\<lambda>(k', v'). if k' = k then (k', v) else (k', v')) r"

text \<open>\<open>Entry::Vacant\<close> of the tree: the entry is inserted at its place in the order.\<close>

fun btree_insert :: "block \<Rightarrow> 'b \<Rightarrow> (block \<times> 'b) list \<Rightarrow> (block \<times> 'b) list" where
  "btree_insert k v [] = [(k, v)]"
| "btree_insert k v ((k', v') # r) =
     (if k < k' then (k, v) # (k', v') # r else (k', v') # btree_insert k v r)"

text \<open>\<open>Entry::Vacant\<close> of the hash map: the entries are laid out anew by their rank.\<close>

definition hash_insert ::
  "(nat \<Rightarrow> block \<Rightarrow> nat) \<Rightarrow> block \<Rightarrow> 'b \<Rightarrow> (block \<times> 'b) list \<Rightarrow> (block \<times> 'b) list" where
  "hash_insert rank k v r = sort_key (\<lambda>e. rank (Suc (length r)) (fst e)) ((k, v) # r)"

definition reg_insert :: "config \<Rightarrow> block \<Rightarrow> 'b \<Rightarrow> (block \<times> 'b) list \<Rightarrow> (block \<times> 'b) list" where
  "reg_insert cfg k v r =
     (if hash_registers cfg then hash_insert (hash_rank cfg) k v r else btree_insert k v r)"

text \<open>The records in the order in which a commit visits them.\<close>

definition reg_records :: "config \<Rightarrow> (block \<times> 'b) list \<Rightarrow> (block \<times> 'b) list" where
  "reg_records cfg r = (if hash_registers cfg then sort_key fst r else r)"

definition reg_wf :: "config \<Rightarrow> (block \<times> 'b) list \<Rightarrow> bool" where
  "reg_wf cfg r \<longleftrightarrow>
     (if hash_registers cfg then distinct (map fst r) else sorted_wrt (<) (map fst r))"

section \<open>The interface\<close>

text \<open>
  What a transaction relies on: an insertion at a vacant key is a map update, and keeps the keys
  distinct.
\<close>

locale register =
  fixes ins :: "block \<Rightarrow> 'b \<Rightarrow> (block \<times> 'b) list \<Rightarrow> (block \<times> 'b) list"
    and inv :: "(block \<times> 'b) list \<Rightarrow> bool"
  assumes inv_empty: "inv []"
    and inv_distinct: "inv r \<Longrightarrow> distinct (map fst r)"
    and inv_same_keys: "inv r \<Longrightarrow> map fst r' = map fst r \<Longrightarrow> inv r'"
    and inv_ins: "inv r \<Longrightarrow> k \<notin> fst ` set r \<Longrightarrow> inv (ins k v r)"
    and mset_ins: "inv r \<Longrightarrow> k \<notin> fst ` set r \<Longrightarrow> mset (ins k v r) = add_mset (k, v) (mset r)"
begin

lemma map_of_ins:
  assumes "inv r" and "k \<notin> fst ` set r"
  shows "map_of (ins k v r) = (map_of r)(k \<mapsto> v)"
proof -
  have "map_of ((k, v) # r) = map_of (ins k v r)"
    using assms inv_distinct mset_ins by (intro map_of_eq_if_mset_eq) auto
  then show ?thesis by simp
qed

lemma keys_ins: "inv r \<Longrightarrow> k \<notin> fst ` set r \<Longrightarrow> fst ` set (ins k v r) = insert k (fst ` set r)"
  by (metis (no_types, lifting) fst_conv image_insert mset_ins set_mset_add_mset_insert set_mset_mset)

lemma length_ins: "inv r \<Longrightarrow> k \<notin> fst ` set r \<Longrightarrow> length (ins k v r) = Suc (length r)"
  by (metis mset_ins size_add_mset size_mset)

end

lemma keys_reg_update [simp]: "map fst (reg_update k v r) = map fst r"
  by (auto simp: reg_update_def)

lemma key_set_reg_update [simp]: "fst ` set (reg_update k v r) = fst ` set r"
  by (metis keys_reg_update list.set_map)

lemma map_of_reg_update [reg_simps]:
  "k \<in> fst ` set r \<Longrightarrow> map_of (reg_update k v r) = (map_of r)(k \<mapsto> v)"
proof (induction r)
  case (Cons e r)
  show ?case
  proof (cases "k \<in> fst ` set r")
    case True
    with Cons.IH show ?thesis
      by (cases e) (auto simp: reg_update_def fun_eq_iff)
  next
    case False
    then have "map (\<lambda>(k', v'). if k' = k then (k', v) else (k', v')) r = r"
      by (intro map_idI) force
    with False Cons.prems show ?thesis
      by (cases e) (auto simp: reg_update_def fun_eq_iff)
  qed
qed simp

lemma mset_btree_insert: "mset (btree_insert k v r) = add_mset (k, v) (mset r)"
  by (induction k v r rule: btree_insert.induct) auto

lemma set_btree_insert: "set (btree_insert k v r) = insert (k, v) (set r)"
  by (metis mset_btree_insert set_mset_add_mset_insert set_mset_mset)

lemma btree_insert_sorted:
  "sorted_wrt (<) (map fst r) \<Longrightarrow> k \<notin> fst ` set r \<Longrightarrow> sorted_wrt (<) (map fst (btree_insert k v r))"
proof (induction k v r rule: btree_insert.induct)
  case (2 k v k' v' r)
  then show ?case
    by (force simp: set_btree_insert image_iff dest: order.strict_trans)
qed simp

interpretation btree: register btree_insert "\<lambda>r. sorted_wrt (<) (map fst r)"
proof
  show "distinct (map fst r)" if "sorted_wrt (<) (map fst r)" for r :: "(block \<times> 'b) list"
    using that by (simp add: sorted_wrt_less_iff)
qed (simp_all add: btree_insert_sorted mset_btree_insert)

interpretation hash: register "hash_insert rank" "\<lambda>r. distinct (map fst r)" for rank
proof
  show "distinct (map fst (hash_insert rank k v r))"
    if "distinct (map fst r)" and "k \<notin> fst ` set r" for r :: "(block \<times> 'b) list" and k v
    using that unfolding hash_insert_def by (subst distinct_keys_sort_key) simp
qed (simp_all add: hash_insert_def)

interpretation reg: register "reg_insert cfg" "reg_wf cfg" for cfg
proof (cases "hash_registers cfg")
  case True
  then show "register (reg_insert cfg :: block \<Rightarrow> 'b \<Rightarrow> _) (reg_wf cfg)"
    using hash.register_axioms [of "hash_rank cfg"]
    by (simp add: reg_insert_def [abs_def] reg_wf_def [abs_def])
next
  case False
  then show "register (reg_insert cfg :: block \<Rightarrow> 'b \<Rightarrow> _) (reg_wf cfg)"
    using btree.register_axioms by (simp add: reg_insert_def [abs_def] reg_wf_def [abs_def])
qed

section \<open>Facts on both kinds\<close>

lemma reg_wf_Nil [simp]: "reg_wf cfg []"
  by (rule reg.inv_empty)

lemma reg_wf_distinct: "reg_wf cfg r \<Longrightarrow> distinct (map fst r)"
  by (rule reg.inv_distinct)

lemma reg_wf_insert [wf_intros]: "reg_wf cfg r \<Longrightarrow> k \<notin> fst ` set r \<Longrightarrow> reg_wf cfg (reg_insert cfg k v r)"
  by (rule reg.inv_ins)

lemma reg_wf_update [simp]: "reg_wf cfg (reg_update k v r) = reg_wf cfg r"
  by (simp add: reg_wf_def)

lemma map_of_reg_insert [reg_simps]:
  "reg_wf cfg r \<Longrightarrow> k \<notin> fst ` set r \<Longrightarrow> map_of (reg_insert cfg k v r) = (map_of r)(k \<mapsto> v)"
  by (rule reg.map_of_ins)

lemma keys_reg_insert [reg_simps]:
  "reg_wf cfg r \<Longrightarrow> k \<notin> fst ` set r \<Longrightarrow> fst ` set (reg_insert cfg k v r) = insert k (fst ` set r)"
  by (rule reg.keys_ins)

lemma mset_reg_records [simp]: "mset (reg_records cfg r) = mset r"
  by (simp add: reg_records_def)

lemma set_reg_records [simp]: "set (reg_records cfg r) = set r"
  by (simp add: reg_records_def)

lemma map_of_reg_records [simp]: "reg_wf cfg r \<Longrightarrow> map_of (reg_records cfg r) = map_of r"
  by (simp add: reg_records_def map_of_sort_key reg_wf_distinct)

lemma reg_records_sorted: "reg_wf cfg r \<Longrightarrow> sorted_wrt (<) (map fst (reg_records cfg r))"
  by (auto simp: reg_records_def reg_wf_def sorted_wrt_less_iff map_fst_sort_key_fst)

text \<open>The records of two registers with the same contents are the same list.\<close>

lemma reg_records_eq:
  assumes "reg_wf cfg r" and "reg_wf cfg' r'" and "map_of r = map_of r'"
  shows "reg_records cfg r = reg_records cfg' r'"
proof (rule map_sorted_distinct_set_unique)
  have "set r = set r'"
    using assms by (metis map_of_inject_set reg_wf_distinct)
  then show "set (reg_records cfg r) = set (reg_records cfg' r')" by simp
  show "sorted (map fst (reg_records cfg r))" "distinct (map fst (reg_records cfg r))"
    "sorted (map fst (reg_records cfg' r'))" "distinct (map fst (reg_records cfg' r'))"
    using reg_records_sorted assms sorted_wrt_less_iff by blast+
  show "inj_on fst (set (reg_records cfg r) \<union> set (reg_records cfg' r'))"
    using \<open>set r = set r'\<close> reg_wf_distinct [OF assms(1)] by (simp add: distinct_map)
qed

end
