(* ===== verification/Tallies.thy ===== *)
theory Tallies
  imports STM_Prelude
begin

text \<open>
  \<open>TransactionTallies\<close> of \<open>transaction/mod.rs\<close> (feature \<open>profiling\<close>): event counters of type
  \<open>AtomicUsize\<close>, whose \<open>fetch_add\<close> wraps around, so they are 64-bit words here.
\<close>

record tallies =
  n_attempts :: "64 word"
  n_retry :: "64 word"
  n_error :: "64 word"
  n_read :: "64 word"
  n_redundant_read :: "64 word"
  n_read_after_write :: "64 word"
  n_write :: "64 word"

definition tallies_default :: tallies where
  "tallies_default = \<lparr>n_attempts = 0, n_retry = 0, n_error = 0, n_read = 0,
     n_redundant_read = 0, n_read_after_write = 0, n_write = 0\<rparr>"

text \<open>\<open>AddAssign::add_assign\<close>.\<close>

definition tallies_add_assign :: "tallies \<Rightarrow> tallies \<Rightarrow> tallies" where
  "tallies_add_assign self rhs = self\<lparr>
     n_attempts := n_attempts self + n_attempts rhs,
     n_retry := n_retry self + n_retry rhs,
     n_error := n_error self + n_error rhs,
     n_read := n_read self + n_read rhs,
     n_redundant_read := n_redundant_read self + n_redundant_read rhs,
     n_read_after_write := n_read_after_write self + n_read_after_write rhs,
     n_write := n_write self + n_write rhs\<rparr>"

text \<open>\<open>Sum::sum\<close> folds with \<open>add_assign\<close> from the default.\<close>

definition tallies_sum :: "tallies list \<Rightarrow> tallies" where
  "tallies_sum ts = foldl tallies_add_assign tallies_default ts"

lemma tallies_add_assign_sel [simp]:
  "n_attempts (tallies_add_assign a b) = n_attempts a + n_attempts b"
  "n_retry (tallies_add_assign a b) = n_retry a + n_retry b"
  "n_error (tallies_add_assign a b) = n_error a + n_error b"
  "n_read (tallies_add_assign a b) = n_read a + n_read b"
  "n_redundant_read (tallies_add_assign a b) = n_redundant_read a + n_redundant_read b"
  "n_read_after_write (tallies_add_assign a b) = n_read_after_write a + n_read_after_write b"
  "n_write (tallies_add_assign a b) = n_write a + n_write b"
  by (simp_all add: tallies_add_assign_def)

lemma tallies_default_sel [simp]:
  "n_attempts tallies_default = 0" "n_retry tallies_default = 0" "n_error tallies_default = 0"
  "n_read tallies_default = 0" "n_redundant_read tallies_default = 0"
  "n_read_after_write tallies_default = 0" "n_write tallies_default = 0"
  by (simp_all add: tallies_default_def)

text \<open>The counters form a commutative monoid, so a sum does not depend on the order.\<close>

lemma tallies_add_assign_comm: "tallies_add_assign a b = tallies_add_assign b a"
  by (rule tallies.equality) (simp_all add: add.commute)

lemma tallies_add_assign_assoc:
  "tallies_add_assign (tallies_add_assign a b) c = tallies_add_assign a (tallies_add_assign b c)"
  by (rule tallies.equality) (simp_all add: add.assoc)

lemma tallies_add_assign_default [simp]: "tallies_add_assign tallies_default a = a"
  by (rule tallies.equality) simp_all

interpretation tallies_monoid: comm_monoid tallies_add_assign tallies_default
proof
  show "tallies_add_assign a tallies_default = a" for a
    by (subst tallies_add_assign_comm) simp
qed (fact tallies_add_assign_assoc tallies_add_assign_comm)+

lemma foldl_tallies_add: "foldl tallies_add_assign a ts = tallies_add_assign a (tallies_sum ts)"
proof (induction ts arbitrary: a)
  case Nil
  show ?case by (simp add: tallies_sum_def tallies_monoid.comm_neutral)
next
  case (Cons t ts)
  have "tallies_sum (t # ts) = tallies_add_assign t (tallies_sum ts)"
    using Cons.IH [of "tallies_add_assign tallies_default t"] by (simp add: tallies_sum_def)
  then show ?case by (simp add: Cons.IH tallies_add_assign_assoc)
qed

lemma tallies_sum_simps [simp]:
  "tallies_sum [] = tallies_default"
  "tallies_sum (t # ts) = tallies_add_assign t (tallies_sum ts)"
  using foldl_tallies_add [of "tallies_add_assign tallies_default t" ts]
  by (simp_all add: tallies_sum_def)

lemma tallies_sum_mset: "mset ts = mset us \<Longrightarrow> tallies_sum ts = tallies_sum us"
proof (induction ts arbitrary: us)
  case (Cons t ts)
  then obtain vs ws where us: "us = vs @ t # ws"
    by (metis list.set_intros(1) set_mset_mset split_list)
  have "tallies_sum (vs @ t # ws) = tallies_add_assign t (tallies_sum (vs @ ws))" for vs
    by (induction vs) (simp_all add: tallies_monoid.left_commute)
  moreover have "tallies_sum ts = tallies_sum (vs @ ws)"
    using Cons.prems by (intro Cons.IH) (simp add: us)
  ultimately show ?case by (simp add: us)
qed simp

end
