(* ===== verification/Transaction_Ops.thy ===== *)
theory Transaction_Ops
  imports Shared_World Result_Types Registers Tallies
begin

text \<open>
  The operations a transaction body performs (\<open>transaction/mod.rs\<close>, "In-closure routines" and the
  routines they use): \<open>read\<close>, \<open>write\<close>, \<open>modify\<close>, \<open>exchange\<close>, \<open>or\<close>, \<open>combine\<close>, \<open>clear\<close>, and
  \<open>optionally\<close> of \<open>lib.rs\<close>.  A body is a function of the transaction and the world; it returns a
  fault or a result with the new transaction, and the new world.
\<close>

section \<open>Transactions and bodies\<close>

record 'v transaction =
  vars :: "'v arc register"
  tallies_of :: tallies

definition transaction_default :: "'v transaction" where
  "transaction_default = \<lparr>vars = [], tallies_of = tallies_default\<rparr>"

type_synonym ('v, 'e, 't) body =
  "'v transaction \<Rightarrow> 'v world \<Rightarrow> (fault + ('e + 't) \<times> 'v transaction) \<times> 'v world"

text \<open>A result computed without the transaction, the operator \<open>?\<close>, and a panic of user code.\<close>

definition lift_result :: "'e + 't \<Rightarrow> ('v, 'e, 't) body" where
  "lift_result r tx w = (Inr (r, tx), w)"

definition and_then :: "('v, 'e, 's) body \<Rightarrow> ('s \<Rightarrow> ('v, 'e, 't) body) \<Rightarrow> ('v, 'e, 't) body" where
  "and_then m f tx w = (case m tx w of
       (Inl flt, w') \<Rightarrow> (Inl flt, w')
     | (Inr (Inl e, tx'), w') \<Rightarrow> (Inr (Inl e, tx'), w')
     | (Inr (Inr t, tx'), w') \<Rightarrow> f t tx' w')"

definition user_panic :: "('v, 'e, 't) body" where
  "user_panic tx w = (Inl UserPanic, w)"

text \<open>A counter is changed only with the feature \<open>profiling\<close>.\<close>

definition count :: "config \<Rightarrow> (tallies \<Rightarrow> tallies) \<Rightarrow> 'v transaction \<Rightarrow> 'v transaction" where
  "count cfg f tx = (if profiling cfg then tx\<lparr>tallies_of := f (tallies_of tx)\<rparr> else tx)"

text \<open>The counters of an access to a variable that is already in the log.\<close>

definition count_access :: "config \<Rightarrow> 'v arc log_var \<Rightarrow> 'v transaction \<Rightarrow> 'v transaction" where
  "count_access cfg log tx = (case log of
       Read _ \<Rightarrow> count cfg (n_redundant_read_update (\<lambda>n. n + 1)) tx
     | Write _ \<Rightarrow> count cfg (n_read_after_write_update (\<lambda>n. n + 1)) tx
     | _ \<Rightarrow> tx)"

text \<open>The check of \<open>early-conflict-detection\<close>: the variable was read and holds another value now.\<close>

definition early_conflict :: "config \<Rightarrow> tvar \<Rightarrow> 'v arc log_var \<Rightarrow> 'v world \<Rightarrow> bool" where
  "early_conflict cfg var log w = (early_conflict_detection cfg \<and>
     (case log of Read v \<Rightarrow> \<not> ptr_eq v (TVar_read_ref_atomic var w) | _ \<Rightarrow> False))"

section \<open>Operations on variables\<close>

definition Transaction_read :: "config \<Rightarrow> tvar \<Rightarrow> ('v, stm_error, 'v) body" where
  "Transaction_read cfg var tx w =
     (let tx = count cfg (n_read_update (\<lambda>n. n + 1)) tx;
          key = control_block_of var;
          finish = (\<lambda>value tx. case downcast (marker var) value of
              Inl flt \<Rightarrow> (Inl flt, w)
            | Inr v \<Rightarrow> (Inr (Inr v, tx), w))
      in case map_of (vars tx) key of
           Some log \<Rightarrow>
             (let tx = count_access cfg log tx in
              if early_conflict cfg var log w then (Inr (Inl Failure, tx), w)
              else let (value, log') = LogVar_read log
                   in finish value (tx\<lparr>vars := reg_update key log' (vars tx)\<rparr>))
         | None \<Rightarrow>
             (let value = TVar_read_ref_atomic var w
              in finish value (tx\<lparr>vars := reg_insert cfg key (Read value) (vars tx)\<rparr>)))"

definition Transaction_write :: "config \<Rightarrow> tvar \<Rightarrow> 'v \<Rightarrow> ('v, stm_error, unit) body" where
  "Transaction_write cfg var value tx w =
     (let tx = count cfg (n_write_update (\<lambda>n. n + 1)) tx;
          (boxed, w) = Arc_new (Dyn (marker var) value) w;
          key = control_block_of var
      in case map_of (vars tx) key of
           Some log \<Rightarrow> (Inr (Inr (), tx\<lparr>vars := reg_update key (LogVar_write boxed log) (vars tx)\<rparr>), w)
         | None \<Rightarrow> (Inr (Inr (), tx\<lparr>vars := reg_insert cfg key (Write boxed) (vars tx)\<rparr>), w))"

definition Transaction_modify :: "config \<Rightarrow> tvar \<Rightarrow> ('v \<Rightarrow> 'v) \<Rightarrow> ('v, stm_error, unit) body" where
  "Transaction_modify cfg var f tx w =
     (let tx = count cfg (n_write_update (\<lambda>n. n + 1)) tx;
          key = control_block_of var
      in case map_of (vars tx) key of
           Some log \<Rightarrow>
             (let tx = count_access cfg log tx in
              if early_conflict cfg var log w then (Inr (Inl Failure, tx), w)
              else let (value, log') = LogVar_read log in
                case downcast (marker var) value of
                  Inl flt \<Rightarrow> (Inl flt, w)
                | Inr v \<Rightarrow>
                    let (boxed, w) = Arc_new (Dyn (marker var) (f v)) w
                    in (Inr (Inr (), tx\<lparr>vars := reg_update key (LogVar_write boxed log') (vars tx)\<rparr>), w))
         | None \<Rightarrow>
             (let value = TVar_read_ref_atomic var w in
              case downcast (marker var) value of
                Inl flt \<Rightarrow> (Inl flt, w)
              | Inr v \<Rightarrow>
                  let (boxed, w) = Arc_new (Dyn (marker var) (f v)) w
                  in (Inr (Inr (), tx\<lparr>vars := reg_insert cfg key (ReadWrite value boxed) (vars tx)\<rparr>), w)))"

definition Transaction_exchange :: "config \<Rightarrow> tvar \<Rightarrow> 'v \<Rightarrow> ('v, stm_error, 'v) body" where
  "Transaction_exchange cfg var value tx w =
     (let tx = count cfg (n_write_update (\<lambda>n. n + 1)) tx;
          (boxed, w) = Arc_new (Dyn (marker var) value) w;
          key = control_block_of var;
          finish = (\<lambda>value tx. case downcast (marker var) value of
              Inl flt \<Rightarrow> (Inl flt, w)
            | Inr v \<Rightarrow> (Inr (Inr v, tx), w))
      in case map_of (vars tx) key of
           Some log \<Rightarrow>
             (let tx = count_access cfg log tx in
              if early_conflict cfg var log w then (Inr (Inl Failure, tx), w)
              else let (value, log') = LogVar_read log
                   in finish value (tx\<lparr>vars := reg_update key (LogVar_write boxed log') (vars tx)\<rparr>))
         | None \<Rightarrow>
             (let value = TVar_read_ref_atomic var w
              in finish value (tx\<lparr>vars := reg_insert cfg key (ReadWrite value boxed) (vars tx)\<rparr>)))"

text \<open>The methods of \<open>TVar<T>\<close> that take the transaction.\<close>

definition TVar_read :: "config \<Rightarrow> tvar \<Rightarrow> ('v, stm_error, 'v) body" where
  "TVar_read cfg self transaction = Transaction_read cfg self transaction"

definition TVar_write :: "config \<Rightarrow> tvar \<Rightarrow> 'v \<Rightarrow> ('v, stm_error, unit) body" where
  "TVar_write cfg self value transaction = Transaction_write cfg self value transaction"

definition TVar_modify :: "config \<Rightarrow> tvar \<Rightarrow> ('v \<Rightarrow> 'v) \<Rightarrow> ('v, stm_error, unit) body" where
  "TVar_modify cfg self f transaction = Transaction_modify cfg self f transaction"

definition TVar_exchange :: "config \<Rightarrow> tvar \<Rightarrow> 'v \<Rightarrow> ('v, stm_error, 'v) body" where
  "TVar_exchange cfg self value transaction = Transaction_exchange cfg self value transaction"

section \<open>Alternatives\<close>

text \<open>The loop of \<open>Transaction::combine\<close>: the entries of a blocked path, as far as they hold a read
  value, become obsolete entries at the keys that are still vacant.\<close>

fun combine_vars :: "config \<Rightarrow> 'a register \<Rightarrow> 'a register \<Rightarrow> 'a register" where
  "combine_vars cfg [] self_vars = self_vars"
| "combine_vars cfg ((var, value) # rest) self_vars =
     combine_vars cfg rest (case LogVar_obsolete value of
         Some value' \<Rightarrow>
           (case map_of self_vars var of
              Some _ \<Rightarrow> self_vars
            | None \<Rightarrow> reg_insert cfg var value' self_vars)
       | None \<Rightarrow> self_vars)"

definition Transaction_combine :: "config \<Rightarrow> 'v arc register \<Rightarrow> 'v transaction \<Rightarrow> 'v transaction" where
  "Transaction_combine cfg vs tx = tx\<lparr>vars := combine_vars cfg vs (vars tx)\<rparr>"

definition Transaction_clear :: "'v transaction \<Rightarrow> 'v transaction" where
  "Transaction_clear tx = tx\<lparr>vars := []\<rparr>"

definition Transaction_or ::
  "config \<Rightarrow> ('v, stm_error, 't) body \<Rightarrow> ('v, stm_error, 't) body \<Rightarrow> ('v, stm_error, 't) body" where
  "Transaction_or cfg first second tx w =
     (let copy = vars tx in
      case first tx w of
        (Inl flt, w) \<Rightarrow> (Inl flt, w)
      | (Inr (Inl Retry, tx), w) \<Rightarrow>
          (let (self_vars, copy) = (copy, vars tx);
               tx = tx\<lparr>vars := self_vars\<rparr>
           in case second tx w of
                (Inl flt, w) \<Rightarrow> (Inl flt, w)
              | (Inr (Inl Failure, tx), w) \<Rightarrow> (Inr (Inl Failure, tx), w)
              | (Inr (s, tx), w) \<Rightarrow> (Inr (s, Transaction_combine cfg copy tx), w))
      | (Inr (x, tx), w) \<Rightarrow> (Inr (x, tx), w))"

text \<open>\<open>optionally\<close> of \<open>lib.rs\<close>.\<close>

definition optionally ::
  "config \<Rightarrow> ('v, stm_error, 't) body \<Rightarrow> ('v, stm_error, 't option) body" where
  "optionally cfg f =
     Transaction_or cfg (and_then f (\<lambda>t. lift_result (Inr (Some t)))) (lift_result (Inr None))"

end
