(* ===== verification/Transaction_Facts.thy ===== *)
theory Transaction_Facts
  imports Transaction_Ops
begin

text \<open>
  Facts on the operations of a transaction body.  Every operation on a variable is first put into a
  normal form over the one log entry it touches; the views of \<open>Log_Var\<close> and the register interface
  of \<open>Registers\<close> then give its effect.  The locales \<open>wf_body\<close> and \<open>isolated_body\<close> are the contracts
  a body keeps: the log stays a well-formed register, and nothing other threads can see changes.
\<close>

section \<open>Normal forms\<close>

definition reg_set :: "config \<Rightarrow> block \<Rightarrow> 'a log_var \<Rightarrow> 'a register \<Rightarrow> 'a register" where
  "reg_set cfg k l r = (if k \<in> fst ` set r then reg_update k l r else reg_insert cfg k l r)"

lemma map_of_reg_set [simp]: "reg_wf cfg r \<Longrightarrow> map_of (reg_set cfg k l r) = (map_of r)(k \<mapsto> l)"
  by (simp add: reg_set_def reg_simps)

lemma reg_wf_set [simp, intro]: "reg_wf cfg r \<Longrightarrow> reg_wf cfg (reg_set cfg k l r)"
  by (simp add: reg_set_def wf_intros)

lemma reg_set_twice [simp]: "reg_wf cfg r \<Longrightarrow> reg_set cfg k l' (reg_set cfg k l r) = reg_set cfg k l' r"
proof -
  assume wf: "reg_wf cfg r"
  have upd_upd: "reg_update k l' (reg_update k l r) = reg_update k l' r"
    by (auto simp: reg_update_def)
  have upd_id: "reg_update k l' s = s" if "k \<notin> fst ` set s" for s :: "'a register"
    using that unfolding reg_update_def by (intro map_idI) force
  have "reg_update k l' (btree_insert k l s) = btree_insert k l' s"
    if "k \<notin> fst ` set s" for s :: "'a register"
    using that upd_id by (induction k l s rule: btree_insert.induct) (auto simp: reg_update_def)
  moreover have "reg_update k l' (hash_insert (hash_rank cfg) k l r) = hash_insert (hash_rank cfg) k l' r"
    if "k \<notin> fst ` set r"
  proof -
    have *: "map (\<lambda>(k', v'). if k' = k then (k', l') else (k', v')) (insort_key (\<lambda>e. g (fst e)) x xs) =
        insort_key (\<lambda>e. g (fst e)) ((\<lambda>(k', v'). if k' = k then (k', l') else (k', v')) x)
          (map (\<lambda>(k', v'). if k' = k then (k', l') else (k', v')) xs)"
      for g :: "block \<Rightarrow> nat" and x xs
      by (induction xs) (auto split: prod.splits)
    have "map (\<lambda>(k', v'). if k' = k then (k', l') else (k', v'))
        (sort_key (\<lambda>e. hash_rank cfg (Suc (length r)) (fst e)) r) =
        sort_key (\<lambda>e. hash_rank cfg (Suc (length r)) (fst e)) r"
      using that by (intro map_idI) force
    then show ?thesis
      by (simp add: hash_insert_def reg_update_def *)
  qed
  ultimately show ?thesis
    using wf upd_upd by (auto simp: reg_set_def reg_insert_def reg.keys_ins hash.keys_ins
        btree.keys_ins reg_wf_def)
qed

text \<open>The log entry an access works on: the one in the log, or a fresh read of the variable.\<close>

definition entry_of :: "tvar \<Rightarrow> 'v transaction \<Rightarrow> 'v world \<Rightarrow> 'v arc log_var" where
  "entry_of var tx w = (case map_of (vars tx) (control_block_of var) of
     Some l \<Rightarrow> l | None \<Rightarrow> Read (mem w (control_block_of var)))"

definition set_entry :: "config \<Rightarrow> tvar \<Rightarrow> 'v arc log_var \<Rightarrow> 'v transaction \<Rightarrow> 'v transaction" where
  "set_entry cfg var l tx = tx\<lparr>vars := reg_set cfg (control_block_of var) l (vars tx)\<rparr>"

text \<open>The counters of an access.\<close>

definition counted :: "config \<Rightarrow> (tallies \<Rightarrow> tallies) \<Rightarrow> tvar \<Rightarrow> 'v transaction \<Rightarrow> 'v transaction" where
  "counted cfg f var tx = (case map_of (vars tx) (control_block_of var) of
     Some l \<Rightarrow> count_access cfg l (count cfg f tx) | None \<Rightarrow> count cfg f tx)"

lemma vars_count [simp]: "vars (count cfg f tx) = vars tx"
  by (simp add: count_def)

lemma vars_count_access [simp]: "vars (count_access cfg l tx) = vars tx"
  by (simp add: count_access_def split: log_var.split)

lemma vars_counted [simp]: "vars (counted cfg f var tx) = vars tx"
  by (simp add: counted_def split: option.split)

lemma vars_set_entry [simp]:
  "vars (set_entry cfg var l tx) = reg_set cfg (control_block_of var) l (vars tx)"
  by (simp add: set_entry_def)

lemma set_entry_twice [simp]:
  "reg_wf cfg (vars tx) \<Longrightarrow> set_entry cfg var l' (set_entry cfg var l tx) = set_entry cfg var l' tx"
  by (simp add: set_entry_def)

lemma entry_of_counted [simp]: "entry_of var (counted cfg f var' tx) w = entry_of var tx w"
  by (simp add: entry_of_def)

lemma entry_of_set_entry [simp]:
  "reg_wf cfg (vars tx) \<Longrightarrow> entry_of var (set_entry cfg var l tx) w = l"
  by (simp add: entry_of_def)

lemma early_conflict_fresh [simp]: "\<not> early_conflict cfg var (Read (mem w (control_block_of var))) w"
  by (simp add: early_conflict_def ptr_eq_def TVar_read_ref_atomic_def)

lemma early_conflict_iff:
  "early_conflict cfg var l w \<longleftrightarrow> early_conflict_detection cfg \<and>
     (\<exists>v. l = Read v \<and> \<not> ptr_eq v (mem w (control_block_of var)))"
  by (cases l) (simp_all add: early_conflict_def TVar_read_ref_atomic_def)

lemma LogVar_read_pair: "LogVar_read l = (LogVar_current l, snd (LogVar_read l))"
  by (metis LogVar_read_value prod.collapse)

lemma Arc_new_pair: "Arc_new v w = (Arc (next_arc w) v, w\<lparr>next_arc := Suc (next_arc w)\<rparr>)"
  by (simp add: Arc_new_def)

lemma Transaction_read_eq:
  "Transaction_read cfg var tx w =
     (let l = entry_of var tx w; tx1 = counted cfg (n_read_update (\<lambda>n. n + 1)) var tx in
      if early_conflict cfg var l w then (Inr (Inl Failure, tx1), w)
      else case downcast (marker var) (LogVar_current l) of
             Inl flt \<Rightarrow> (Inl flt, w)
           | Inr v \<Rightarrow> (Inr (Inr v, set_entry cfg var (snd (LogVar_read l)) tx1), w))"
proof (cases "map_of (vars tx) (control_block_of var)")
  case None
  then have "control_block_of var \<notin> fst ` set (vars tx)" by (simp add: map_of_eq_None_keys)
  with None show ?thesis
    using early_conflict_fresh [of cfg var w]
    by (simp add: Let_def Transaction_read_def entry_of_def counted_def set_entry_def reg_set_def
        TVar_read_ref_atomic_def split: sum.split)
next
  case (Some l)
  then have "control_block_of var \<in> fst ` set (vars tx)" by (rule map_of_SomeD_keys)
  with Some show ?thesis
    by (simp add: Let_def Transaction_read_def entry_of_def counted_def set_entry_def reg_set_def
        LogVar_read_value case_prod_beta split: sum.split)
qed

lemma Transaction_write_eq:
  "Transaction_write cfg var value tx w =
     (let boxed = Arc (next_arc w) (Dyn (marker var) value) in
      (Inr (Inr (), set_entry cfg var
         (case map_of (vars tx) (control_block_of var) of Some l \<Rightarrow> LogVar_write boxed l | None \<Rightarrow> Write boxed)
         (count cfg (n_write_update (\<lambda>n. n + 1)) tx)), w\<lparr>next_arc := Suc (next_arc w)\<rparr>))"
proof (cases "map_of (vars tx) (control_block_of var)")
  case None
  then have "control_block_of var \<notin> fst ` set (vars tx)" by (simp add: map_of_eq_None_keys)
  with None show ?thesis
    by (simp add: Let_def Transaction_write_def set_entry_def reg_set_def Arc_new_def)
next
  case (Some l)
  then have "control_block_of var \<in> fst ` set (vars tx)" by (rule map_of_SomeD_keys)
  with Some show ?thesis
    by (simp add: Let_def Transaction_write_def set_entry_def reg_set_def Arc_new_def)
qed

lemma Transaction_modify_eq:
  "Transaction_modify cfg var f tx w =
     (let l = entry_of var tx w; tx1 = counted cfg (n_write_update (\<lambda>n. n + 1)) var tx in
      if early_conflict cfg var l w then (Inr (Inl Failure, tx1), w)
      else case downcast (marker var) (LogVar_current l) of
             Inl flt \<Rightarrow> (Inl flt, w)
           | Inr v \<Rightarrow> (Inr (Inr (), set_entry cfg var
                 (LogVar_write (Arc (next_arc w) (Dyn (marker var) (f v))) (snd (LogVar_read l))) tx1),
               w\<lparr>next_arc := Suc (next_arc w)\<rparr>))"
proof (cases "map_of (vars tx) (control_block_of var)")
  case None
  then have "control_block_of var \<notin> fst ` set (vars tx)" by (simp add: map_of_eq_None_keys)
  with None show ?thesis
    using early_conflict_fresh [of cfg var w]
    by (simp add: Let_def Transaction_modify_def entry_of_def counted_def set_entry_def reg_set_def
        TVar_read_ref_atomic_def Arc_new_def split: sum.split)
next
  case (Some l)
  then have "control_block_of var \<in> fst ` set (vars tx)" by (rule map_of_SomeD_keys)
  with Some show ?thesis
    by (simp add: Let_def Transaction_modify_def entry_of_def counted_def set_entry_def reg_set_def
        LogVar_read_value case_prod_beta Arc_new_def split: sum.split)
qed

lemma Transaction_exchange_eq:
  "Transaction_exchange cfg var value tx w =
     (let l = entry_of var tx w; tx1 = counted cfg (n_write_update (\<lambda>n. n + 1)) var tx;
          w1 = w\<lparr>next_arc := Suc (next_arc w)\<rparr> in
      if early_conflict cfg var l w1 then (Inr (Inl Failure, tx1), w1)
      else case downcast (marker var) (LogVar_current l) of
             Inl flt \<Rightarrow> (Inl flt, w1)
           | Inr v \<Rightarrow> (Inr (Inr v, set_entry cfg var
                 (LogVar_write (Arc (next_arc w) (Dyn (marker var) value)) (snd (LogVar_read l))) tx1), w1))"
proof (cases "map_of (vars tx) (control_block_of var)")
  case None
  then have "control_block_of var \<notin> fst ` set (vars tx)" by (simp add: map_of_eq_None_keys)
  with None show ?thesis
    using early_conflict_fresh [of cfg var "w\<lparr>next_arc := Suc (next_arc w)\<rparr>"]
    by (simp add: Let_def Transaction_exchange_def entry_of_def counted_def set_entry_def reg_set_def
        TVar_read_ref_atomic_def Arc_new_def split: sum.split)
next
  case (Some l)
  then have "control_block_of var \<in> fst ` set (vars tx)" by (rule map_of_SomeD_keys)
  with Some show ?thesis
    by (simp add: Let_def Transaction_exchange_def entry_of_def counted_def set_entry_def reg_set_def
        LogVar_read_value case_prod_beta Arc_new_def split: sum.split)
qed

lemma early_conflict_next_arc [simp]:
  "early_conflict cfg var l (w\<lparr>next_arc := n\<rparr>) = early_conflict cfg var l w"
  by (simp add: early_conflict_iff)

lemmas op_eqs = Transaction_read_eq Transaction_write_eq Transaction_modify_eq Transaction_exchange_eq

end
