(* ===== verification/Bodies.thy ===== *)
theory Bodies
  imports Transaction_Facts
begin

text \<open>
  The contracts of transaction bodies as locales, their interpretation on the operations of the
  code, and what the operations and the combinators \<open>or\<close> and \<open>optionally\<close> compute.
\<close>

section \<open>Contracts\<close>

text \<open>The variables a retrying transaction waits for: those with a read value in the log.\<close>

definition wait_set :: "'a register \<Rightarrow> block set" where
  "wait_set r = {k. \<exists>l. map_of r k = Some l \<and> LogVar_into_read_value l \<noteq> None}"

text \<open>A body keeps the log a register, and never forgets or changes an original value.\<close>

locale wf_body =
  fixes cfg :: config and m :: "('v, 'e, 't) body"
  assumes keeps_wf: "m tx w = (Inr (r, tx'), w') \<Longrightarrow> reg_wf cfg (vars tx) \<Longrightarrow> reg_wf cfg (vars tx')"
    and keeps_reads: "m tx w = (Inr (r, tx'), w') \<Longrightarrow> reg_wf cfg (vars tx) \<Longrightarrow>
      map_of (vars tx) k = Some l \<Longrightarrow> LogVar_into_read_value l = Some v \<Longrightarrow>
      \<exists>l'. map_of (vars tx') k = Some l' \<and> LogVar_into_read_value l' = Some v"
begin

lemma keeps_wait_set:
  "m tx w = (Inr (r, tx'), w') \<Longrightarrow> reg_wf cfg (vars tx) \<Longrightarrow> wait_set (vars tx) \<subseteq> wait_set (vars tx')"
  using keeps_reads by (fastforce simp: wait_set_def)

end

text \<open>A body changes nothing that other threads can see; it only allocates.\<close>

definition allocates :: "'v world \<Rightarrow> 'v world \<Rightarrow> bool" where
  "allocates w w' \<longleftrightarrow> next_arc w \<le> next_arc w' \<and> w' = w\<lparr>next_arc := next_arc w'\<rparr>"

lemma allocates_refl [simp, intro]: "allocates w w"
  by (simp add: allocates_def)

lemma allocates_Suc [simp, intro]: "allocates w (w\<lparr>next_arc := Suc (next_arc w)\<rparr>)"
  by (simp add: allocates_def)

lemma allocates_trans: "allocates w w1 \<Longrightarrow> allocates w1 w2 \<Longrightarrow> allocates w w2"
proof (unfold allocates_def, elim conjE, intro conjI)
  assume "next_arc w \<le> next_arc w1" "next_arc w1 \<le> next_arc w2"
  then show "next_arc w \<le> next_arc w2" by simp
  assume 1: "w1 = w\<lparr>next_arc := next_arc w1\<rparr>" and 2: "w2 = w1\<lparr>next_arc := next_arc w2\<rparr>"
  from 1 have "w1\<lparr>next_arc := next_arc w2\<rparr> = w\<lparr>next_arc := next_arc w2\<rparr>"
    by (metis world.update_convs(6) world.surjective)
  with 2 show "w2 = w\<lparr>next_arc := next_arc w2\<rparr>" by simp
qed

lemma allocatesD:
  assumes "allocates w w'"
  shows "blocks w' = blocks w" "live w' = live w" "ctrls w' = ctrls w" "unparked w' = unparked w"
    "transaction_running w' = transaction_running w" "next_ctrl w' = next_ctrl w"
    "next_block w' = next_block w" "clock w' = clock w" "next_arc w \<le> next_arc w'"
proof -
  from assms have "next_arc w \<le> next_arc w'" and "w' = w\<lparr>next_arc := next_arc w'\<rparr>"
    by (simp_all add: allocates_def)
  moreover obtain n where "n = next_arc w'" by simp
  ultimately have *: "w' = w\<lparr>next_arc := n\<rparr>" "next_arc w \<le> n" by simp_all
  show "blocks w' = blocks w" "live w' = live w" "ctrls w' = ctrls w" "unparked w' = unparked w"
    "transaction_running w' = transaction_running w" "next_ctrl w' = next_ctrl w"
    "next_block w' = next_block w" "clock w' = clock w" "next_arc w \<le> next_arc w'"
    using *(2) by (simp_all add: *(1))
qed

locale isolated_body =
  fixes m :: "('v, 'e, 't) body"
  assumes isolated: "m tx w = (res, w') \<Longrightarrow> allocates w w'"
begin

lemma keeps_world:
  assumes "m tx w = (res, w')"
  shows "blocks w' = blocks w" "live w' = live w" "ctrls w' = ctrls w" "unparked w' = unparked w"
    "transaction_running w' = transaction_running w" "next_arc w \<le> next_arc w'"
  using allocatesD [OF isolated [OF assms]] by simp_all

end

locale stm_body = wf_body cfg m + isolated_body m for cfg and m :: "('v, 'e, 't) body"

section \<open>Combinators keep the contracts\<close>

text \<open>One iteration of the loop of \<open>combine\<close>.\<close>

definition combine_one :: "config \<Rightarrow> block \<Rightarrow> 'a log_var \<Rightarrow> 'a register \<Rightarrow> 'a register" where
  "combine_one cfg var val self_vars = (case LogVar_obsolete val of
      Some val' \<Rightarrow> (case map_of self_vars var of Some _ \<Rightarrow> self_vars
        | None \<Rightarrow> reg_insert cfg var val' self_vars)
    | None \<Rightarrow> self_vars)"

lemma combine_vars_Cons:
  "combine_vars cfg ((var, val) # rest) self_vars = combine_vars cfg rest (combine_one cfg var val self_vars)"
  by (simp add: combine_one_def)

declare combine_vars.simps(2) [simp del] combine_vars_Cons [simp]

lemma combine_one_idle [simp]: "var \<in> fst ` set r \<Longrightarrow> combine_one cfg var val r = r"
  by (cases "map_of r var") (auto simp: combine_one_def map_of_eq_None_keys split: option.split)

lemma reg_wf_combine_one: "reg_wf cfg r \<Longrightarrow> reg_wf cfg (combine_one cfg var val r)"
  by (auto simp: combine_one_def map_of_eq_None_keys intro: wf_intros split: option.split)

lemma map_of_combine_one:
  "reg_wf cfg r \<Longrightarrow> map_of (combine_one cfg var val r) = (\<lambda>j.
      if j = var \<and> map_of r var = None then LogVar_obsolete val else map_of r j)"
  using map_of_eq_None_keys [of r var]
  by (cases "map_of r var"; cases "LogVar_obsolete val")
    (auto simp: combine_one_def fun_eq_iff reg_simps simp del: LogVar_obsolete_eq_None)

lemma reg_wf_combine_vars: "reg_wf cfg r \<Longrightarrow> reg_wf cfg (combine_vars cfg vs r)"
proof (induction vs arbitrary: r)
  case (Cons e vs)
  then show ?case by (cases e) (simp add: combine_vars_Cons reg_wf_combine_one)
qed simp

lemma map_of_combine_vars:
  assumes "distinct (map fst vs)" and "reg_wf cfg r"
  shows "map_of (combine_vars cfg vs r) k =
     (case map_of r k of Some l \<Rightarrow> Some l | None \<Rightarrow> Option.bind (map_of vs k) LogVar_obsolete)"
  using assms
proof (induction vs arbitrary: r)
  case Nil
  then show ?case by (simp split: option.split)
next
  case (Cons e vs)
  obtain var val where e: "e = (var, val)" by (cases e)
  with Cons.prems have fresh: "map_of vs var = None" by (simp add: map_of_eq_None_keys)
  have "map_of (combine_vars cfg (e # vs) r) k = (case map_of (combine_one cfg var val r) k of
      Some l \<Rightarrow> Some l | None \<Rightarrow> Option.bind (map_of vs k) LogVar_obsolete)"
    using Cons.IH [OF _ reg_wf_combine_one [OF Cons.prems(2)]] Cons.prems
    by (simp add: e combine_vars_Cons)
  then show ?case
    using fresh Cons.prems(2) by (auto simp: e map_of_combine_one simp del: LogVar_obsolete_eq_None split: option.split)
qed

lemma combine_vars_idle: "fst ` set vs \<subseteq> fst ` set r \<Longrightarrow> combine_vars cfg vs r = r"
proof (induction vs)
  case (Cons e vs)
  then show ?case by (cases e) simp
qed simp

lemma vars_combine [simp]: "vars (Transaction_combine cfg vs tx) = combine_vars cfg vs (vars tx)"
  by (simp add: Transaction_combine_def)

text \<open>The three ways in which \<open>or\<close> returns a result.\<close>

lemma Transaction_or_cases:
  assumes "Transaction_or cfg first second tx w = (Inr (r, tx'), w')"
  obtains (first) "first tx w = (Inr (r, tx'), w')" "r \<noteq> Inl Retry"
  | (failure) tx1 w1 where "first tx w = (Inr (Inl Retry, tx1), w1)"
      "second (tx1\<lparr>vars := vars tx\<rparr>) w1 = (Inr (r, tx'), w')" "r = Inl Failure"
  | (second) tx1 w1 tx2 where "first tx w = (Inr (Inl Retry, tx1), w1)"
      "second (tx1\<lparr>vars := vars tx\<rparr>) w1 = (Inr (r, tx2), w')" "r \<noteq> Inl Failure"
      "tx' = Transaction_combine cfg (vars tx1) tx2"
  using assms unfolding Transaction_or_def
  by (auto split: prod.splits sum.splits stm_error.splits)

lemma Transaction_or_Retry:
  "first tx w = (Inr (Inl Retry, tx1), w1) \<Longrightarrow>
   Transaction_or cfg first second tx w = (case second (tx1\<lparr>vars := vars tx\<rparr>) w1 of
       (Inl flt, w2) \<Rightarrow> (Inl flt, w2)
     | (Inr (s, tx2), w2) \<Rightarrow>
         (Inr (s, if s = Inl Failure then tx2 else Transaction_combine cfg (vars tx1) tx2), w2))"
  by (auto simp: Transaction_or_def split: prod.split sum.split stm_error.split)

lemma Transaction_or_first:
  "first tx w = (Inr (r, tx1), w1) \<Longrightarrow> r \<noteq> Inl Retry \<Longrightarrow>
   Transaction_or cfg first second tx w = (Inr (r, tx1), w1)"
  by (auto simp: Transaction_or_def split: sum.split stm_error.split)

lemma wf_body_or:
  assumes "wf_body cfg first" and "wf_body cfg second"
  shows "wf_body cfg (Transaction_or cfg first second)"
proof
  fix tx tx' :: "'a transaction" and w w' :: "'a world" and r :: "stm_error + 'b"
  assume run: "Transaction_or cfg first second tx w = (Inr (r, tx'), w')" and wf: "reg_wf cfg (vars tx)"
  show "reg_wf cfg (vars tx')"
    using run
  proof (cases rule: Transaction_or_cases)
    case first
    then show ?thesis using wf_body.keeps_wf [OF assms(1)] wf by blast
  next
    case failure
    then show ?thesis using wf_body.keeps_wf [OF assms(2)] wf by fastforce
  next
    case (second tx1 w1 tx2)
    then have "reg_wf cfg (vars tx2)" "reg_wf cfg (vars tx1)"
      using wf_body.keeps_wf [OF assms(2)] wf_body.keeps_wf [OF assms(1)] wf by fastforce+
    then show ?thesis using second(4) by (simp add: map_of_combine_vars reg_wf_combine_vars reg_wf_distinct)
  qed
  fix k l v
  assume l: "map_of (vars tx) k = Some l" "LogVar_into_read_value l = Some v"
  show "\<exists>l'. map_of (vars tx') k = Some l' \<and> LogVar_into_read_value l' = Some v"
    using run
  proof (cases rule: Transaction_or_cases)
    case first
    then show ?thesis using wf_body.keeps_reads [OF assms(1)] wf l by blast
  next
    case failure
    then show ?thesis using wf_body.keeps_reads [OF assms(2)] wf l by fastforce
  next
    case (second tx1 w1 tx2)
    then have "reg_wf cfg (vars tx2)" "reg_wf cfg (vars tx1)"
      using wf_body.keeps_wf [OF assms(2)] wf_body.keeps_wf [OF assms(1)] wf by fastforce+
    moreover have "\<exists>l'. map_of (vars tx2) k = Some l' \<and> LogVar_into_read_value l' = Some v"
      using wf_body.keeps_reads [OF assms(2) second(2)] wf l by fastforce
    ultimately show ?thesis using second(4) by (auto simp: map_of_combine_vars reg_wf_combine_vars reg_wf_distinct)
  qed
qed

lemma isolated_body_or:
  assumes "isolated_body first" and "isolated_body second"
  shows "isolated_body (Transaction_or cfg first second)"
proof
  fix tx :: "'a transaction" and w w' :: "'a world" and res
  assume run: "Transaction_or cfg first second tx w = (res, w')"
  obtain r1 w1 where 1: "first tx w = (r1, w1)" by (cases "first tx w")
  then have w1: "allocates w w1" by (rule isolated_body.isolated [OF assms(1)])
  show "allocates w w'"
  proof (cases "\<exists>tx1. r1 = Inr (Inl Retry, tx1)")
    case True
    then obtain tx1 where tx1: "first tx w = (Inr (Inl Retry, tx1), w1)" using 1 by blast
    obtain r2 w2 where 2: "second (tx1\<lparr>vars := vars tx\<rparr>) w1 = (r2, w2)"
      by (cases "second (tx1\<lparr>vars := vars tx\<rparr>) w1")
    then have "allocates w1 w2" by (rule isolated_body.isolated [OF assms(2)])
    moreover have "w' = w2"
      using run 2 by (auto simp: Transaction_or_Retry [where first = first and tx = tx and w = w, OF tx1] split: sum.splits)
    ultimately show ?thesis using w1 allocates_trans by blast
  next
    case False
    then have "w' = w1"
      using run 1 by (auto simp: Transaction_or_def split: sum.splits stm_error.splits)
    with w1 show ?thesis by simp
  qed
qed

lemma wf_body_and_then:
  assumes "wf_body cfg m" and "\<And>t. wf_body cfg (f t)"
  shows "wf_body cfg (and_then m f)"
proof
  fix tx tx' :: "'a transaction" and w w' :: "'a world" and r :: "'b + 'd"
  assume run: "and_then m f tx w = (Inr (r, tx'), w')" and wf: "reg_wf cfg (vars tx)"
  then consider (err) e where "m tx w = (Inr (Inl e, tx'), w')"
    | (ok) t tx1 w1 where "m tx w = (Inr (Inr t, tx1), w1)" "f t tx1 w1 = (Inr (r, tx'), w')"
    unfolding and_then_def by (auto split: prod.splits sum.splits)
  note runs = this
  show "reg_wf cfg (vars tx')"
    using runs wf by (cases; meson assms wf_body.keeps_wf)
  fix k l v
  assume l: "map_of (vars tx) k = Some l" "LogVar_into_read_value l = Some v"
  show "\<exists>l'. map_of (vars tx') k = Some l' \<and> LogVar_into_read_value l' = Some v"
    using runs
  proof cases
    case err
    with wf l show ?thesis by (meson assms(1) wf_body.keeps_reads)
  next
    case ok
    with wf l show ?thesis by (meson assms wf_body.keeps_reads wf_body.keeps_wf)
  qed
qed

lemma isolated_body_and_then:
  assumes "isolated_body m" and "\<And>t. isolated_body (f t)"
  shows "isolated_body (and_then m f)"
proof
  fix tx :: "'a transaction" and w w' :: "'a world" and res
  assume run: "and_then m f tx w = (res, w')"
  obtain r1 w1 where 1: "m tx w = (r1, w1)" by (cases "m tx w")
  then have w1: "allocates w w1" by (rule isolated_body.isolated [OF assms(1)])
  show "allocates w w'"
  proof (cases "\<exists>t tx1. r1 = Inr (Inr t, tx1)")
    case True
    then obtain t tx1 where "f t tx1 w1 = (res, w')" using 1 run by (auto simp: and_then_def)
    then have "allocates w1 w'" by (rule isolated_body.isolated [OF assms(2)])
    with w1 show ?thesis by (rule allocates_trans)
  next
    case False
    then have "w' = w1" using run 1 by (auto simp: and_then_def split: sum.splits)
    with w1 show ?thesis by simp
  qed
qed

lemma stm_body_lift_result [intro!]: "stm_body cfg (lift_result r)"
  by unfold_locales (auto simp: lift_result_def)

lemma stm_body_or [intro]: "stm_body cfg m \<Longrightarrow> stm_body cfg m' \<Longrightarrow> stm_body cfg (Transaction_or cfg m m')"
  by (simp add: stm_body_def wf_body_or isolated_body_or)

lemma stm_body_and_then [intro]:
  "stm_body cfg m \<Longrightarrow> (\<And>t. stm_body cfg (f t)) \<Longrightarrow> stm_body cfg (and_then m f)"
  by (simp add: stm_body_def wf_body_and_then isolated_body_and_then)

text \<open>Two alternatives under the contract: \<open>or\<close> is again a body, and so is \<open>optionally\<close>.\<close>

locale stm_alternatives =
  first: stm_body cfg first + second: stm_body cfg second
  for cfg and first second :: "('v, stm_error, 't) body"

sublocale stm_alternatives \<subseteq> either: stm_body cfg "Transaction_or cfg first second"
  by (intro stm_body_or first.stm_body_axioms second.stm_body_axioms)

section \<open>The operations of the code keep the contracts\<close>

lemma set_entry_reads:
  assumes "reg_wf cfg (vars tx)" and "map_of (vars tx) k = Some l" and "LogVar_into_read_value l = Some v"
    and "k = control_block_of var \<Longrightarrow> LogVar_into_read_value l' = Some v"
  shows "\<exists>l''. map_of (vars (set_entry cfg var l' tx)) k = Some l'' \<and> LogVar_into_read_value l'' = Some v"
  using assms by auto

lemma wf_bodyI:
  assumes "\<And>tx w r tx' w'. m tx w = (Inr (r, tx'), w') \<Longrightarrow> vars tx' = vars tx \<or>
    (\<exists>var l tx1. tx' = set_entry cfg var l tx1 \<and> vars tx1 = vars tx \<and>
      (\<forall>l0. map_of (vars tx) (control_block_of var) = Some l0 \<longrightarrow>
        LogVar_into_read_value l = LogVar_into_read_value l0))"
  shows "wf_body cfg m"
proof
  fix tx tx' :: "'a transaction" and w w' :: "'a world" and r
  assume "m tx w = (Inr (r, tx'), w')" and wf: "reg_wf cfg (vars tx)"
  note cases = assms [OF this(1)]
  from cases wf show "reg_wf cfg (vars tx')" by auto
  show "\<exists>l'. map_of (vars tx') k = Some l' \<and> LogVar_into_read_value l' = Some v"
    if "map_of (vars tx) k = Some l" "LogVar_into_read_value l = Some v" for k l v
    using cases wf that by auto
qed

interpretation read_body: stm_body cfg "Transaction_read cfg var" for cfg var
proof (intro stm_body.intro wf_bodyI isolated_body.intro)
  show "vars tx' = vars tx \<or> (\<exists>var l tx1. tx' = set_entry cfg var l tx1 \<and> vars tx1 = vars tx \<and>
      (\<forall>l0. map_of (vars tx) (control_block_of var) = Some l0 \<longrightarrow>
        LogVar_into_read_value l = LogVar_into_read_value l0))"
    if "Transaction_read cfg var tx w = (Inr (r, tx'), w')" for tx tx' :: "'a transaction" and r w w'
  proof (cases "early_conflict cfg var (entry_of var tx w) w")
    case True
    with that show ?thesis by (auto simp: Transaction_read_eq Let_def)
  next
    case False
    with that have "tx' = set_entry cfg var (snd (LogVar_read (entry_of var tx w)))
        (counted cfg (n_read_update (\<lambda>n. n + 1)) var tx)"
      by (auto simp: Transaction_read_eq Let_def split: sum.splits)
    then show ?thesis by (intro disjI2) (auto simp: entry_of_def intro!: exI)
  qed
qed (auto simp: Transaction_read_eq Let_def split: if_splits sum.splits)

interpretation write_body: stm_body cfg "Transaction_write cfg var v" for cfg var v
proof (intro stm_body.intro wf_bodyI isolated_body.intro)
  show "vars tx' = vars tx \<or> (\<exists>var l tx1. tx' = set_entry cfg var l tx1 \<and> vars tx1 = vars tx \<and>
      (\<forall>l0. map_of (vars tx) (control_block_of var) = Some l0 \<longrightarrow>
        LogVar_into_read_value l = LogVar_into_read_value l0))"
    if "Transaction_write cfg var v tx w = (Inr (r, tx'), w')" for tx tx' :: "'a transaction" and r w w'
    using that by (intro disjI2) (auto simp: Transaction_write_eq Let_def intro!: exI)
qed (auto simp: Transaction_write_eq Let_def)

interpretation modify_body: stm_body cfg "Transaction_modify cfg var f" for cfg var f
proof (intro stm_body.intro wf_bodyI isolated_body.intro)
  show "vars tx' = vars tx \<or> (\<exists>var l tx1. tx' = set_entry cfg var l tx1 \<and> vars tx1 = vars tx \<and>
      (\<forall>l0. map_of (vars tx) (control_block_of var) = Some l0 \<longrightarrow>
        LogVar_into_read_value l = LogVar_into_read_value l0))"
    if "Transaction_modify cfg var f tx w = (Inr (r, tx'), w')" for tx tx' :: "'a transaction" and r w w'
  proof (cases "early_conflict cfg var (entry_of var tx w) w")
    case True
    with that show ?thesis by (auto simp: Transaction_modify_eq Let_def)
  next
    case False
    with that obtain b where "tx' = set_entry cfg var (LogVar_write b (snd (LogVar_read (entry_of var tx w))))
        (counted cfg (n_write_update (\<lambda>n. n + 1)) var tx)"
      by (auto simp: Transaction_modify_eq Let_def split: sum.splits)
    then show ?thesis by (intro disjI2) (auto simp: entry_of_def intro!: exI)
  qed
qed (auto simp: Transaction_modify_eq Let_def split: if_splits sum.splits)

interpretation exchange_body: stm_body cfg "Transaction_exchange cfg var v" for cfg var v
proof (intro stm_body.intro wf_bodyI isolated_body.intro)
  show "vars tx' = vars tx \<or> (\<exists>var l tx1. tx' = set_entry cfg var l tx1 \<and> vars tx1 = vars tx \<and>
      (\<forall>l0. map_of (vars tx) (control_block_of var) = Some l0 \<longrightarrow>
        LogVar_into_read_value l = LogVar_into_read_value l0))"
    if "Transaction_exchange cfg var v tx w = (Inr (r, tx'), w')" for tx tx' :: "'a transaction" and r w w'
  proof (cases "early_conflict cfg var (entry_of var tx w) w")
    case True
    with that show ?thesis by (auto simp: Transaction_exchange_eq Let_def)
  next
    case False
    with that obtain b where "tx' = set_entry cfg var (LogVar_write b (snd (LogVar_read (entry_of var tx w))))
        (counted cfg (n_write_update (\<lambda>n. n + 1)) var tx)"
      by (auto simp: Transaction_exchange_eq Let_def split: sum.splits)
    then show ?thesis by (intro disjI2) (auto simp: entry_of_def intro!: exI)
  qed
qed (auto simp: Transaction_exchange_eq Let_def split: if_splits sum.splits)

interpretation retry_or_read: stm_alternatives cfg "lift_result retry" "Transaction_read cfg var" for cfg var
  by (intro stm_alternatives.intro read_body.stm_body_axioms stm_body_lift_result)

lemma stm_body_optionally [intro]: "stm_body cfg f \<Longrightarrow> stm_body cfg (optionally cfg f)"
  unfolding optionally_def by (intro stm_body_or stm_body_and_then stm_body_lift_result)

lemmas op_bodies = read_body.stm_body_axioms write_body.stm_body_axioms modify_body.stm_body_axioms
  exchange_body.stm_body_axioms

end
