(* ===== verification/Op_Properties.thy ===== *)
theory Op_Properties
  imports Bodies
begin

text \<open>
  The properties of the operations of a transaction body: what a transaction observes of its own
  writes and of its earlier reads, the combined operations \<open>modify\<close> and \<open>exchange\<close> against the
  sequences they replace, the alternatives of \<open>or\<close>, and type safety.
\<close>

section \<open>A concrete world for the examples\<close>

text \<open>Variable \<open>n\<close> holds the number \<open>10 * n\<close>, of type 0, in an \<open>Arc\<close> with pointer \<open>n\<close>.\<close>

definition demo_world :: "int world" where
  "demo_world = \<lparr>blocks = (\<lambda>a. \<lparr>waiting_threads = [], dead_threads = 0,
       vcb_value = Arc (get_address a) (Dyn 0 (10 * int (get_address a)))\<rparr>),
     live = (\<lambda>_. True), ctrls = (\<lambda>_. None), unparked = (\<lambda>_. False),
     transaction_running = (\<lambda>_. False), next_arc = 100, next_ctrl = 0, next_block = 100, clock = 0\<rparr>"

definition demo_var :: "nat \<Rightarrow> tvar" where
  "demo_var n = \<lparr>control_block_of = Block n, marker = 0\<rparr>"

lemma demo_world_sel [simp]:
  "mem demo_world a = Arc (get_address a) (Dyn 0 (10 * int (get_address a)))"
  "waiting_threads (blocks demo_world a) = []" "dead_threads (blocks demo_world a) = 0"
  "live demo_world a" "ctrls demo_world c = None" "\<not> transaction_running demo_world t"
  "\<not> unparked demo_world t" "next_arc demo_world = 100" "next_ctrl demo_world = 0"
  "next_block demo_world = 100" "clock demo_world = 0"
  by (simp_all add: demo_world_def)

lemma demo_var_sel [simp]: "control_block_of (demo_var n) = Block n" "marker (demo_var n) = 0"
  by (simp_all add: demo_var_def)

lemma transaction_default_sel [simp]:
  "vars transaction_default = []" "tallies_of transaction_default = tallies_default"
  by (simp_all add: transaction_default_def)

section \<open>Reads and writes\<close>

lemma entry_after_set [simp]:
  "reg_wf cfg (vars tx) \<Longrightarrow> entry_of var (set_entry cfg var l (count cfg f tx)) w = l"
  by (simp add: entry_of_def)

text \<open>C24: a transaction reads back what it wrote, whatever the other threads did in between, and the
  write itself changes nothing that they can see.\<close>

theorem write_then_read:
  assumes "reg_wf cfg (vars tx)"
    and "Transaction_write cfg var v tx w = (Inr (r, tx1), w1)"
  shows "r = Inr () \<and> blocks w1 = blocks w \<and> ctrls w1 = ctrls w \<and>
    (\<exists>tx2. Transaction_read cfg var tx1 w2 = (Inr (Inr v, tx2), w2))"
proof -
  let ?b = "Arc (next_arc w) (Dyn (marker var) v)"
  from assms(2) have r: "r = Inr ()" by (auto simp: Transaction_write_eq Let_def)
  from assms obtain l where l: "entry_of var tx1 w2 = l" "LogVar_current l = ?b" "\<And>u. l \<noteq> Read u"
  proof (cases "map_of (vars tx) (control_block_of var)")
    case None
    with assms that [of "Write ?b"] show ?thesis by (auto simp: Transaction_write_eq Let_def)
  next
    case (Some l0)
    with assms that [of "LogVar_write ?b l0"] show ?thesis
      by (cases l0) (auto simp: Transaction_write_eq Let_def)
  qed
  then have "\<exists>tx2. Transaction_read cfg var tx1 w2 = (Inr (Inr v, tx2), w2)"
    by (simp add: Transaction_read_eq early_conflict_iff downcast_def Let_def)
  with r show ?thesis using write_body.keeps_world [OF assms(2)] by simp
qed

theorem write_then_read_witness:
  "\<exists>tx1 w1 tx2. Transaction_write default_config (demo_var 1) 7 transaction_default demo_world = (Inr (Inr (), tx1), w1) \<and>
     Transaction_read default_config (demo_var 1) tx1 demo_world = (Inr (Inr 7, tx2), demo_world)"
proof -
  obtain tx1 w1 where w: "Transaction_write default_config (demo_var 1) 7 transaction_default demo_world
      = (Inr (Inr (), tx1), w1)"
    by (simp add: Transaction_write_eq Let_def)
  from write_then_read [OF _ w, of demo_world] w show ?thesis by auto
qed

text \<open>C28: a variable read twice gives the same value although other threads may have changed it in
  between; only with early conflict detection, and only if the variable was not written by the
  transaction and does hold another value by now, the second read fails with \<open>Failure\<close> instead.\<close>

theorem repeatable_read:
  assumes "reg_wf cfg (vars tx)"
    and "Transaction_read cfg var tx w = (Inr (Inr v, tx1), w1)"
  shows "\<exists>tx2. Transaction_read cfg var tx1 w2 =
      (Inr (if early_conflict cfg var (entry_of var tx1 w2) w2 then Inl Failure else Inr v, tx2), w2)
    \<and> vars tx2 = vars tx1"
proof -
  let ?l = "entry_of var tx w"
  from assms have tx1: "tx1 = set_entry cfg var (snd (LogVar_read ?l))
      (counted cfg (n_read_update (\<lambda>n. n + 1)) var tx)"
    and v: "downcast (marker var) (LogVar_current ?l) = Inr v"
    by (auto simp: Transaction_read_eq Let_def split: if_splits sum.splits)
  have "snd (LogVar_read (snd (LogVar_read ?l))) = snd (LogVar_read ?l)"
    by (cases ?l) simp_all
  then show ?thesis
    using v assms(1) by (simp add: tx1 Transaction_read_eq Let_def)
qed

theorem repeatable_read_witness:
  "\<exists>tx1 tx2. Transaction_read default_config (demo_var 1) transaction_default demo_world
      = (Inr (Inr 10, tx1), demo_world) \<and>
     Transaction_read default_config (demo_var 1) tx1 (TVar_write_atomic (demo_var 1) 99 demo_world) =
      (Inr (Inr 10, tx2), TVar_write_atomic (demo_var 1) 99 demo_world)"
proof -
  obtain tx1 where r: "Transaction_read default_config (demo_var 1) transaction_default demo_world
      = (Inr (Inr 10, tx1), demo_world)"
    by (simp add: Transaction_read_eq Let_def entry_of_def downcast_def early_conflict_iff)
  from repeatable_read [OF _ r, of "TVar_write_atomic (demo_var 1) 99 demo_world"] r show ?thesis
    by (auto simp: early_conflict_iff)
qed

section \<open>Combined operations\<close>

text \<open>Results up to the counters of the profiling feature.\<close>

definition erase_tallies :: "'v transaction \<Rightarrow> 'v transaction" where
  "erase_tallies tx = tx\<lparr>tallies_of := tallies_default\<rparr>"

definition erase_result :: "fault + 'r \<times> 'v transaction \<Rightarrow> fault + 'r \<times> 'v transaction" where
  "erase_result = map_sum id (map_prod id erase_tallies)"

lemma erase_result_simps [simp]:
  "erase_result (Inl flt) = Inl flt" "erase_result (Inr (r, tx)) = Inr (r, erase_tallies tx)"
  by (simp_all add: erase_result_def)

lemma erase_tallies_count [simp]: "erase_tallies (count cfg f tx) = erase_tallies tx"
  by (simp add: erase_tallies_def count_def)

lemma erase_tallies_counted [simp]: "erase_tallies (counted cfg f var tx) = erase_tallies tx"
  by (simp add: counted_def count_access_def split: option.split log_var.split)

lemma erase_tallies_set_entry: "erase_tallies (set_entry cfg var l tx) = set_entry cfg var l (erase_tallies tx)"
  by (simp add: erase_tallies_def set_entry_def)

lemma vars_erase_tallies [simp]: "vars (erase_tallies tx) = vars tx"
  by (simp add: erase_tallies_def)

text \<open>\<open>modify\<close> does what a \<open>read\<close> followed by a \<open>write\<close> does: the same result or fault, the same log,
  the same world; only the profiling counters differ.\<close>

theorem modify_read_write:
  assumes "reg_wf cfg (vars tx)"
  shows "map_prod erase_result id (Transaction_modify cfg var f tx w) =
    map_prod erase_result id
      (and_then (Transaction_read cfg var) (\<lambda>v. Transaction_write cfg var (f v)) tx w)"
  using assms
  by (simp add: and_then_def Transaction_modify_eq Transaction_read_eq Transaction_write_eq Let_def
      erase_tallies_set_entry split: sum.split)

theorem modify_read_write_witness:
  "fst (Transaction_modify default_config (demo_var 2) (\<lambda>x. x + 1) transaction_default demo_world) =
     Inr (Inr (), \<lparr>vars = [(Block 2, ReadWrite (Arc 2 (Dyn 0 20)) (Arc 100 (Dyn 0 21)))],
       tallies_of = tallies_default\<rparr>) \<and>
   map_prod erase_result id (Transaction_modify default_config (demo_var 2) (\<lambda>x. x + 1) transaction_default demo_world) =
   map_prod erase_result id (and_then (Transaction_read default_config (demo_var 2))
      (\<lambda>v. Transaction_write default_config (demo_var 2) (v + 1)) transaction_default demo_world)"
proof (rule conjI)
  show "fst (Transaction_modify default_config (demo_var 2) (\<lambda>x. x + 1) transaction_default demo_world) =
     Inr (Inr (), \<lparr>vars = [(Block 2, ReadWrite (Arc 2 (Dyn 0 20)) (Arc 100 (Dyn 0 21)))],
       tallies_of = tallies_default\<rparr>)"
    by (simp add: Transaction_modify_def TVar_read_ref_atomic_def downcast_def Arc_new_def Let_def
        reg_insert_def count_def transaction_default_def)
qed (rule modify_read_write, simp)

text \<open>\<open>exchange\<close> returns what a \<open>read\<close> returns and leaves the log that the \<open>read\<close> and a
  following \<open>write\<close> of the new value leave, with the same failures and faults; the counters aside, and
  the shared state is the same.\<close>

theorem exchange_read_write:
  assumes "reg_wf cfg (vars tx)"
  shows "erase_result (fst (Transaction_exchange cfg var v tx w)) =
      erase_result (fst (and_then (Transaction_read cfg var)
        (\<lambda>old. and_then (Transaction_write cfg var v) (\<lambda>_. lift_result (Inr old))) tx w))
    \<and> blocks (snd (Transaction_exchange cfg var v tx w)) = blocks w"
  using assms
  by (simp add: and_then_def lift_result_def Transaction_exchange_eq Transaction_read_eq
      Transaction_write_eq Let_def erase_tallies_set_entry split: sum.split)

theorem exchange_read_write_witness:
  "fst (Transaction_exchange default_config (demo_var 3) 5 transaction_default demo_world) =
     Inr (Inr 30, \<lparr>vars = [(Block 3, ReadWrite (Arc 3 (Dyn 0 30)) (Arc 100 (Dyn 0 5)))],
       tallies_of = tallies_default\<rparr>) \<and>
   erase_result (fst (Transaction_exchange default_config (demo_var 3) 5 transaction_default demo_world)) =
      erase_result (fst (and_then (Transaction_read default_config (demo_var 3))
        (\<lambda>old. and_then (Transaction_write default_config (demo_var 3) 5) (\<lambda>_. lift_result (Inr old)))
        transaction_default demo_world))"
proof (rule conjI)
  show "fst (Transaction_exchange default_config (demo_var 3) 5 transaction_default demo_world) =
     Inr (Inr 30, \<lparr>vars = [(Block 3, ReadWrite (Arc 3 (Dyn 0 30)) (Arc 100 (Dyn 0 5)))],
       tallies_of = tallies_default\<rparr>)"
    by (simp add: Transaction_exchange_def TVar_read_ref_atomic_def downcast_def Arc_new_def Let_def
        reg_insert_def count_def transaction_default_def)
qed (rule exchange_read_write [THEN conjunct1], simp)

section \<open>Alternatives\<close>

lemma reg_set_Nil [simp]: "reg_set cfg k l [] = [(k, l)]"
  by (simp add: reg_set_def reg_insert_def hash_insert_def)

lemma wait_set_Nil [simp]: "wait_set [] = {}"
  by (simp add: wait_set_def)

lemma wait_set_single [simp]:
  "wait_set [(k, l)] = (if LogVar_into_read_value l = None then {} else {k})"
  by (auto simp: wait_set_def)

text \<open>C23: when the first alternative retries and the second ends in anything but \<open>Failure\<close>, the result
  is that of the second, which ran on the log from before the first: the entries of the second are
  kept as they are, and the first contributes at the other variables only obsolete entries.  So no
  write of the first is stored or checked.\<close>

theorem or_second_log:
  assumes "stm_body cfg first" and "stm_body cfg second" and "reg_wf cfg (vars tx)"
    and "first tx w = (Inr (Inl Retry, tx1), w1)"
    and "second (tx1\<lparr>vars := vars tx\<rparr>) w1 = (Inr (r, tx2), w2)" and "r \<noteq> Inl Failure"
  shows "\<exists>tx'. Transaction_or cfg first second tx w = (Inr (r, tx'), w2) \<and>
    (\<forall>k. map_of (vars tx') k = (case map_of (vars tx2) k of
        Some l \<Rightarrow> Some l | None \<Rightarrow> Option.bind (map_of (vars tx1) k) LogVar_obsolete))"
proof -
  have "reg_wf cfg (vars tx1)" "reg_wf cfg (vars tx2)"
    using assms wf_body.keeps_wf [of cfg first] wf_body.keeps_wf [of cfg second]
    by (auto simp: stm_body_def)
  then show ?thesis
    using assms(6) Transaction_or_Retry [of first tx w tx1 w1 cfg second, OF assms(4)] assms(5)
    by (simp add: map_of_combine_vars reg_wf_distinct)
qed

theorem or_second_log_witness:
  "\<exists>tx'. Transaction_or default_config
      (and_then (Transaction_write default_config (demo_var 1) 23) (\<lambda>_. lift_result retry))
      (Transaction_read default_config (demo_var 1)) transaction_default demo_world
    = (Inr (Inr 10, tx'), demo_world\<lparr>next_arc := 101\<rparr>) \<and>
    map_of (vars tx') (Block 1) = Some (Read (Arc 1 (Dyn 0 10)))"
proof -
  let ?first = "and_then (Transaction_write default_config (demo_var 1) 23) (\<lambda>_. lift_result retry)
      :: (int, stm_error, int) body"
  let ?second = "Transaction_read default_config (demo_var 1) :: (int, stm_error, int) body"
  have bodies: "stm_body default_config ?first" "stm_body default_config ?second"
    by (intro stm_body_and_then stm_body_lift_result op_bodies)+
  obtain tx1 where 1: "?first transaction_default demo_world = (Inr (Inl Retry, tx1), demo_world\<lparr>next_arc := 101\<rparr>)"
    by (simp add: and_then_def lift_result_def retry_def Transaction_write_eq Let_def)
  obtain tx2 where 2: "?second (tx1\<lparr>vars := vars transaction_default\<rparr>) (demo_world\<lparr>next_arc := 101\<rparr>)
      = (Inr (Inr 10, tx2), demo_world\<lparr>next_arc := 101\<rparr>)" and
    v: "vars tx2 = [(Block 1, Read (Arc 1 (Dyn 0 10)))]"
    by (simp add: Transaction_read_eq Let_def entry_of_def downcast_def early_conflict_iff)
  from or_second_log [OF bodies _ 1 2] v show ?thesis by auto
qed

text \<open>The variables that a transaction waits for after both alternatives retried are those read by
  the second, and those read by the first unless the second only wrote them.\<close>

theorem or_wait_set:
  assumes "stm_body cfg first" and "stm_body cfg second" and "reg_wf cfg (vars tx)"
    and "first tx w = (Inr (Inl Retry, tx1), w1)"
    and "second (tx1\<lparr>vars := vars tx\<rparr>) w1 = (Inr (Inl Retry, tx2), w2)"
  shows "\<exists>tx'. Transaction_or cfg first second tx w = (Inr (Inl Retry, tx'), w2) \<and>
    wait_set (vars tx') =
      wait_set (vars tx2) \<union> (wait_set (vars tx1) - {k. \<exists>v. map_of (vars tx2) k = Some (Write v)})"
proof -
  have wf: "reg_wf cfg (vars tx1)" "reg_wf cfg (vars tx2)"
    using assms wf_body.keeps_wf [of cfg first] wf_body.keeps_wf [of cfg second]
    by (auto simp: stm_body_def)
  have orig_None: "LogVar_into_read_value l = None \<longleftrightarrow> (\<exists>v. l = Write v)" for l :: "'a arc log_var"
    by (cases l) simp_all
  have "wait_set (combine_vars cfg (vars tx1) (vars tx2)) =
      wait_set (vars tx2) \<union> (wait_set (vars tx1) - {k. \<exists>v. map_of (vars tx2) k = Some (Write v)})"
  proof (rule set_eqI)
    fix k
    show "k \<in> wait_set (combine_vars cfg (vars tx1) (vars tx2)) \<longleftrightarrow>
      k \<in> wait_set (vars tx2) \<union> (wait_set (vars tx1) - {k. \<exists>v. map_of (vars tx2) k = Some (Write v)})"
      unfolding wait_set_def mem_Collect_eq map_of_combine_vars [OF reg_wf_distinct [OF wf(1)] wf(2)]
      by (cases "map_of (vars tx2) k"; cases "map_of (vars tx1) k")
        (auto simp: orig_None LogVar_obsolete_def map_option_case split: option.splits)
  qed
  then show ?thesis
    using Transaction_or_Retry [of first tx w tx1 w1 cfg second, OF assms(4)] assms(5) by simp
qed

text \<open>The two alternatives of the example: the first reads a variable and retries, the second writes it
  and retries.\<close>

definition read_then_retry :: "config \<Rightarrow> tvar \<Rightarrow> ('v, stm_error, 't) body" where
  "read_then_retry cfg x = and_then (Transaction_read cfg x) (\<lambda>_. lift_result retry)"

definition write_then_retry :: "config \<Rightarrow> tvar \<Rightarrow> 'v \<Rightarrow> ('v, stm_error, 't) body" where
  "write_then_retry cfg x v = and_then (Transaction_write cfg x v) (\<lambda>_. lift_result retry)"

lemma stm_body_retrying [intro!]:
  "stm_body cfg (read_then_retry cfg x)"
  unfolding read_then_retry_def by (intro stm_body_and_then stm_body_lift_result op_bodies)

lemma stm_body_write_retrying [intro!]: "stm_body cfg (write_then_retry cfg x v)"
  unfolding write_then_retry_def by (intro stm_body_and_then stm_body_lift_result op_bodies)

lemma read_then_retry_default:
  "type_id (arc_dyn (mem w (control_block_of x))) = marker x \<Longrightarrow>
   \<exists>tx1. read_then_retry cfg x transaction_default w = (Inr (Inl Retry, tx1), w) \<and>
     vars tx1 = [(control_block_of x, Read (mem w (control_block_of x)))]"
  by (simp add: read_then_retry_def and_then_def lift_result_def retry_def Transaction_read_eq
      Let_def entry_of_def downcast_def)

lemma write_then_retry_fresh:
  "vars tx = [] \<Longrightarrow> \<exists>tx2 w2. write_then_retry cfg x v tx w = (Inr (Inl Retry, tx2), w2) \<and>
     vars tx2 = [(control_block_of x, Write (Arc (next_arc w) (Dyn (marker x) v)))]"
  by (simp add: write_then_retry_def and_then_def lift_result_def retry_def Transaction_write_eq Let_def)

theorem or_wait_set_witness:
  "\<exists>tx' w'. Transaction_or default_config (read_then_retry default_config (demo_var 1))
      (read_then_retry default_config (demo_var 2)) transaction_default demo_world
    = ((Inr (Inl Retry :: stm_error + int, tx')), w') \<and> wait_set (vars tx') = {Block 1, Block 2}"
proof -
  let ?b = "\<lambda>n. read_then_retry default_config (demo_var n) :: (int, stm_error, int) body"
  obtain tx1 where 1: "?b 1 transaction_default demo_world = (Inr (Inl Retry, tx1), demo_world)"
    and v1: "vars tx1 = [(Block 1, Read (Arc 1 (Dyn 0 10)))]"
    using read_then_retry_default [of demo_world "demo_var 1" default_config] by auto
  obtain tx2 where 2: "?b 2 (tx1\<lparr>vars := vars transaction_default\<rparr>) demo_world = (Inr (Inl Retry, tx2), demo_world)"
    and v2: "vars tx2 = [(Block 2, Read (Arc 2 (Dyn 0 20)))]"
    by (simp add: read_then_retry_def and_then_def lift_result_def retry_def Transaction_read_eq
        Let_def entry_of_def downcast_def early_conflict_iff)
  from or_wait_set [OF stm_body_retrying stm_body_retrying _ 1 2] v1 v2 show ?thesis by auto
qed

text \<open>C32: a variable that the first alternative read is lost from the variables to wait for when the
  second alternative writes it before it retries as well: after both have retried the transaction
  waits for no variable at all.\<close>

theorem or_loses_wait:
  assumes "type_id (arc_dyn (mem w (control_block_of x))) = marker x"
  shows "\<exists>tx1 tx' w'.
    read_then_retry cfg x transaction_default w = (Inr (Inl Retry :: stm_error + 't, tx1), w) \<and>
    wait_set (vars tx1) = {control_block_of x} \<and>
    Transaction_or cfg (read_then_retry cfg x) (write_then_retry cfg x v) transaction_default w
      = (Inr (Inl Retry :: stm_error + 't, tx'), w') \<and>
    wait_set (vars tx') = {}"
proof -
  obtain tx1 where 1: "read_then_retry cfg x transaction_default w = (Inr (Inl Retry :: stm_error + 't, tx1), w)"
    and v1: "vars tx1 = [(control_block_of x, Read (mem w (control_block_of x)))]"
    using read_then_retry_default [OF assms] by blast
  obtain tx2 w2 where 2: "write_then_retry cfg x v (tx1\<lparr>vars := vars transaction_default\<rparr>) w
      = (Inr (Inl Retry :: stm_error + 't, tx2), w2)"
    and v2: "vars tx2 = [(control_block_of x, Write (Arc (next_arc w) (Dyn (marker x) v)))]"
    using write_then_retry_fresh [of "tx1\<lparr>vars := vars transaction_default\<rparr>" cfg x v w] by auto
  have "combine_vars cfg (vars tx1) (vars tx2) = vars tx2"
    by (rule combine_vars_idle) (simp add: v1 v2)
  then show ?thesis
    using 1 2 v1 v2
    by (simp add: Transaction_or_Retry [of "read_then_retry cfg x" transaction_default w tx1 w, OF 1])
qed

theorem or_loses_wait_witness:
  "\<exists>tx' w'. Transaction_or default_config (read_then_retry default_config (demo_var 1))
      (write_then_retry default_config (demo_var 1) 5) transaction_default demo_world
    = (Inr (Inl Retry :: stm_error + int, tx'), w') \<and> wait_set (vars tx') = {}"
  using or_loses_wait [of demo_world "demo_var 1" default_config 5] by auto

text \<open>C39: \<open>optionally\<close> undoes \<open>unwrap_or_retry\<close>: it returns the option it was computed from, and leaves
  the transaction and the world as they were.\<close>

theorem optionally_unwrap_or_retry:
  "optionally cfg (lift_result (unwrap_or_retry x)) tx w = (Inr (Inr x, tx), w)"
  by (cases x) (simp_all add: optionally_def Transaction_or_def and_then_def lift_result_def retry_def
      Transaction_combine_def combine_vars_idle)

text \<open>And \<open>unwrap_or_retry\<close> undoes \<open>optionally\<close>: a body run optionally and then unwrapped ends with
  the result, failure or panic of the body itself.\<close>

theorem unwrap_or_retry_optionally:
  "map_sum id fst (fst (and_then (optionally cfg f) (\<lambda>x. lift_result (unwrap_or_retry x)) tx w)) =
   map_sum id fst (fst (f tx w))"
  by (simp add: optionally_def Transaction_or_def and_then_def lift_result_def retry_def
      split: prod.split sum.split stm_error.split)

end
