(* ===== verification/Commit_Wait.thy ===== *)
theory Commit_Wait
  imports Bodies
begin

text \<open>
  The end of an attempt (\<open>transaction/mod.rs\<close>, "Internal routines"): \<open>Transaction::commit\<close>, which locks
  the variables of the log in address order, checks the values read, writes back and wakes the
  waiting transactions, and \<open>Transaction::wait_for_change\<close>, which registers at every variable read and
  parks until one of them changes.  Here one thread runs at a time: between the steps of a commit no
  other thread moves, and while the thread is parked the others run as the parameter \<open>env\<close> says.
\<close>

section \<open>Commit\<close>

text \<open>
  The first phase: the loop over the records with its three vectors.  The result is \<open>None\<close> when the
  loop returns \<open>false\<close>, and a fault when a raw pointer key of \<open>hash-registers\<close> dangles.
\<close>

fun commit_acquire :: "config \<Rightarrow> 'v world \<Rightarrow> 'v arc register \<Rightarrow>
    block list \<Rightarrow> (block \<times> 'v arc) list \<Rightarrow> block list \<Rightarrow>
    fault + (block list \<times> (block \<times> 'v arc) list \<times> block list) option" where
  "commit_acquire cfg w [] read_vec write_vec written = Inr (Some (read_vec, write_vec, written))"
| "commit_acquire cfg w ((var, val) # records) read_vec write_vec written =
     (if hash_registers cfg \<and> \<not> live w var then Inl DanglingBlock
      else case val of
        Write x \<Rightarrow> commit_acquire cfg w records read_vec (write_vec @ [(var, x)]) (written @ [var])
      | ReadObsoleteWrite _ x \<Rightarrow>
          commit_acquire cfg w records read_vec (write_vec @ [(var, x)]) (written @ [var])
      | ReadWrite original x \<Rightarrow>
          if \<not> ptr_eq (mem w var) original then Inr None
          else commit_acquire cfg w records read_vec (write_vec @ [(var, x)]) (written @ [var])
      | ReadObsolete _ \<Rightarrow> commit_acquire cfg w records read_vec write_vec written
      | Read original \<Rightarrow>
          if \<not> ptr_eq (mem w var) original then Inr None
          else commit_acquire cfg w records (read_vec @ [var]) write_vec written)"

text \<open>The second phase: every value is stored under its lock.\<close>

definition commit_write :: "(block \<times> 'v arc) list \<Rightarrow> 'v world \<Rightarrow> 'v world" where
  "commit_write write_vec w = fold (\<lambda>(var, x). update_block var (\<lambda>b. b\<lparr>vcb_value := x\<rparr>)) write_vec w"

definition Transaction_commit :: "config \<Rightarrow> 'v transaction \<Rightarrow> 'v world \<Rightarrow> (fault + bool) \<times> 'v world" where
  "Transaction_commit cfg tx w =
     (case commit_acquire cfg w (reg_records cfg (vars tx)) [] [] [] of
        Inl flt \<Rightarrow> (Inl flt, w)
      | Inr None \<Rightarrow> (Inr False, w)
      | Inr (Some (read_vec, write_vec, written)) \<Rightarrow>
          let w = commit_write write_vec w;
              w = (if wait_on_retry cfg then fold VarControlBlock_wake_all written w else w)
          in (Inr True, w))"

section \<open>Waiting for a change\<close>

text \<open>The closure under \<open>all\<close>: register, compare under the read lock, stop at the first difference.\<close>

fun wait_register :: "config \<Rightarrow> nat \<Rightarrow> (block \<times> 'v arc) list \<Rightarrow> block list \<Rightarrow> 'v world \<Rightarrow>
    (fault + bool \<times> block list) \<times> 'v world" where
  "wait_register cfg ctrl [] reads w = (Inr (True, reads), w)"
| "wait_register cfg ctrl ((var, val) # rest) reads w =
     (if hash_registers cfg \<and> \<not> live w var then (Inl DanglingBlock, w)
      else let w = VarControlBlock_wait var ctrl w;
               x = ptr_eq val (mem w var);
               reads = reads @ [var]
           in if x then wait_register cfg ctrl rest reads w else (Inr (False, reads), w))"

text \<open>The variables read with the values read: the \<open>filter_map\<close> over the log.\<close>

definition read_values :: "'a register \<Rightarrow> (block \<times> 'a) list" where
  "read_values r = List.map_filter (\<lambda>(a, b). map_option (Pair a) (LogVar_into_read_value b)) r"

text \<open>\<open>None\<close> when the wait never returns.\<close>

definition Transaction_wait_for_change ::
  "config \<Rightarrow> ('v world \<Rightarrow> 'v world) \<Rightarrow> nat \<Rightarrow> 'v transaction \<Rightarrow> 'v world \<Rightarrow>
   ((fault + 'v transaction) \<times> 'v world) option" where
  "Transaction_wait_for_change cfg env me tx w =
     (let ctrl = next_ctrl w;
          w = w\<lparr>ctrls := (ctrls w)(ctrl := Some (ControlBlock_new me)), next_ctrl := Suc ctrl\<rparr>;
          vs = vars tx;
          tx = tx\<lparr>vars := []\<rparr>
      in case wait_register cfg ctrl (read_values vs) [] w of
           (Inl flt, w) \<Rightarrow> Some (Inl flt, w)
         | (Inr (blocking, reads), w) \<Rightarrow>
             (case (if blocking then ControlBlock_wait env me ctrl w else Some w) of
                None \<Rightarrow> None
              | Some w \<Rightarrow>
                  let w = fold VarControlBlock_set_dead reads w
                  in Some (Inr tx, w\<lparr>ctrls := (ctrls w)(ctrl := None)\<rparr>)))"

text \<open>The hooks of the feature \<open>bench\<close> (lib.rs).\<close>

definition init_transaction :: "'v transaction" where
  "init_transaction = transaction_default"

definition commit_transaction ::
  "config \<Rightarrow> 'v transaction \<Rightarrow> 'v world \<Rightarrow> (fault + bool) \<times> 'v world" where
  "commit_transaction cfg t w = Transaction_commit cfg t w"

section \<open>What a commit does\<close>

text \<open>The check of a commit, the values it stores, and the absence of dangling keys.\<close>

definition log_valid :: "'v world \<Rightarrow> 'v arc register \<Rightarrow> bool" where
  "log_valid w r \<longleftrightarrow> (\<forall>k l v. map_of r k = Some l \<longrightarrow> LogVar_checked l = Some v \<longrightarrow> ptr_eq (mem w k) v)"

definition log_writes :: "'a register \<Rightarrow> block \<Rightarrow> 'a option" where
  "log_writes r k = Option.bind (map_of r k) LogVar_written"

definition keys_live :: "config \<Rightarrow> 'v world \<Rightarrow> 'a register \<Rightarrow> bool" where
  "keys_live cfg w r \<longleftrightarrow> (hash_registers cfg \<longrightarrow> (\<forall>k \<in> fst ` set r. live w k))"

lemma keys_live_btree [simp]: "\<not> hash_registers cfg \<Longrightarrow> keys_live cfg w r"
  by (simp add: keys_live_def)

definition written_pairs :: "'a register \<Rightarrow> (block \<times> 'a) list" where
  "written_pairs r = List.map_filter (\<lambda>(k, l). map_option (Pair k) (LogVar_written l)) r"

lemma written_pairs_simps [simp]:
  "written_pairs [] = []"
  "written_pairs ((k, l) # r) = (case LogVar_written l of Some x \<Rightarrow> (k, x) # written_pairs r | None \<Rightarrow> written_pairs r)"
  by (simp_all add: written_pairs_def List.map_filter_def split: option.split)

lemma commit_acquire_eq:
  assumes "hash_registers cfg \<longrightarrow> (\<forall>k \<in> fst ` set rs. live w k)"
  shows "commit_acquire cfg w rs rv wv wr = Inr
    (if \<forall>(k, l) \<in> set rs. \<forall>v. LogVar_checked l = Some v \<longrightarrow> ptr_eq (mem w k) v
     then Some (rv @ [k. (k, Read _) \<leftarrow> rs], wv @ written_pairs rs, wr @ map fst (written_pairs rs))
     else None)"
  using assms
proof (induction rs arbitrary: rv wv wr)
  case (Cons e rs)
  then show ?case by (cases e; cases "snd e") auto
qed simp

lemma distinct_written_pairs: "distinct (map fst r) \<Longrightarrow> distinct (map fst (written_pairs r))"
proof (induction r)
  case (Cons e r)
  have "fst ` set (written_pairs r) \<subseteq> fst ` set r"
    by (force simp: written_pairs_def List.map_filter_def)
  with Cons show ?case by (cases e) (auto split: option.split)
qed simp

lemma map_of_written_pairs: "distinct (map fst r) \<Longrightarrow> map_of (written_pairs r) k = log_writes r k"
proof (induction r)
  case (Cons e r)
  then show ?case
    by (cases e) (auto simp: log_writes_def map_of_eq_None_keys [THEN iffD2] split: option.split)
qed (simp add: log_writes_def)

lemma commit_write_frame [simp]:
  "live (commit_write wv w) = live w" "ctrls (commit_write wv w) = ctrls w"
  "unparked (commit_write wv w) = unparked w"
  "transaction_running (commit_write wv w) = transaction_running w"
  "next_arc (commit_write wv w) = next_arc w" "next_ctrl (commit_write wv w) = next_ctrl w"
  "next_block (commit_write wv w) = next_block w" "clock (commit_write wv w) = clock w"
  by (induction wv arbitrary: w) (auto simp: commit_write_def)

lemma commit_write_blocks:
  "distinct (map fst wv) \<Longrightarrow> blocks (commit_write wv w) k =
     (case map_of wv k of Some x \<Rightarrow> (blocks w k)\<lparr>vcb_value := x\<rparr> | None \<Rightarrow> blocks w k)"
proof (induction wv arbitrary: w)
  case (Cons e wv)
  obtain a x where e: "e = (a, x)" by (cases e)
  have "commit_write (e # wv) w = commit_write wv (update_block a (\<lambda>b. b\<lparr>vcb_value := x\<rparr>) w)"
    by (simp add: commit_write_def e)
  with Cons show ?case
    by (auto simp: e map_of_eq_None_keys [THEN iffD2] split: option.split)
qed (simp add: commit_write_def)

text \<open>The normal form of a commit without dangling keys.\<close>

definition commit_world :: "config \<Rightarrow> 'v arc register \<Rightarrow> 'v world \<Rightarrow> 'v world" where
  "commit_world cfg r w =
     (let w' = commit_write (written_pairs r) w
      in if wait_on_retry cfg then fold VarControlBlock_wake_all (map fst (written_pairs r)) w' else w')"

lemma Transaction_commit_eq:
  assumes "reg_wf cfg (vars tx)" and "keys_live cfg w (vars tx)"
  shows "Transaction_commit cfg tx w =
    (if log_valid w (vars tx) then (Inr True, commit_world cfg (reg_records cfg (vars tx)) w) else (Inr False, w))"
proof -
  have live: "hash_registers cfg \<longrightarrow> (\<forall>k \<in> fst ` set (reg_records cfg (vars tx)). live w k)"
    using assms(2) by (auto simp: keys_live_def)
  have "(\<forall>(k, l) \<in> set (vars tx). \<forall>v. LogVar_checked l = Some v \<longrightarrow> ptr_eq (mem w k) v)
      \<longleftrightarrow> log_valid w (vars tx)"
    using reg_wf_distinct [OF assms(1)] by (auto simp: log_valid_def)
  then show ?thesis
    unfolding Transaction_commit_def commit_acquire_eq [OF live]
    by (simp add: commit_world_def Let_def)
qed

lemma written_pairs_records:
  assumes "reg_wf cfg r"
  shows "distinct (map fst (written_pairs (reg_records cfg r)))"
    and "map_of (written_pairs (reg_records cfg r)) k = log_writes r k"
    and "k \<in> fst ` set (written_pairs (reg_records cfg r)) \<longleftrightarrow> log_writes r k \<noteq> None"
proof -
  have d: "distinct (map fst (reg_records cfg r))"
    using reg_records_sorted [OF assms] by (simp add: sorted_wrt_less_iff)
  show "distinct (map fst (written_pairs (reg_records cfg r)))"
    by (rule distinct_written_pairs [OF d])
  show m: "map_of (written_pairs (reg_records cfg r)) k = log_writes r k" for k
    using assms by (simp add: map_of_written_pairs [OF d]) (simp add: log_writes_def)
  show "k \<in> fst ` set (written_pairs (reg_records cfg r)) \<longleftrightarrow> log_writes r k \<noteq> None"
    using m [of k] map_of_eq_None_keys [of "written_pairs (reg_records cfg r)" k] by auto
qed

lemma commit_world_frame [simp]:
  "live (commit_world cfg r w) = live w"
  "transaction_running (commit_world cfg r w) = transaction_running w"
  "next_arc (commit_world cfg r w) = next_arc w" "next_ctrl (commit_world cfg r w) = next_ctrl w"
  "next_block (commit_world cfg r w) = next_block w" "clock (commit_world cfg r w) = clock w"
  by (simp_all add: commit_world_def Let_def)

lemma commit_world_blocks:
  assumes "reg_wf cfg r"
  shows "blocks (commit_world cfg (reg_records cfg r) w) k =
    (case log_writes r k of
       Some x \<Rightarrow> (if wait_on_retry cfg then (blocks w k)\<lparr>vcb_value := x, waiting_threads := []\<rparr>
                  else (blocks w k)\<lparr>vcb_value := x\<rparr>)
     | None \<Rightarrow> blocks w k)"
proof -
  let ?wp = "written_pairs (reg_records cfg r)"
  have "k \<in> set (map fst ?wp) \<longleftrightarrow> log_writes r k \<noteq> None"
    using written_pairs_records(3) [OF assms] by simp
  then show ?thesis
    using commit_write_blocks [OF written_pairs_records(1) [OF assms], of w k]
      written_pairs_records(2) [OF assms, of k]
    by (auto simp: commit_world_def Let_def split: option.split)
qed

lemma commit_world_ctrls:
  assumes "reg_wf cfg r"
  shows "ctrls (commit_world cfg (reg_records cfg r) w) c =
    (if wait_on_retry cfg \<and> (\<exists>k. log_writes r k \<noteq> None \<and> c \<in> set (waiting_threads (blocks w k)))
     then map_option (\<lambda>cb. cb\<lparr>blocked := False\<rparr>) (ctrls w c) else ctrls w c)"
proof -
  let ?wp = "written_pairs (reg_records cfg r)"
  have "waiting_threads (blocks (commit_write ?wp w) k) = waiting_threads (blocks w k)" for k
    using commit_write_blocks [OF written_pairs_records(1) [OF assms], of w k]
    by (simp split: option.split)
  moreover have "k \<in> set (map fst ?wp) \<longleftrightarrow> log_writes r k \<noteq> None" for k
    using written_pairs_records(3) [OF assms] by simp
  ultimately have ex: "(\<exists>a \<in> set (map fst ?wp). c \<in> set (waiting_threads (blocks (commit_write ?wp w) a)))
      \<longleftrightarrow> (\<exists>k. log_writes r k \<noteq> None \<and> c \<in> set (waiting_threads (blocks w k)))"
    by (simp only: Bex_def)
  show ?thesis
    unfolding commit_world_def Let_def ex [symmetric]
    by (cases "wait_on_retry cfg") (simp_all only: fold_wake_all_ctrls commit_write_frame if_True if_False simp_thms)
qed

end
