(* ===== verification/Commit_Properties.thy ===== *)
theory Commit_Properties
  imports Commit_Wait Op_Properties
begin

text \<open>
  The properties of \<open>commit\<close> and \<open>wait_for_change\<close>: a commit stores all writes or none and succeeds
  exactly when the checked values are current; it takes its locks in address order; it does not
  depend on the kind of register; it wakes the transactions that wait for what it wrote.
\<close>

section \<open>Commit\<close>

text \<open>C16: a commit succeeds exactly when every variable read (other than on a blocked path) still holds
  the value read; if so it stores all written values and nothing else, otherwise it changes nothing.\<close>

theorem commit_spec:
  assumes "reg_wf cfg (vars tx)" and "keys_live cfg w (vars tx)"
  shows "\<exists>w'. Transaction_commit cfg tx w = (Inr (log_valid w (vars tx)), w') \<and>
    (if log_valid w (vars tx)
     then \<forall>k. mem w' k = (case log_writes (vars tx) k of Some x \<Rightarrow> x | None \<Rightarrow> mem w k)
     else w' = w)"
  using assms
  by (auto simp: Transaction_commit_eq commit_world_blocks split: option.split)

text \<open>A log with a variable read and another one written, in the world of the examples.\<close>

definition demo_tx :: "int transaction" where
  "demo_tx = \<lparr>vars = [(Block 2, Read (Arc 2 (Dyn 0 20))), (Block 3, Write (Arc 100 (Dyn 0 7)))],
     tallies_of = tallies_default\<rparr>"

lemma demo_tx_vars [simp]:
  "vars demo_tx = [(Block 2, Read (Arc 2 (Dyn 0 20))), (Block 3, Write (Arc 100 (Dyn 0 7)))]"
  by (simp add: demo_tx_def)

lemma demo_tx_wf [simp]: "reg_wf default_config (vars demo_tx)"
  by (simp add: reg_wf_def)

lemma demo_tx_valid [simp]:
  "log_valid demo_world [(Block 2, Read (Arc 2 (Dyn 0 20))), (Block 3, Write (Arc 100 (Dyn 0 7)))]"
  by (simp add: log_valid_def ptr_eq_def)

theorem commit_spec_witness:
  "\<exists>w'. Transaction_commit default_config demo_tx demo_world = (Inr True, w') \<and>
     mem w' (Block 3) = Arc 100 (Dyn 0 7) \<and> mem w' (Block 2) = Arc 2 (Dyn 0 20)"
  using commit_spec [OF demo_tx_wf, of demo_world] by (auto simp: log_writes_def)

lemma commit_acquire_order:
  assumes "commit_acquire cfg w rs rv wv wr = Inr (Some (read_vec, write_vec, written))"
    and "sorted_wrt (<) (rv @ map fst rs)" and "sorted_wrt (<) (map fst wv @ map fst rs)"
    and "wr = map fst wv" and "set rv \<inter> set wr = {}"
  shows "sorted_wrt (<) read_vec \<and> sorted_wrt (<) (map fst write_vec) \<and> written = map fst write_vec \<and>
    set read_vec \<inter> fst ` set write_vec = {}"
  using assms
proof (induction rs arbitrary: rv wv wr)
  case (Cons e rs)
  obtain k l where e: "e = (k, l)" by (cases e)
  have fresh: "k \<notin> fst ` set wv" "k \<notin> set rv"
    using Cons.prems(2,3) by (force simp: e sorted_wrt_append)+
  consider (read) "commit_acquire cfg w rs (rv @ [k]) wv wr = Inr (Some (read_vec, write_vec, written))"
    | (skip) "commit_acquire cfg w rs rv wv wr = Inr (Some (read_vec, write_vec, written))"
    | (store) x where "commit_acquire cfg w rs rv (wv @ [(k, x)]) (wr @ [k]) =
        Inr (Some (read_vec, write_vec, written))"
    using Cons.prems(1) by (cases l) (auto simp: e split: if_splits)
  then show ?case
  proof cases
    case read
    from Cons.IH [OF read] Cons.prems(2-) fresh show ?thesis by (simp add: e sorted_wrt_append)
  next
    case skip
    from Cons.IH [OF skip] Cons.prems(2-) show ?thesis by (simp add: e sorted_wrt_append)
  next
    case store
    from Cons.IH [OF store] Cons.prems(2-) fresh show ?thesis by (simp add: e sorted_wrt_append)
  qed
qed simp

text \<open>The locks of a commit are taken by increasing address, each variable once: the variables locked
  for reading, and those locked for writing, come in strictly increasing order and are disjoint, and
  the variables to wake are those locked for writing.\<close>

theorem commit_lock_order:
  assumes "reg_wf cfg (vars tx)"
    and "commit_acquire cfg w (reg_records cfg (vars tx)) [] [] [] = Inr (Some (read_vec, write_vec, written))"
  shows "sorted_wrt (<) read_vec \<and> sorted_wrt (<) (map fst write_vec) \<and> written = map fst write_vec \<and>
    set read_vec \<inter> fst ` set write_vec = {} \<and> sorted_wrt (<) (map fst (reg_records cfg (vars tx)))"
  using commit_acquire_order [OF assms(2)] reg_records_sorted [OF assms(1)] by simp

theorem commit_lock_order_witness:
  "\<exists>read_vec write_vec written.
     commit_acquire default_config demo_world (reg_records default_config (vars demo_tx)) [] [] [] =
       Inr (Some (read_vec, write_vec, written)) \<and>
     sorted_wrt (<) read_vec \<and> written = [Block 3] \<and> set read_vec \<inter> fst ` set write_vec = {}"
proof -
  have run: "commit_acquire default_config demo_world (reg_records default_config (vars demo_tx)) [] [] [] =
      Inr (Some ([Block 2], [(Block 3, Arc 100 (Dyn 0 7))], [Block 3]))"
    by (simp add: reg_records_def ptr_eq_def)
  from commit_lock_order [OF demo_tx_wf run] run show ?thesis by auto
qed

text \<open>The two kinds of registers commit alike: logs with the same contents, one in a tree and one in
  a hash map, give the same result and the same world.\<close>

theorem commit_register_kinds:
  assumes "reg_wf (cfg\<lparr>hash_registers := False\<rparr>) (vars tx)"
    and "reg_wf (cfg\<lparr>hash_registers := True\<rparr>) (vars tx')"
    and "map_of (vars tx) = map_of (vars tx')" and "\<forall>k \<in> fst ` set (vars tx'). live w k"
  shows "Transaction_commit (cfg\<lparr>hash_registers := False\<rparr>) tx w =
    Transaction_commit (cfg\<lparr>hash_registers := True\<rparr>) tx' w"
proof -
  have "reg_records (cfg\<lparr>hash_registers := False\<rparr>) (vars tx) =
      reg_records (cfg\<lparr>hash_registers := True\<rparr>) (vars tx')"
    by (rule reg_records_eq) fact+
  moreover have "log_valid w (vars tx) = log_valid w (vars tx')"
    using assms(3) by (simp add: log_valid_def)
  ultimately show ?thesis
    using assms by (simp add: Transaction_commit_eq keys_live_def commit_world_def)
qed

theorem commit_register_kinds_witness:
  "Transaction_commit (default_config\<lparr>hash_registers := False\<rparr>) demo_tx demo_world =
   Transaction_commit (default_config\<lparr>hash_registers := True\<rparr>)
     (demo_tx\<lparr>vars := rev (vars demo_tx)\<rparr>) demo_world"
  by (rule commit_register_kinds) (auto simp: reg_wf_def fun_eq_iff)

text \<open>Early conflict detection is sound: when \<open>read\<close> fails with \<open>Failure\<close> then a commit of the same
  log would fail as well.\<close>

theorem early_failure_sound:
  assumes "reg_wf cfg (vars tx)" and "keys_live cfg w (vars tx)"
    and "Transaction_read cfg var tx w = (Inr (Inl e, tx1), w1)"
  shows "e = Failure \<and> early_conflict_detection cfg \<and> vars tx1 = vars tx \<and>
    Transaction_commit cfg tx1 w = (Inr False, w)"
proof -
  from assms(3) have conflict: "early_conflict cfg var (entry_of var tx w) w"
    and tx1: "e = Failure" "vars tx1 = vars tx"
    by (auto simp: Transaction_read_eq Let_def split: if_splits sum.splits)
  then obtain v where "map_of (vars tx) (control_block_of var) = Some (Read v)"
    "\<not> ptr_eq v (mem w (control_block_of var))"
    by (auto simp: early_conflict_iff entry_of_def ptr_eq_def split: option.splits)
  then have "\<not> log_valid w (vars tx1)"
    by (auto simp: log_valid_def tx1 ptr_eq_def intro!: exI)
  with tx1 assms(1,2) conflict show ?thesis
    by (simp add: Transaction_commit_eq early_conflict_iff)
qed

theorem early_failure_sound_witness:
  "\<exists>tx1 w1. Transaction_read (default_config\<lparr>early_conflict_detection := True\<rparr>) (demo_var 2) demo_tx
       (TVar_write_atomic (demo_var 2) 99 demo_world) = (Inr (Inl Failure, tx1), w1) \<and>
     fst (Transaction_commit (default_config\<lparr>early_conflict_detection := True\<rparr>) tx1
       (TVar_write_atomic (demo_var 2) 99 demo_world)) = Inr False"
proof -
  let ?cfg = "default_config\<lparr>early_conflict_detection := True\<rparr>"
  let ?w = "TVar_write_atomic (demo_var 2) 99 demo_world"
  have wf: "reg_wf ?cfg (vars demo_tx)" by (simp add: reg_wf_def)
  obtain tx1 w1 where run: "Transaction_read ?cfg (demo_var 2) demo_tx ?w = (Inr (Inl Failure, tx1), w1)"
    by (simp add: Transaction_read_eq Let_def entry_of_def early_conflict_iff ptr_eq_def
        TVar_write_atomic_def Arc_new_def)
  from early_failure_sound [OF wf _ run] run show ?thesis by (auto simp: keys_live_def)
qed

end
