(* ===== verification/Wait_Properties.thy ===== *)
theory Wait_Properties
  imports Commit_Properties
begin

text \<open>
  The properties of \<open>wait_for_change\<close>: which waits return, who wakes a waiting transaction, and who
  does not.
\<close>

section \<open>Registering\<close>

lemma VarControlBlock_wait_frame [simp]:
  "live (VarControlBlock_wait a c w) = live w" "ctrls (VarControlBlock_wait a c w) = ctrls w"
  "unparked (VarControlBlock_wait a c w) = unparked w"
  "transaction_running (VarControlBlock_wait a c w) = transaction_running w"
  "next_arc (VarControlBlock_wait a c w) = next_arc w" "next_ctrl (VarControlBlock_wait a c w) = next_ctrl w"
  "next_block (VarControlBlock_wait a c w) = next_block w" "clock (VarControlBlock_wait a c w) = clock w"
  "mem (VarControlBlock_wait a c w) b = mem w b"
  "waiting_threads (blocks (VarControlBlock_wait a c w) b) =
     (if b = a then waiting_threads (blocks w b) @ [c] else waiting_threads (blocks w b))"
  by (simp_all add: VarControlBlock_wait_def)

text \<open>What the loop over the variables read leaves: whether it went through, where it registered.\<close>

lemma wait_register_result:
  assumes "wait_register cfg c es reads w = (res, w')"
    and "hash_registers cfg \<longrightarrow> (\<forall>k \<in> fst ` set es. live w k)"
  obtains reads' where "res = Inr (\<forall>(k, v) \<in> set es. ptr_eq v (mem w k), reads')"
    "\<And>k. mem w' k = mem w k" "ctrls w' = ctrls w" "live w' = live w" "next_ctrl w' = next_ctrl w"
    "transaction_running w' = transaction_running w" "next_arc w' = next_arc w"
    "\<And>k d. d \<in> set (waiting_threads (blocks w k)) \<Longrightarrow> d \<in> set (waiting_threads (blocks w' k))"
    "\<And>k d. d \<in> set (waiting_threads (blocks w' k)) \<Longrightarrow>
       d \<in> set (waiting_threads (blocks w k)) \<or> d = c \<and> k \<in> fst ` set es"
    "(\<forall>(k, v) \<in> set es. ptr_eq v (mem w k)) \<Longrightarrow>
       (\<forall>k \<in> fst ` set es. c \<in> set (waiting_threads (blocks w' k)))"
  using assms
proof (induction es arbitrary: reads w thesis)
  case Nil
  then show ?case by auto
next
  case (Cons e es)
  obtain k v where e: "e = (k, v)" by (cases e)
  let ?w = "VarControlBlock_wait k c w"
  show ?case
  proof (cases "ptr_eq v (mem w k)")
    case True
    with Cons.prems(2,3) have run: "wait_register cfg c es (reads @ [k]) ?w = (res, w')"
      and live: "hash_registers cfg \<longrightarrow> (\<forall>k \<in> fst ` set es. live ?w k)"
      by (auto simp: e Let_def)
    obtain reads' where res: "res = Inr (\<forall>(k, v) \<in> set es. ptr_eq v (mem ?w k), reads')"
      and frame: "\<And>k. mem w' k = mem ?w k" "ctrls w' = ctrls ?w" "live w' = live ?w"
        "next_ctrl w' = next_ctrl ?w" "transaction_running w' = transaction_running ?w"
        "next_arc w' = next_arc ?w"
      and keep: "\<And>k d. d \<in> set (waiting_threads (blocks ?w k)) \<Longrightarrow> d \<in> set (waiting_threads (blocks w' k))"
      and new: "\<And>k d. d \<in> set (waiting_threads (blocks w' k)) \<Longrightarrow>
         d \<in> set (waiting_threads (blocks ?w k)) \<or> d = c \<and> k \<in> fst ` set es"
      and all: "(\<forall>(k, v) \<in> set es. ptr_eq v (mem ?w k)) \<Longrightarrow>
         (\<forall>k \<in> fst ` set es. c \<in> set (waiting_threads (blocks w' k)))"
      by (rule Cons.IH [OF _ run live]) blast
    show ?thesis
    proof (rule Cons.prems(1))
      show "res = Inr (\<forall>(k, v) \<in> set (e # es). ptr_eq v (mem w k), reads')"
        using res True by (simp add: e)
      show "d \<in> set (waiting_threads (blocks w' j))" if "d \<in> set (waiting_threads (blocks w j))" for j d
        using that by (intro keep) auto
      show "d \<in> set (waiting_threads (blocks w j)) \<or> d = c \<and> j \<in> fst ` set (e # es)"
        if "d \<in> set (waiting_threads (blocks w' j))" for j d
        using new [OF that] by (auto simp: e split: if_splits)
      show "\<forall>j \<in> fst ` set (e # es). c \<in> set (waiting_threads (blocks w' j))"
        if "\<forall>(k, v) \<in> set (e # es). ptr_eq v (mem w k)"
        using all that keep [of c k] by (auto simp: e)
    qed (simp_all add: frame)
  next
    case False
    with Cons.prems(2,3) have "res = Inr (False, reads @ [k])" "w' = ?w"
      by (auto simp: e Let_def)
    with False show ?thesis
      by (intro Cons.prems(1)) (auto simp: e split: if_splits)
  qed
qed

lemma map_of_read_values:
  "distinct (map fst r) \<Longrightarrow> map_of (read_values r) k = Option.bind (map_of r k) LogVar_into_read_value"
proof (induction r)
  case (Cons e r)
  have "k \<notin> fst ` set r \<Longrightarrow> map_of (read_values r) k = None"
    by (force simp: map_of_eq_None_keys read_values_def List.map_filter_def)
  with Cons show ?case
    by (cases e) (auto simp: read_values_def map_of_eq_None_keys [THEN iffD2] split: option.split)
qed (simp add: read_values_def)

lemma distinct_read_values: "distinct (map fst r) \<Longrightarrow> distinct (map fst (read_values r))"
proof (induction r)
  case (Cons e r)
  have "fst ` set (read_values r) \<subseteq> fst ` set r"
    by (force simp: read_values_def List.map_filter_def)
  with Cons show ?case by (cases e) (auto simp: read_values_def split: option.split)
qed (simp add: read_values_def)

text \<open>Every variable waited for still holds the value read.\<close>

definition reads_current :: "'v world \<Rightarrow> 'v arc register \<Rightarrow> bool" where
  "reads_current w r \<longleftrightarrow>
     (\<forall>k l v. map_of r k = Some l \<longrightarrow> LogVar_into_read_value l = Some v \<longrightarrow> ptr_eq v (mem w k))"

lemma read_values_facts:
  assumes "reg_wf cfg r"
  shows "fst ` set (read_values r) = wait_set r"
    and "(\<forall>(k, v) \<in> set (read_values r). ptr_eq v (mem w k)) \<longleftrightarrow> reads_current w r"
    and "keys_live cfg w r \<Longrightarrow> hash_registers cfg \<longrightarrow> (\<forall>k \<in> fst ` set (read_values r). live w k)"
proof -
  note d = reg_wf_distinct [OF assms]
  note dr = distinct_read_values [OF d]
  have in_iff: "(k, v) \<in> set (read_values r) \<longleftrightarrow> Option.bind (map_of r k) LogVar_into_read_value = Some v" for k v
    using dr map_of_read_values [OF d, of k] by (metis map_of_eq_Some_iff)
  show "fst ` set (read_values r) = wait_set r"
  proof (rule set_eqI)
    show "k \<in> fst ` set (read_values r) \<longleftrightarrow> k \<in> wait_set r" for k
      using map_of_eq_None_keys [of "read_values r" k]
      by (cases "map_of r k") (auto simp: map_of_read_values [OF d] wait_set_def)
  qed
  show "(\<forall>(k, v) \<in> set (read_values r). ptr_eq v (mem w k)) \<longleftrightarrow> reads_current w r"
    by (auto simp: in_iff reads_current_def bind_eq_Some_conv)
  have "fst ` set (read_values r) \<subseteq> fst ` set r"
    by (force simp: read_values_def List.map_filter_def)
  then show "keys_live cfg w r \<Longrightarrow> hash_registers cfg \<longrightarrow> (\<forall>k \<in> fst ` set (read_values r). live w k)"
    unfolding keys_live_def by blast
qed

text \<open>The normal form of \<open>wait_for_change\<close>: the world after registering, and the wait if it blocks.\<close>

definition ctrl_added :: "nat \<Rightarrow> 'v world \<Rightarrow> 'v world" where
  "ctrl_added me w = w\<lparr>ctrls := (ctrls w)(next_ctrl w := Some (ControlBlock_new me)), next_ctrl := Suc (next_ctrl w)\<rparr>"

lemma ctrl_added_sel [simp]:
  "blocks (ctrl_added me w) = blocks w" "live (ctrl_added me w) = live w"
  "next_ctrl (ctrl_added me w) = Suc (next_ctrl w)"
  "ctrls (ctrl_added me w) = (ctrls w)(next_ctrl w := Some (ControlBlock_new me))"
  "transaction_running (ctrl_added me w) = transaction_running w"
  "next_arc (ctrl_added me w) = next_arc w"
  by (simp_all add: ctrl_added_def)

lemma wait_for_change_cases:
  assumes "reg_wf cfg (vars tx)" and "keys_live cfg w (vars tx)"
  obtains reads w1 where
    "\<And>k. mem w1 k = mem w k" "live w1 = live w" "ctrls w1 = (ctrls w)(next_ctrl w := Some (ControlBlock_new me))"
    "transaction_running w1 = transaction_running w" "next_arc w1 = next_arc w" "next_ctrl w1 = Suc (next_ctrl w)"
    "\<And>k d. d \<in> set (waiting_threads (blocks w k)) \<Longrightarrow> d \<in> set (waiting_threads (blocks w1 k))"
    "\<And>k d. d \<in> set (waiting_threads (blocks w1 k)) \<Longrightarrow>
       d \<in> set (waiting_threads (blocks w k)) \<or> d = next_ctrl w \<and> k \<in> wait_set (vars tx)"
    "reads_current w (vars tx) \<Longrightarrow> (\<forall>k \<in> wait_set (vars tx). next_ctrl w \<in> set (waiting_threads (blocks w1 k)))"
    "Transaction_wait_for_change cfg env me tx w =
       map_option (\<lambda>w. let w = fold VarControlBlock_set_dead reads w
           in (Inr (tx\<lparr>vars := []\<rparr>), w\<lparr>ctrls := (ctrls w)(next_ctrl w1 - 1 := None)\<rparr>))
         (if reads_current w (vars tx) then ControlBlock_wait env me (next_ctrl w) w1 else Some w1)"
proof -
  obtain res w1 where run: "wait_register cfg (next_ctrl w) (read_values (vars tx)) [] (ctrl_added me w) = (res, w1)"
    by fastforce
  have live: "hash_registers cfg \<longrightarrow> (\<forall>k \<in> fst ` set (read_values (vars tx)). live (ctrl_added me w) k)"
    using read_values_facts(3) [OF assms] by simp
  note facts = read_values_facts [OF assms(1)]
  have cur: "reads_current (ctrl_added me w) (vars tx) = reads_current w (vars tx)"
    by (simp add: reads_current_def)
  show thesis
  proof (rule wait_register_result [OF run live])
    fix reads
    assume res: "res = Inr (\<forall>(k, v) \<in> set (read_values (vars tx)). ptr_eq v (mem (ctrl_added me w) k), reads)"
      and frame: "\<And>k. mem w1 k = mem (ctrl_added me w) k" "ctrls w1 = ctrls (ctrl_added me w)"
        "live w1 = live (ctrl_added me w)" "next_ctrl w1 = next_ctrl (ctrl_added me w)"
        "transaction_running w1 = transaction_running (ctrl_added me w)" "next_arc w1 = next_arc (ctrl_added me w)"
      and keep: "\<And>k d. d \<in> set (waiting_threads (blocks (ctrl_added me w) k)) \<Longrightarrow>
         d \<in> set (waiting_threads (blocks w1 k))"
      and new: "\<And>k d. d \<in> set (waiting_threads (blocks w1 k)) \<Longrightarrow>
       d \<in> set (waiting_threads (blocks (ctrl_added me w) k)) \<or> d = next_ctrl w \<and> k \<in> fst ` set (read_values (vars tx))"
      and all: "(\<forall>(k, v) \<in> set (read_values (vars tx)). ptr_eq v (mem (ctrl_added me w) k)) \<Longrightarrow>
       (\<forall>k \<in> fst ` set (read_values (vars tx)). next_ctrl w \<in> set (waiting_threads (blocks w1 k)))"
    have res': "res = Inr (reads_current w (vars tx), reads)"
      using res by (simp only: facts(2) cur)
    have "Transaction_wait_for_change cfg env me tx w =
       map_option (\<lambda>w. let w = fold VarControlBlock_set_dead reads w
           in (Inr (tx\<lparr>vars := []\<rparr>), w\<lparr>ctrls := (ctrls w)(next_ctrl w1 - 1 := None)\<rparr>))
         (if reads_current w (vars tx) then ControlBlock_wait env me (next_ctrl w) w1 else Some w1)"
      using run by (simp add: Transaction_wait_for_change_def ctrl_added_def [symmetric] res' frame(4)
          Let_def split: option.split)
    with frame keep new all show thesis
      by (intro that [of w1 reads]) (auto simp: facts(1,2) cur)
  qed
qed

section \<open>Who wakes a waiting transaction\<close>

text \<open>A transaction whose variables have already changed does not park: the wait returns at once,
  whatever the other threads do, with an empty log and the memory as it was.\<close>

theorem wait_returns_if_changed:
  assumes "reg_wf cfg (vars tx)" and "keys_live cfg w (vars tx)" and "\<not> reads_current w (vars tx)"
  shows "\<exists>w'. Transaction_wait_for_change cfg env me tx w = Some (Inr (tx\<lparr>vars := []\<rparr>), w') \<and>
    (\<forall>k. mem w' k = mem w k)"
proof -
  from assms(1,2) show ?thesis
  proof (rule wait_for_change_cases [where env = env and me = me])
    fix reads w1
    assume mem: "\<And>k. mem w1 k = mem w k" and "Transaction_wait_for_change cfg env me tx w =
       map_option (\<lambda>w. let w = fold VarControlBlock_set_dead reads w
           in (Inr (tx\<lparr>vars := []\<rparr>), w\<lparr>ctrls := (ctrls w)(next_ctrl w1 - 1 := None)\<rparr>))
         (if reads_current w (vars tx) then ControlBlock_wait env me (next_ctrl w) w1 else Some w1)"
    with assms(3) show ?thesis by (simp add: Let_def)
  qed
qed

text \<open>A transaction that read variable 2 and called \<open>retry\<close>.\<close>

definition retry_tx :: "int transaction" where
  "retry_tx = \<lparr>vars = [(Block 2, Read (Arc 2 (Dyn 0 20)))], tallies_of = tallies_default\<rparr>"

lemma retry_tx_vars [simp]: "vars retry_tx = [(Block 2, Read (Arc 2 (Dyn 0 20)))]"
  by (simp add: retry_tx_def)

lemma retry_tx_wf [simp]: "reg_wf cfg (vars retry_tx)"
  by (simp add: reg_wf_def)

lemma reads_current_single [simp]:
  "reads_current w [(k, Read v)] \<longleftrightarrow> ptr_eq v (mem w k)"
  by (auto simp: reads_current_def)

theorem wait_returns_if_changed_witness:
  "\<exists>w'. Transaction_wait_for_change default_config id 0 retry_tx (TVar_write_atomic (demo_var 2) 99 demo_world)
      = Some (Inr (retry_tx\<lparr>vars := []\<rparr>), w')"
proof -
  have "\<not> reads_current (TVar_write_atomic (demo_var 2) 99 demo_world) (vars retry_tx)"
    by (simp add: ptr_eq_def TVar_write_atomic_def Arc_new_def)
  from wait_returns_if_changed [OF retry_tx_wf _ this, of default_config id 0] show ?thesis by auto
qed

lemma waits_if_never_woken:
  assumes "reg_wf cfg (vars tx)" and "keys_live cfg w (vars tx)" and "reads_current w (vars tx)"
    and inv: "\<And>w1. (\<And>k d. d \<in> set (waiting_threads (blocks w1 k)) \<Longrightarrow>
         d \<in> set (waiting_threads (blocks w k)) \<or> d = next_ctrl w \<and> k \<in> wait_set (vars tx)) \<Longrightarrow>
       ctrls w1 = (ctrls w)(next_ctrl w := Some (ControlBlock_new me)) \<Longrightarrow> I w1"
    and step: "\<And>w1. I w1 \<Longrightarrow> I (park_timeout env me w1)"
    and blocked: "\<And>w1. I w1 \<Longrightarrow> ctrl_blocked (next_ctrl w) w1"
  shows "Transaction_wait_for_change cfg env me tx w = None"
  using assms(1,2)
proof (rule wait_for_change_cases [where env = env and me = me])
  fix reads w1
  assume new: "\<And>k d. d \<in> set (waiting_threads (blocks w1 k)) \<Longrightarrow>
       d \<in> set (waiting_threads (blocks w k)) \<or> d = next_ctrl w \<and> k \<in> wait_set (vars tx)"
    and ctrls: "ctrls w1 = (ctrls w)(next_ctrl w := Some (ControlBlock_new me))"
    and run: "Transaction_wait_for_change cfg env me tx w =
       map_option (\<lambda>w. let w = fold VarControlBlock_set_dead reads w
           in (Inr (tx\<lparr>vars := []\<rparr>), w\<lparr>ctrls := (ctrls w)(next_ctrl w1 - 1 := None)\<rparr>))
         (if reads_current w (vars tx) then ControlBlock_wait env me (next_ctrl w) w1 else Some w1)"
  have "I ((park_timeout env me ^^ k) w1)" for k
    by (induction k) (simp_all add: step inv new ctrls)
  then have "ControlBlock_wait env me (next_ctrl w) w1 = None"
    by (simp add: ControlBlock_wait_None_iff blocked)
  with run assms(3) show ?thesis by simp
qed

text \<open>C33: \<open>write_atomic\<close> wakes nobody: a transaction that parked because everything it read is
  unchanged stays parked for ever when the other threads change variables with \<open>write_atomic\<close> only,
  whichever they change, its own included, and however often (\<open>var i\<close> and \<open>v i\<close> are the variable and
  the value of the write at time \<open>i\<close>).\<close>

theorem write_atomic_does_not_wake:
  assumes "reg_wf cfg (vars tx)" and "keys_live cfg w (vars tx)" and "reads_current w (vars tx)"
  shows "Transaction_wait_for_change cfg (\<lambda>w. TVar_write_atomic (var (clock w)) (v (clock w)) w) me tx w = None"
proof (rule waits_if_never_woken [OF assms, where I = "\<lambda>w1. ctrl_blocked (next_ctrl w) w1"])
  fix w1 :: "'a world"
  assume "ctrls w1 = (ctrls w)(next_ctrl w := Some (ControlBlock_new me))"
  then show "ctrl_blocked (next_ctrl w) w1"
    by (simp add: ctrl_blocked_def ControlBlock_new_def)
next
  fix w1 :: "'a world"
  assume "ctrl_blocked (next_ctrl w) w1"
  then show "ctrl_blocked (next_ctrl w)
      (park_timeout (\<lambda>w. TVar_write_atomic (var (clock w)) (v (clock w)) w) me w1)"
    by (simp add: ctrl_blocked_def park_timeout_def TVar_write_atomic_def Arc_new_def Let_def)
qed

theorem write_atomic_does_not_wake_witness:
  "wait_set (vars retry_tx) = {control_block_of (demo_var 2)} \<and>
   Transaction_wait_for_change default_config (\<lambda>w. TVar_write_atomic (demo_var 2) (int (clock w)) w) 0
     retry_tx demo_world = None"
  using write_atomic_does_not_wake [of default_config retry_tx demo_world "\<lambda>_. demo_var 2" int 0]
  by (simp add: ptr_eq_def reg_wf_def)

text \<open>C18: a commit does: whether the variables have changed already or not, the wait returns when the
  other threads run a commit that is valid and writes one of the variables waited for.\<close>

theorem commit_wakes:
  assumes "reg_wf cfg (vars tx)" and "keys_live cfg w (vars tx)" and "wait_on_retry cfg"
    and "reg_wf cfg (vars tx')" and "keys_live cfg w (vars tx')" and "log_valid w (vars tx')"
    and "k \<in> wait_set (vars tx)" and "log_writes (vars tx') k \<noteq> None"
  shows "\<exists>w'. Transaction_wait_for_change cfg (\<lambda>w. snd (Transaction_commit cfg tx' w)) me tx w =
    Some (Inr (tx\<lparr>vars := []\<rparr>), w')"
  using assms(1,2)
proof (rule wait_for_change_cases [where env = "\<lambda>w. snd (Transaction_commit cfg tx' w)" and me = me])
  let ?env = "\<lambda>w. snd (Transaction_commit cfg tx' w)"
  fix reads w1
  assume mem: "\<And>k. mem w1 k = mem w k" and live: "live w1 = live w"
    and reg: "reads_current w (vars tx) \<Longrightarrow>
      (\<forall>k \<in> wait_set (vars tx). next_ctrl w \<in> set (waiting_threads (blocks w1 k)))"
    and run: "Transaction_wait_for_change cfg ?env me tx w =
       map_option (\<lambda>w. let w = fold VarControlBlock_set_dead reads w
           in (Inr (tx\<lparr>vars := []\<rparr>), w\<lparr>ctrls := (ctrls w)(next_ctrl w1 - 1 := None)\<rparr>))
         (if reads_current w (vars tx) then ControlBlock_wait ?env me (next_ctrl w) w1 else Some w1)"
  have "\<exists>w2. ControlBlock_wait ?env me (next_ctrl w) w1 = Some w2" if "reads_current w (vars tx)"
  proof -
    have "keys_live cfg w1 (vars tx')" "log_valid w1 (vars tx')"
      using assms(5,6) mem live by (simp_all add: keys_live_def log_valid_def)
    then have "?env w1 = commit_world cfg (reg_records cfg (vars tx')) w1"
      using assms(4) by (simp add: Transaction_commit_eq)
    moreover have "\<exists>k. log_writes (vars tx') k \<noteq> None \<and> next_ctrl w \<in> set (waiting_threads (blocks w1 k))"
      using reg [OF that] assms(7,8) by blast
    ultimately have "\<not> ctrl_blocked (next_ctrl w) (park_timeout ?env me w1)"
      using assms(3)
      by (cases "ctrls w1 (next_ctrl w)")
        (simp_all add: ctrl_blocked_def park_timeout_def Let_def commit_world_ctrls [OF assms(4)]
          ControlBlock_set_changed_def del: not_None_eq)
    then show ?thesis
      by (cases "ctrl_blocked (next_ctrl w) w1") (simp_all add: ControlBlock_wait.simps)
  qed
  then show ?thesis by (auto simp: run Let_def)
qed

theorem commit_wakes_witness:
  "\<exists>w'. Transaction_wait_for_change default_config
     (\<lambda>w. snd (Transaction_commit default_config
        (retry_tx\<lparr>vars := [(Block 2, Write (Arc 200 (Dyn 0 99)))]\<rparr>) w)) 0 retry_tx demo_world =
     Some (Inr (retry_tx\<lparr>vars := []\<rparr>), w')"
proof (rule commit_wakes [where k = "Block 2"])
  show "log_valid demo_world (vars (retry_tx\<lparr>vars := [(Block 2, Write (Arc 200 (Dyn 0 99)))]\<rparr>))"
    by (simp add: log_valid_def)
qed (simp_all add: log_writes_def reg_wf_def)

text \<open>The waiting lists and the control blocks hold only identities that were handed out.\<close>

definition ctrl_wf :: "'v world \<Rightarrow> bool" where
  "ctrl_wf w \<longleftrightarrow> (\<forall>k. \<forall>c \<in> set (waiting_threads (blocks w k)). c < next_ctrl w)"

text \<open>A transaction that waits for no variable is never woken, whatever the other threads commit.\<close>

lemma empty_wait_never_returns:
  assumes "reg_wf cfg (vars tx)" and "keys_live cfg w (vars tx)" and "ctrl_wf w"
    and "wait_set (vars tx) = {}" and "reg_wf cfg (vars tx')" and "\<not> hash_registers cfg"
  shows "Transaction_wait_for_change cfg (\<lambda>w. snd (Transaction_commit cfg tx' w)) me tx w = None"
proof -
  have cur: "reads_current w (vars tx)"
    using assms(4) by (auto simp: reads_current_def wait_set_def)
  have commit: "snd (Transaction_commit cfg tx' w1) =
      (if log_valid w1 (vars tx') then commit_world cfg (reg_records cfg (vars tx')) w1 else w1)" for w1
    using assms(5,6) by (simp add: Transaction_commit_eq)
  let ?I = "\<lambda>w1. (\<forall>k. next_ctrl w \<notin> set (waiting_threads (blocks w1 k))) \<and> ctrl_blocked (next_ctrl w) w1"
  show ?thesis
  proof (rule waits_if_never_woken [OF assms(1,2) cur, where I = ?I])
    fix w1 :: "'a world"
    assume new: "\<And>k d. d \<in> set (waiting_threads (blocks w1 k)) \<Longrightarrow>
         d \<in> set (waiting_threads (blocks w k)) \<or> d = next_ctrl w \<and> k \<in> wait_set (vars tx)"
      and ctrls: "ctrls w1 = (ctrls w)(next_ctrl w := Some (ControlBlock_new me))"
    have "next_ctrl w \<notin> set (waiting_threads (blocks w1 k))" for k
      using new [of "next_ctrl w" k] assms(3,4) by (auto simp: ctrl_wf_def)
    with ctrls show "?I w1" by (simp add: ctrl_blocked_def ControlBlock_new_def)
  next
    fix w1 :: "'a world"
    assume I: "?I w1"
    then have "ctrl_blocked (next_ctrl w) (snd (Transaction_commit cfg tx' w1))"
      by (simp add: commit ctrl_blocked_def commit_world_ctrls [OF assms(5)])
    moreover have "next_ctrl w \<notin> set (waiting_threads (blocks (snd (Transaction_commit cfg tx' w1)) k))" for k
      using I by (simp add: commit commit_world_blocks [OF assms(5)] split: option.split)
    ultimately show "?I (park_timeout (\<lambda>w. snd (Transaction_commit cfg tx' w)) me w1)"
      by (simp add: park_timeout_def ctrl_blocked_def Let_def)
  qed simp
qed

lemma empty_wait_never_returns_example:
  "Transaction_wait_for_change default_config (\<lambda>w. snd (Transaction_commit default_config demo_tx w)) 0
     transaction_default demo_world = None"
  by (rule empty_wait_never_returns) (simp_all add: ctrl_wf_def reg_wf_def)

end
