(* ===== verification/Runner.thy ===== *)
theory Runner
  imports Commit_Wait
begin

text \<open>
  The routines that run a transaction to its end (\<open>transaction/mod.rs\<close>, "Public API" and "Public
  profiling API"; \<open>atomically\<close> and \<open>atomically_with_err\<close> of \<open>lib.rs\<close>): the guard against nested
  transactions, and the loops that run the body, commit, ask the control function, wait and clear
  the log.  A body is any function of the transaction and the world, so what other threads do during
  an attempt is a part of the body; \<open>env\<close> is what they do while the thread is parked.
\<close>

section \<open>Loops\<close>

text \<open>
  The statement \<open>loop\<close>: its body stops with a fault, returns from the function (\<open>Inl r\<close>), or goes on
  with the next values of the mutable variables (\<open>Inr s\<close>).  \<open>None\<close> when it never stops.
\<close>

type_synonym ('s, 'r, 'w) loop_body = "'s \<Rightarrow> 'w \<Rightarrow> ((fault + ('r + 's)) \<times> 'w) option"

partial_function (option) rust_loop ::
  "('s, 'r, 'w) loop_body \<Rightarrow> 's \<Rightarrow> 'w \<Rightarrow> ((fault + 'r) \<times> 'w) option" where
  "rust_loop body s w = (case body s w of
       None \<Rightarrow> None
     | Some (Inl flt, w) \<Rightarrow> Some (Inl flt, w)
     | Some (Inr (Inl r), w) \<Rightarrow> Some (Inr r, w)
     | Some (Inr (Inr s), w) \<Rightarrow> rust_loop body s w)"

section \<open>The guard\<close>

definition TransactionGuard_new :: "nat \<Rightarrow> 'v world \<Rightarrow> (fault + unit) \<times> 'v world" where
  "TransactionGuard_new me w =
     (if transaction_running w me then (Inl NestedTransaction, w)
      else (Inr (), w\<lparr>transaction_running := (transaction_running w)(me := True)\<rparr>))"

definition TransactionGuard_drop :: "nat \<Rightarrow> 'v world \<Rightarrow> 'v world" where
  "TransactionGuard_drop me w = w\<lparr>transaction_running := (transaction_running w)(me := False)\<rparr>"

text \<open>The guard is dropped when its scope ends, by a return or by a panic.\<close>

definition with_guard ::
  "nat \<Rightarrow> ('v world \<Rightarrow> ((fault + 'r) \<times> 'v world) option) \<Rightarrow> 'v world \<Rightarrow> ((fault + 'r) \<times> 'v world) option" where
  "with_guard me scope w = (case TransactionGuard_new me w of
       (Inl flt, w) \<Rightarrow> Some (Inl flt, w)
     | (Inr _, w) \<Rightarrow> map_option (\<lambda>(res, w). (res, TransactionGuard_drop me w)) (scope w))"

section \<open>Running a transaction\<close>

text \<open>
  The control function is an \<open>FnMut\<close>: it has a state of its own and may use the shared state, and it
  may panic.
\<close>

type_synonym ('v, 'c) control_fn =
  "stm_error \<Rightarrow> 'c \<Rightarrow> 'v world \<Rightarrow> (fault + transaction_control) \<times> 'c \<times> 'v world"

text \<open>The end of an iteration: wait if \<open>waits\<close> holds, and clear the log.\<close>

definition wait_and_clear ::
  "config \<Rightarrow> ('v world \<Rightarrow> 'v world) \<Rightarrow> nat \<Rightarrow> bool \<Rightarrow> 'v transaction \<Rightarrow> 'c \<Rightarrow> 'v world \<Rightarrow>
   ((fault + ('r + 'v transaction \<times> 'c)) \<times> 'v world) option" where
  "wait_and_clear cfg env me waits tx c w =
     (case (if waits then Transaction_wait_for_change cfg env me tx w else Some (Inr tx, w)) of
        None \<Rightarrow> None
      | Some (Inl flt, w) \<Rightarrow> Some (Inl flt, w)
      | Some (Inr tx, w) \<Rightarrow> Some (Inr (Inr (Transaction_clear tx, c)), w))"

text \<open>The body ended with \<open>Ok\<close>: commit and return, or clear the log.\<close>

definition commit_or_clear ::
  "config \<Rightarrow> 'r \<Rightarrow> 'v transaction \<Rightarrow> 'c \<Rightarrow> 'v world \<Rightarrow>
   ((fault + ('r + 'v transaction \<times> 'c)) \<times> 'v world) option" where
  "commit_or_clear cfg r tx c w = (case Transaction_commit cfg tx w of
       (Inl flt, w) \<Rightarrow> Some (Inl flt, w)
     | (Inr True, w) \<Rightarrow> Some (Inr (Inl r), w)
     | (Inr False, w) \<Rightarrow> Some (Inr (Inr (Transaction_clear tx, c)), w))"

definition with_control_body ::
  "config \<Rightarrow> ('v world \<Rightarrow> 'v world) \<Rightarrow> nat \<Rightarrow> ('v, 'c) control_fn \<Rightarrow> ('v, stm_error, 't) body \<Rightarrow>
   ('v transaction \<times> 'c, 't option, 'v world) loop_body" where
  "with_control_body cfg env me control f = (\<lambda>(transaction, c) w.
     case f transaction w of
       (Inl flt, w) \<Rightarrow> Some (Inl flt, w)
     | (Inr (Inr t, transaction), w) \<Rightarrow> commit_or_clear cfg (Some t) transaction c w
     | (Inr (Inl e, transaction), w) \<Rightarrow>
         (case control e c w of
            (Inl flt, _, w) \<Rightarrow> Some (Inl flt, w)
          | (Inr ControlAbort, _, w) \<Rightarrow> Some (Inr (Inl None), w)
          | (Inr ControlRetry, c, w) \<Rightarrow>
              wait_and_clear cfg env me (wait_on_retry cfg \<and> e = Retry) transaction c w))"

definition Transaction_with_control ::
  "config \<Rightarrow> ('v world \<Rightarrow> 'v world) \<Rightarrow> nat \<Rightarrow> ('v, 'c) control_fn \<Rightarrow> 'c \<Rightarrow> ('v, stm_error, 't) body \<Rightarrow>
   'v world \<Rightarrow> ((fault + 't option) \<times> 'v world) option" where
  "Transaction_with_control cfg env me control c f =
     with_guard me (rust_loop (with_control_body cfg env me control f) (transaction_default, c))"

text \<open>The closure \<open>|_| TransactionControl::Retry\<close>.\<close>

definition always_retry :: "('v, unit) control_fn" where
  "always_retry e c w = (Inr ControlRetry, c, w)"

definition Transaction_with ::
  "config \<Rightarrow> ('v world \<Rightarrow> 'v world) \<Rightarrow> nat \<Rightarrow> ('v, stm_error, 't) body \<Rightarrow>
   'v world \<Rightarrow> ((fault + 't) \<times> 'v world) option" where
  "Transaction_with cfg env me f w =
     (case Transaction_with_control cfg env me always_retry () f w of
        None \<Rightarrow> None
      | Some (Inl flt, w) \<Rightarrow> Some (Inl flt, w)
      | Some (Inr (Some t), w) \<Rightarrow> Some (Inr t, w)
      | Some (Inr None, w) \<Rightarrow> Some (Inl Unreachable, w))"

definition with_err_body ::
  "config \<Rightarrow> ('v world \<Rightarrow> 'v world) \<Rightarrow> nat \<Rightarrow> ('v, 'e transaction_error, 't) body \<Rightarrow>
   ('v transaction \<times> unit, 'e + 't, 'v world) loop_body" where
  "with_err_body cfg env me f = (\<lambda>(transaction, c) w.
     case f transaction w of
       (Inl flt, w) \<Rightarrow> Some (Inl flt, w)
     | (Inr (Inr t, transaction), w) \<Rightarrow> commit_or_clear cfg (Inr t) transaction c w
     | (Inr (Inl (Abort err), transaction), w) \<Rightarrow> Some (Inr (Inl (Inl err)), w)
     | (Inr (Inl (Stm _), transaction), w) \<Rightarrow>
         wait_and_clear cfg env me (wait_on_retry cfg) transaction c w)"

definition Transaction_with_err ::
  "config \<Rightarrow> ('v world \<Rightarrow> 'v world) \<Rightarrow> nat \<Rightarrow> ('v, 'e transaction_error, 't) body \<Rightarrow>
   'v world \<Rightarrow> ((fault + ('e + 't)) \<times> 'v world) option" where
  "Transaction_with_err cfg env me f =
     with_guard me (rust_loop (with_err_body cfg env me f) (transaction_default, ()))"

definition with_control_and_err_body ::
  "config \<Rightarrow> ('v world \<Rightarrow> 'v world) \<Rightarrow> nat \<Rightarrow> ('v, 'c) control_fn \<Rightarrow> ('v, 'e transaction_error, 't) body \<Rightarrow>
   ('v transaction \<times> 'c, ('t, 'e) transaction_result, 'v world) loop_body" where
  "with_control_and_err_body cfg env me control f = (\<lambda>(transaction, c) w.
     case f transaction w of
       (Inl flt, w) \<Rightarrow> Some (Inl flt, w)
     | (Inr (Inr t, transaction), w) \<Rightarrow> commit_or_clear cfg (Validated t) transaction c w
     | (Inr (Inl (Abort err), transaction), w) \<Rightarrow> Some (Inr (Inl (Cancelled err)), w)
     | (Inr (Inl (Stm err), transaction), w) \<Rightarrow>
         (case control err c w of
            (Inl flt, _, w) \<Rightarrow> Some (Inl flt, w)
          | (Inr ControlAbort, _, w) \<Rightarrow> Some (Inr (Inl Abandoned), w)
          | (Inr ControlRetry, c, w) \<Rightarrow>
              wait_and_clear cfg env me (wait_on_retry cfg \<and> err = Retry) transaction c w))"

definition Transaction_with_control_and_err ::
  "config \<Rightarrow> ('v world \<Rightarrow> 'v world) \<Rightarrow> nat \<Rightarrow> ('v, 'c) control_fn \<Rightarrow> 'c \<Rightarrow>
   ('v, 'e transaction_error, 't) body \<Rightarrow> 'v world \<Rightarrow>
   ((fault + ('t, 'e) transaction_result) \<times> 'v world) option" where
  "Transaction_with_control_and_err cfg env me control c f =
     with_guard me (rust_loop (with_control_and_err_body cfg env me control f) (transaction_default, c))"

text \<open>\<open>atomically\<close> and \<open>atomically_with_err\<close> of \<open>lib.rs\<close>.\<close>

definition atomically ::
  "config \<Rightarrow> ('v world \<Rightarrow> 'v world) \<Rightarrow> nat \<Rightarrow> ('v, stm_error, 't) body \<Rightarrow>
   'v world \<Rightarrow> ((fault + 't) \<times> 'v world) option" where
  "atomically cfg env me f = Transaction_with cfg env me f"

definition atomically_with_err ::
  "config \<Rightarrow> ('v world \<Rightarrow> 'v world) \<Rightarrow> nat \<Rightarrow> ('v, 'e transaction_error, 't) body \<Rightarrow>
   'v world \<Rightarrow> ((fault + ('e + 't)) \<times> 'v world) option" where
  "atomically_with_err cfg env me f = Transaction_with_err cfg env me f"

section \<open>Running a transaction with event counters\<close>

text \<open>The counters that the profiling routines change themselves.\<close>

definition tally :: "(tallies \<Rightarrow> tallies) \<Rightarrow> 'v transaction \<Rightarrow> 'v transaction" where
  "tally f tx = tx\<lparr>tallies_of := f (tallies_of tx)\<rparr>"

definition tally_error :: "stm_error \<Rightarrow> 'v transaction \<Rightarrow> 'v transaction" where
  "tally_error e = (case e of
       Failure \<Rightarrow> tally (n_error_update (\<lambda>n. n + 1))
     | Retry \<Rightarrow> tally (n_retry_update (\<lambda>n. n + 1)))"

definition profile_with_control_body ::
  "config \<Rightarrow> ('v world \<Rightarrow> 'v world) \<Rightarrow> nat \<Rightarrow> ('v, 'c) control_fn \<Rightarrow> ('v, stm_error, 't) body \<Rightarrow>
   ('v transaction \<times> 'c, 't option \<times> tallies, 'v world) loop_body" where
  "profile_with_control_body cfg env me control f = (\<lambda>(transaction, c) w.
     case f (tally (n_attempts_update (\<lambda>n. n + 1)) transaction) w of
       (Inl flt, w) \<Rightarrow> Some (Inl flt, w)
     | (Inr (Inr t, transaction), w) \<Rightarrow>
         commit_or_clear cfg (Some t, tallies_of transaction) transaction c w
     | (Inr (Inl e, transaction), w) \<Rightarrow>
         (let transaction = tally_error e transaction in
          case control e c w of
            (Inl flt, _, w) \<Rightarrow> Some (Inl flt, w)
          | (Inr ControlAbort, _, w) \<Rightarrow> Some (Inr (Inl (None, tallies_of transaction)), w)
          | (Inr ControlRetry, c, w) \<Rightarrow>
              wait_and_clear cfg env me (wait_on_retry cfg \<and> e = Retry) transaction c w))"

definition Transaction_profile_with_control ::
  "config \<Rightarrow> ('v world \<Rightarrow> 'v world) \<Rightarrow> nat \<Rightarrow> ('v, 'c) control_fn \<Rightarrow> 'c \<Rightarrow> ('v, stm_error, 't) body \<Rightarrow>
   'v world \<Rightarrow> ((fault + 't option \<times> tallies) \<times> 'v world) option" where
  "Transaction_profile_with_control cfg env me control c f =
     with_guard me (rust_loop (profile_with_control_body cfg env me control f) (transaction_default, c))"

definition Transaction_profile_with ::
  "config \<Rightarrow> ('v world \<Rightarrow> 'v world) \<Rightarrow> nat \<Rightarrow> ('v, stm_error, 't) body \<Rightarrow>
   'v world \<Rightarrow> ((fault + 't \<times> tallies) \<times> 'v world) option" where
  "Transaction_profile_with cfg env me f w =
     (case Transaction_profile_with_control cfg env me always_retry () f w of
        None \<Rightarrow> None
      | Some (Inl flt, w) \<Rightarrow> Some (Inl flt, w)
      | Some (Inr (Some t, tallies), w) \<Rightarrow> Some (Inr (t, tallies), w)
      | Some (Inr (None, _), w) \<Rightarrow> Some (Inl Unreachable, w))"

definition profile_with_err_body ::
  "config \<Rightarrow> ('v world \<Rightarrow> 'v world) \<Rightarrow> nat \<Rightarrow> ('v, 'e transaction_error, 't) body \<Rightarrow>
   ('v transaction \<times> unit, ('e + 't) \<times> tallies, 'v world) loop_body" where
  "profile_with_err_body cfg env me f = (\<lambda>(transaction, c) w.
     case f (tally (n_attempts_update (\<lambda>n. n + 1)) transaction) w of
       (Inl flt, w) \<Rightarrow> Some (Inl flt, w)
     | (Inr (Inr t, transaction), w) \<Rightarrow>
         commit_or_clear cfg (Inr t, tallies_of transaction) transaction c w
     | (Inr (Inl (Abort err), transaction), w) \<Rightarrow>
         Some (Inr (Inl (Inl err, tallies_of transaction)), w)
     | (Inr (Inl (Stm err), transaction), w) \<Rightarrow>
         wait_and_clear cfg env me (wait_on_retry cfg) (tally_error err transaction) c w)"

definition Transaction_profile_with_err ::
  "config \<Rightarrow> ('v world \<Rightarrow> 'v world) \<Rightarrow> nat \<Rightarrow> ('v, 'e transaction_error, 't) body \<Rightarrow>
   'v world \<Rightarrow> ((fault + ('e + 't) \<times> tallies) \<times> 'v world) option" where
  "Transaction_profile_with_err cfg env me f =
     with_guard me (rust_loop (profile_with_err_body cfg env me f) (transaction_default, ()))"

definition profile_with_control_and_err_body ::
  "config \<Rightarrow> ('v world \<Rightarrow> 'v world) \<Rightarrow> nat \<Rightarrow> ('v, 'c) control_fn \<Rightarrow> ('v, 'e transaction_error, 't) body \<Rightarrow>
   ('v transaction \<times> 'c, ('t, 'e) transaction_result \<times> tallies, 'v world) loop_body" where
  "profile_with_control_and_err_body cfg env me control f = (\<lambda>(transaction, c) w.
     case f (tally (n_attempts_update (\<lambda>n. n + 1)) transaction) w of
       (Inl flt, w) \<Rightarrow> Some (Inl flt, w)
     | (Inr (Inr t, transaction), w) \<Rightarrow>
         commit_or_clear cfg (Validated t, tallies_of transaction) transaction c w
     | (Inr (Inl (Abort err), transaction), w) \<Rightarrow>
         Some (Inr (Inl (Cancelled err, tallies_of transaction)), w)
     | (Inr (Inl (Stm err), transaction), w) \<Rightarrow>
         (let transaction = tally_error err transaction in
          case control err c w of
            (Inl flt, _, w) \<Rightarrow> Some (Inl flt, w)
          | (Inr ControlAbort, _, w) \<Rightarrow> Some (Inr (Inl (Abandoned, tallies_of transaction)), w)
          | (Inr ControlRetry, c, w) \<Rightarrow>
              wait_and_clear cfg env me (wait_on_retry cfg \<and> err = Retry) transaction c w))"

definition Transaction_profile_with_control_and_err ::
  "config \<Rightarrow> ('v world \<Rightarrow> 'v world) \<Rightarrow> nat \<Rightarrow> ('v, 'c) control_fn \<Rightarrow> 'c \<Rightarrow>
   ('v, 'e transaction_error, 't) body \<Rightarrow> 'v world \<Rightarrow>
   ((fault + ('t, 'e) transaction_result \<times> tallies) \<times> 'v world) option" where
  "Transaction_profile_with_control_and_err cfg env me control c f =
     with_guard me
       (rust_loop (profile_with_control_and_err_body cfg env me control f) (transaction_default, c))"

end
