(* ===== verification/Loop_Rules.thy ===== *)
theory Loop_Rules
  imports Runner
begin

text \<open>
  Proof rules for the loops of \<open>Runner\<close>: unfolding, an invariant rule for what a loop returns, a
  rule for loops that never return, and a simulation rule for two loops.
\<close>

lemma rust_loop_stops:
  "body s w = None \<Longrightarrow> rust_loop body s w = None"
  "body s w = Some (Inl flt, w') \<Longrightarrow> rust_loop body s w = Some (Inl flt, w')"
  "body s w = Some (Inr (Inl r), w') \<Longrightarrow> rust_loop body s w = Some (Inr r, w')"
  by (simp_all add: rust_loop.simps [of body s w])

lemma rust_loop_continues:
  "body s w = Some (Inr (Inr s'), w') \<Longrightarrow> rust_loop body s w = rust_loop body s' w'"
  by (simp add: rust_loop.simps [of body s w])

lemma rust_loop_invariant:
  assumes "rust_loop body s w = Some (res, w')" and "I s w"
    and step: "\<And>s w out w1. I s w \<Longrightarrow> body s w = Some (out, w1) \<Longrightarrow>
      (case out of Inl flt \<Rightarrow> Q (Inl flt) w1 | Inr (Inl r) \<Rightarrow> Q (Inr r) w1 | Inr (Inr s') \<Rightarrow> I s' w1)"
  shows "Q res w'"
proof -
  let ?P = "\<lambda>b s w y. b = body \<longrightarrow> I s w \<longrightarrow> Q (fst y) (snd y)"
  have "?P body s w (res, w')"
  proof (rule rust_loop.raw_induct [where P = ?P, OF _ assms(1)])
    fix f b s w y
    assume IH: "\<And>b s w y. f b s w = Some y \<Longrightarrow> ?P b s w y"
      and run: "(case b s w of None \<Rightarrow> None | Some (Inl flt, w) \<Rightarrow> Some (Inl flt, w)
        | Some (Inr (Inl r), w) \<Rightarrow> Some (Inr r, w) | Some (Inr (Inr s), w) \<Rightarrow> f b s w) = Some y"
    show "?P b s w y"
    proof (intro impI)
      assume "b = body" and "I s w"
      note prems = run [unfolded \<open>b = body\<close>]
      show "Q (fst y) (snd y)"
      proof (cases "body s w")
        case None
        with prems show ?thesis by simp
      next
        case (Some x)
        obtain out w1 where x: "x = (out, w1)" by (cases x)
        note st = step [OF \<open>I s w\<close>, of out w1]
        show ?thesis
        proof (cases out)
          case (Inl flt)
          with prems Some x st show ?thesis by auto
        next
          case out: (Inr o')
          show ?thesis
          proof (cases o')
            case (Inl r)
            with prems Some x out st show ?thesis by auto
          next
            case (Inr s')
            with prems Some x out st have "f body s' w1 = Some y" "I s' w1" by auto
            then show ?thesis using IH by blast
          qed
        qed
      qed
    qed
  qed
  with assms(1,2) show ?thesis by fastforce
qed

lemma rust_loop_never:
  assumes "I s w"
    and "\<And>s w. I s w \<Longrightarrow> body s w = None \<or> (\<exists>s' w'. body s w = Some (Inr (Inr s'), w') \<and> I s' w')"
  shows "rust_loop body s w = None"
proof (rule ccontr)
  assume "rust_loop body s w \<noteq> None"
  then obtain res w' where "rust_loop body s w = Some (res, w')" by auto
  then show False
  proof (rule rust_loop_invariant [where I = I and Q = "\<lambda>_ _. False"])
    show "case out of Inl flt \<Rightarrow> False | Inr (Inl r) \<Rightarrow> False | Inr (Inr s') \<Rightarrow> I s' w1"
      if "I s w" "body s w = Some (out, w1)" for s w out w1
      using assms(2) [OF that(1)] that(2) by auto
  qed (rule assms(1))
qed

lemma rust_loop_simulated:
  assumes "rust_loop body s w = Some (res, w')" and "R s w t v"
    and step: "\<And>s w t v. R s w t v \<Longrightarrow>
      rel_option (\<lambda>(x, w) (y, v). rel_sum (\<lambda>a b. a = b \<and> P w v)
          (rel_sum (\<lambda>a b. Q a b \<and> P w v) (\<lambda>s t. R s w t v)) x y) (body s w) (body' t v)"
  shows "\<exists>res' v'. rust_loop body' t v = Some (res', v') \<and> rel_sum (=) Q res res' \<and> P w' v'"
proof -
  let ?P = "\<lambda>b s w y. \<forall>t v. b = body \<longrightarrow> R s w t v \<longrightarrow>
    (\<exists>res' v'. rust_loop body' t v = Some (res', v') \<and> rel_sum (=) Q (fst y) res' \<and> P (snd y) v')"
  have "?P body s w (res, w')"
  proof (rule rust_loop.raw_induct [where P = ?P, OF _ assms(1)])
    fix f b s w y
    assume IH: "\<And>b s w y. f b s w = Some y \<Longrightarrow> ?P b s w y"
      and run: "(case b s w of None \<Rightarrow> None | Some (Inl flt, w) \<Rightarrow> Some (Inl flt, w)
        | Some (Inr (Inl r), w) \<Rightarrow> Some (Inr r, w) | Some (Inr (Inr s), w) \<Rightarrow> f b s w) = Some y"
    show "?P b s w y"
    proof (intro allI impI)
      fix t v
      assume "b = body" and "R s w t v"
      note prems = run [unfolded \<open>b = body\<close>]
      note st = step [OF \<open>R s w t v\<close>]
      show "\<exists>res' v'. rust_loop body' t v = Some (res', v') \<and> rel_sum (=) Q (fst y) res' \<and> P (snd y) v'"
      proof (cases "body s w")
        case None
        with prems show ?thesis by simp
      next
        case (Some x)
        obtain out w1 where x: "x = (out, w1)" by (cases x)
        obtain out' v1 where y: "body' t v = Some (out', v1)" and
          rel: "rel_sum (\<lambda>a b. a = b \<and> P w1 v1) (rel_sum (\<lambda>a b. Q a b \<and> P w1 v1) (\<lambda>s t. R s w1 t v1)) out out'"
          using st Some x by (cases "body' t v") auto
        show ?thesis
        proof (cases out)
          case (Inl flt)
          with prems Some x rel y show ?thesis
            by (cases out') (auto simp: rust_loop_stops)
        next
          case out: (Inr o')
          show ?thesis
          proof (cases o')
            case (Inl r)
            with prems Some x out rel obtain r' where "out' = Inr (Inl r')" "Q r r'" "P w1 v1" "y = (Inr r, w1)"
              by (cases out'; cases "projr out'") auto
            with y show ?thesis by (auto simp: rust_loop_stops)
          next
            case (Inr s')
            with prems Some x out rel obtain t' where
              t': "out' = Inr (Inr t')" "R s' w1 t' v1" and "f body s' w1 = Some y"
              by (cases out'; cases "projr out'") auto
            with IH have "\<exists>res' v'. rust_loop body' t' v1 = Some (res', v') \<and>
                rel_sum (=) Q (fst y) res' \<and> P (snd y) v'" by blast
            with t'(1) y show ?thesis by (simp add: rust_loop_continues)
          qed
        qed
      qed
    qed
  qed
  with assms(1,2) show ?thesis by fastforce
qed

text \<open>Two loops whose bodies correspond step by step return corresponding results, or both never
  return.\<close>

lemma rust_loop_bisimilar:
  assumes "R s w t v"
    and step: "\<And>s w t v. R s w t v \<Longrightarrow>
      rel_option (\<lambda>(x, w) (y, v). rel_sum (\<lambda>a b. a = b \<and> P w v)
          (rel_sum (\<lambda>a b. Q a b \<and> P w v) (\<lambda>s t. R s w t v)) x y) (body s w) (body' t v)"
  shows "rel_option (\<lambda>(x, w) (y, v). rel_sum (=) Q x y \<and> P w v) (rust_loop body s w) (rust_loop body' t v)"
proof (cases "rust_loop body s w")
  case (Some x)
  obtain res w' where x: "x = (res, w')" by (cases x)
  have "\<exists>res' v'. rust_loop body' t v = Some (res', v') \<and> rel_sum (=) Q res res' \<and> P w' v'"
    using Some x assms(1) step by (intro rust_loop_simulated [where R = R and body = body]) auto
  with Some x show ?thesis by auto
next
  case None
  have "rust_loop body' t v = None"
  proof (rule ccontr)
    assume "rust_loop body' t v \<noteq> None"
    then obtain res' v' where "rust_loop body' t v = Some (res', v')" by auto
    then have "\<exists>res w'. rust_loop body s w = Some (res, w') \<and> rel_sum (=) (\<lambda>b a. Q a b) res' res \<and> P w' v'"
    proof (rule rust_loop_simulated [where R = "\<lambda>t v s w. R s w t v"])
      show "R s w t v" by (rule assms(1))
      show "rel_option (\<lambda>(x, w) (y, v). rel_sum (\<lambda>a b. a = b \<and> P v w)
          (rel_sum (\<lambda>b a. Q a b \<and> P v w) (\<lambda>t s. R s v t w)) x y) (body' t v) (body s w)"
        if "R s w t v" for s w t v
        using step [OF that]
        by (cases "body s w"; cases "body' t v") (auto elim!: rel_sum.cases intro: rel_sum.intros)
    qed
    with None show False by simp
  qed
  with None show ?thesis by simp
qed

text \<open>A loop whose body maps what the other returns.\<close>

lemma rust_loop_map:
  assumes "\<And>s w. body' s w = map_option (\<lambda>(x, w). (map_sum id (map_sum g id) x, w)) (body s w)"
  shows "rust_loop body' s w = map_option (\<lambda>(x, w). (map_sum id g x, w)) (rust_loop body s w)"
proof -
  have "rel_option (\<lambda>(x, w) (y, v). rel_sum (=) (\<lambda>r r'. r' = g r) x y \<and> w = v)
    (rust_loop body s w) (rust_loop body' s w)"
  proof (rule rust_loop_bisimilar [where R = "\<lambda>s w t v. s = t \<and> w = v"])
    fix s t :: 'a and w v :: 'b
    assume "s = t \<and> w = v"
    then show "rel_option (\<lambda>(x, w) (y, v). rel_sum (\<lambda>a b. a = b \<and> w = v)
          (rel_sum (\<lambda>r r'. r' = g r \<and> w = v) (\<lambda>s t. s = t \<and> w = v)) x y) (body s w) (body' t v)"
      by (auto simp: assms option.rel_map rel_sum.simps intro!: rel_option_reflI split: prod.split)
        (metis sumE map_sum.simps id_apply)
  qed simp
  then show ?thesis
    by (cases "rust_loop body s w"; cases "rust_loop body' s w") (auto elim!: rel_sum.cases)
qed

section \<open>The guard\<close>

lemma with_guard_map:
  "with_guard me (\<lambda>w. map_option (\<lambda>(x, w). (map_sum id g x, w)) (scope w)) w =
     map_option (\<lambda>(x, w). (map_sum id g x, w)) (with_guard me scope w)"
  by (simp add: with_guard_def TransactionGuard_new_def option.map_comp o_def case_prod_beta)

lemma with_guard_nested: "transaction_running w me \<Longrightarrow> with_guard me scope w = Some (Inl NestedTransaction, w)"
  by (simp add: with_guard_def TransactionGuard_new_def)

lemma with_guard_enters:
  "\<not> transaction_running w me \<Longrightarrow> with_guard me scope w =
     map_option (\<lambda>(res, w). (res, w\<lparr>transaction_running := (transaction_running w)(me := False)\<rparr>))
       (scope (w\<lparr>transaction_running := (transaction_running w)(me := True)\<rparr>))"
  by (simp add: with_guard_def TransactionGuard_new_def TransactionGuard_drop_def)

end
