(* ===== verification/Store_Refinement.thy ===== *)
theory Store_Refinement
  imports Commit_Wait
begin

text \<open>
  The abstract specification of a transaction body: a function on stores that raises an error or
  returns a value and a new store.  A store gives each variable a value; a body that raises an error
  leaves no trace.  The locale \<open>typed_body\<close> says that a body never panics because a variable has
  the wrong type, whatever the other threads do; \<open>refining_body\<close> says that it computes its abstract
  specification on the view that its log gives of the memory, as long as what it read is current.
\<close>

section \<open>Typing\<close>

text \<open>\<open>ty\<close> gives the type of every variable.\<close>

definition world_typed :: "(block \<Rightarrow> nat) \<Rightarrow> 'v world \<Rightarrow> bool" where
  "world_typed ty w \<longleftrightarrow> (\<forall>k. type_id (arc_dyn (mem w k)) = ty k)"

definition log_typed :: "(block \<Rightarrow> nat) \<Rightarrow> 'v arc register \<Rightarrow> bool" where
  "log_typed ty r \<longleftrightarrow>
     (\<forall>k l. map_of r k = Some l \<longrightarrow> (\<forall>v \<in> set_log_var l. type_id (arc_dyn v) = ty k))"

lemma log_typed_empty [simp]: "log_typed ty []"
  by (simp add: log_typed_def)

lemma LogVar_current_in [simp]: "LogVar_current l \<in> set_log_var l"
  by (cases l) simp_all

lemma set_LogVar_read [simp]: "set_log_var (snd (LogVar_read l)) = set_log_var l"
  by (cases l) simp_all

lemma set_LogVar_write: "set_log_var (LogVar_write x l) \<subseteq> insert x (set_log_var l)"
  by (cases l) auto

lemma LogVar_into_read_value_in: "LogVar_into_read_value l = Some v \<Longrightarrow> v \<in> set_log_var l"
  by (cases l) simp_all

lemma LogVar_written_in: "LogVar_written l = Some v \<Longrightarrow> v \<in> set_log_var l"
  by (cases l) simp_all

lemma log_typed_set:
  "reg_wf cfg r \<Longrightarrow> log_typed ty r \<Longrightarrow> (\<And>v. v \<in> set_log_var l \<Longrightarrow> type_id (arc_dyn v) = ty k) \<Longrightarrow>
   log_typed ty (reg_set cfg k l r)"
  by (simp add: log_typed_def)

lemma entry_typed:
  "world_typed ty w \<Longrightarrow> log_typed ty (vars tx) \<Longrightarrow> v \<in> set_log_var (entry_of var tx w) \<Longrightarrow>
   type_id (arc_dyn v) = ty (control_block_of var)"
  by (auto simp: world_typed_def log_typed_def entry_of_def split: option.splits)

lemma downcast_entry:
  "world_typed ty w \<Longrightarrow> log_typed ty (vars tx) \<Longrightarrow> ty (control_block_of var) = marker var \<Longrightarrow>
   downcast (marker var) (LogVar_current (entry_of var tx w)) =
     Inr (payload (arc_dyn (LogVar_current (entry_of var tx w))))"
  using entry_typed [OF _ _ LogVar_current_in] by (fastforce simp: downcast_def)

lemma log_typed_combine:
  assumes "reg_wf cfg r" and "distinct (map fst vs)" and "log_typed ty r" and "log_typed ty vs"
  shows "log_typed ty (combine_vars cfg vs r)"
  using assms LogVar_into_read_value_in
  by (fastforce simp: log_typed_def map_of_combine_vars LogVar_obsolete_def bind_eq_Some_conv split: option.splits)

locale typed_body = stm_body cfg m for ty :: "block \<Rightarrow> nat" and cfg and m :: "('v, 'e, 't) body" +
  assumes typed: "reg_wf cfg (vars tx) \<Longrightarrow> world_typed ty w \<Longrightarrow> log_typed ty (vars tx) \<Longrightarrow>
    \<exists>r tx' w'. m tx w = (Inr (r, tx'), w') \<and> log_typed ty (vars tx')"
begin

lemma no_fault:
  "reg_wf cfg (vars tx) \<Longrightarrow> world_typed ty w \<Longrightarrow> log_typed ty (vars tx) \<Longrightarrow> fst (m tx w) \<noteq> Inl flt"
  using typed by fastforce

lemma keeps_typing:
  assumes "m tx w = (Inr (r, tx'), w')"
    and "reg_wf cfg (vars tx)" "world_typed ty w" "log_typed ty (vars tx)"
  shows "log_typed ty (vars tx')" "world_typed ty w'" "reg_wf cfg (vars tx')"
  using typed [OF assms(2-4)] assms keeps_world(1) [OF assms(1)] keeps_wf [OF assms(1,2)]
  by (auto simp: world_typed_def)

end

section \<open>Stores\<close>

type_synonym 'v store = "block \<Rightarrow> 'v"

text \<open>The values of the variables, and what a transaction sees of them.\<close>

definition store :: "'v world \<Rightarrow> 'v store" where
  "store w k = payload (arc_dyn (mem w k))"

definition view :: "'v transaction \<Rightarrow> 'v world \<Rightarrow> 'v store" where
  "view tx w k = payload (arc_dyn (case map_of (vars tx) k of Some l \<Rightarrow> LogVar_current l | None \<Rightarrow> mem w k))"

text \<open>Everything the transaction read is what the variables hold.\<close>

definition log_current :: "'v world \<Rightarrow> 'v arc register \<Rightarrow> bool" where
  "log_current w r \<longleftrightarrow>
     (\<forall>k l v. map_of r k = Some l \<longrightarrow> LogVar_into_read_value l = Some v \<longrightarrow> mem w k = v)"

lemma log_current_empty [simp]: "log_current w []"
  by (simp add: log_current_def)

lemma view_empty [simp]: "vars tx = [] \<Longrightarrow> view tx w = store w"
  by (simp add: view_def store_def fun_eq_iff)

lemma view_entry: "view tx w (control_block_of var) = payload (arc_dyn (LogVar_current (entry_of var tx w)))"
  by (simp add: view_def entry_of_def split: option.split)

lemma view_set_entry:
  "reg_wf cfg (vars tx) \<Longrightarrow> view (set_entry cfg var l tx) w =
     (view tx w)(control_block_of var := payload (arc_dyn (LogVar_current l)))"
  by (auto simp: view_def)

lemma log_current_set:
  "reg_wf cfg r \<Longrightarrow> log_current w r \<Longrightarrow> (\<And>v. LogVar_into_read_value l = Some v \<Longrightarrow> mem w k = v) \<Longrightarrow>
   log_current w (reg_set cfg k l r)"
  by (simp add: log_current_def)

lemma log_current_entry:
  "log_current w (vars tx) \<Longrightarrow> LogVar_into_read_value (entry_of var tx w) = Some v \<Longrightarrow>
   mem w (control_block_of var) = v"
  by (auto simp: log_current_def entry_of_def split: option.splits)

lemma log_current_no_conflict:
  "log_current w (vars tx) \<Longrightarrow> \<not> early_conflict cfg var (entry_of var tx w) w"
  using log_current_entry [of w tx var] by (auto simp: early_conflict_iff ptr_eq_def)

lemma log_current_allocates: "allocates w w' \<Longrightarrow> log_current w' r = log_current w r"
  by (simp add: log_current_def allocatesD)

lemma view_allocates: "allocates w w' \<Longrightarrow> view tx w' = view tx w"
  using allocatesD(1) [of w w'] by (simp add: view_def fun_eq_iff split: option.split)

lemma view_vars: "vars tx = vars tx' \<Longrightarrow> view tx w = view tx' w"
  by (simp add: view_def fun_eq_iff)

text \<open>Obsolete entries change neither what a transaction sees nor that its reads are current.\<close>

lemma combine_current:
  assumes "reg_wf cfg (vars tx)" and "distinct (map fst vs)" and "log_current w vs"
  shows "view (Transaction_combine cfg vs tx) w = view tx w"
    and "log_current w (vars tx) \<Longrightarrow> log_current w (combine_vars cfg vs (vars tx))"
proof -
  have new: "LogVar_current l' = mem w k \<and> LogVar_into_read_value l' = Some (mem w k)"
    if "map_of vs k = Some l" "LogVar_obsolete l = Some l'" for k l l'
    using that assms(3) by (auto simp: LogVar_obsolete_def log_current_def)
  show "view (Transaction_combine cfg vs tx) w = view tx w"
    using assms(1,2) new
    by (auto simp: view_def fun_eq_iff map_of_combine_vars bind_eq_Some_conv split: option.split)
  show "log_current w (combine_vars cfg vs (vars tx))" if "log_current w (vars tx)"
    unfolding log_current_def
  proof (intro allI impI)
    fix k l v
    assume l: "map_of (combine_vars cfg vs (vars tx)) k = Some l" "LogVar_into_read_value l = Some v"
    show "mem w k = v"
    proof (cases "map_of (vars tx) k")
      case None
      with l(1) assms(1,2) obtain l0 where "map_of vs k = Some l0" "LogVar_obsolete l0 = Some l"
        by (auto simp: map_of_combine_vars bind_eq_Some_conv)
      from new [OF this] l(2) show ?thesis by simp
    next
      case (Some l0)
      with l that assms(1,2) show ?thesis by (auto simp: map_of_combine_vars log_current_def)
    qed
  qed
qed

text \<open>A commit of a log with current reads succeeds and installs the view.\<close>

lemma log_current_valid: "log_current w r \<Longrightarrow> log_valid w r"
  using LogVar_checked_orig by (fastforce simp: log_current_def log_valid_def ptr_eq_def)

lemma commit_installs_view:
  assumes "reg_wf cfg (vars tx)" and "log_current w (vars tx)"
  shows "store (commit_world cfg (reg_records cfg (vars tx)) w) = view tx w"
proof
  fix k
  show "store (commit_world cfg (reg_records cfg (vars tx)) w) k = view tx w k"
  proof (cases "map_of (vars tx) k")
    case None
    then show ?thesis by (simp add: store_def view_def commit_world_blocks [OF assms(1)] log_writes_def)
  next
    case (Some l)
    with assms(2) have "LogVar_into_read_value l = Some v \<Longrightarrow> mem w k = v" for v
      by (simp add: log_current_def)
    with Some show ?thesis
      using LogVar_current_unwritten [of l] LogVar_current_written [of l]
      by (cases "LogVar_written l") (simp_all add: store_def view_def commit_world_blocks [OF assms(1)] log_writes_def)
  qed
qed

section \<open>Abstract operations\<close>

type_synonym ('v, 'e, 't) abstract_body = "'v store \<Rightarrow> 'e + 't \<times> 'v store"

definition s_read :: "block \<Rightarrow> ('v, stm_error, 'v) abstract_body" where
  "s_read k s = Inr (s k, s)"

definition s_write :: "block \<Rightarrow> 'v \<Rightarrow> ('v, stm_error, unit) abstract_body" where
  "s_write k v s = Inr ((), s(k := v))"

definition s_modify :: "block \<Rightarrow> ('v \<Rightarrow> 'v) \<Rightarrow> ('v, stm_error, unit) abstract_body" where
  "s_modify k f s = Inr ((), s(k := f (s k)))"

definition s_exchange :: "block \<Rightarrow> 'v \<Rightarrow> ('v, stm_error, 'v) abstract_body" where
  "s_exchange k v s = Inr (s k, s(k := v))"

definition s_result :: "'e + 't \<Rightarrow> ('v, 'e, 't) abstract_body" where
  "s_result r s = map_sum id (\<lambda>t. (t, s)) r"

definition s_then :: "('v, 'e, 's) abstract_body \<Rightarrow> ('s \<Rightarrow> ('v, 'e, 't) abstract_body) \<Rightarrow> ('v, 'e, 't) abstract_body" where
  "s_then a b s = (case a s of Inl e \<Rightarrow> Inl e | Inr (t, s') \<Rightarrow> b t s')"

text \<open>The second alternative runs from the store the first one started from.\<close>

definition s_or :: "('v, stm_error, 't) abstract_body \<Rightarrow> ('v, stm_error, 't) abstract_body \<Rightarrow> ('v, stm_error, 't) abstract_body" where
  "s_or a b s = (if a s = Inl Retry then b s else a s)"

locale refining_body = typed_body ty cfg m for ty cfg and m :: "('v, 'e, 't) body" +
  fixes a :: "('v, 'e, 't) abstract_body"
  assumes refines: "reg_wf cfg (vars tx) \<Longrightarrow> world_typed ty w \<Longrightarrow> log_typed ty (vars tx) \<Longrightarrow>
    log_current w (vars tx) \<Longrightarrow> m tx w = (Inr (r, tx'), w') \<Longrightarrow>
    log_current w' (vars tx') \<and>
    (case a (view tx w) of Inl e \<Rightarrow> r = Inl e | Inr (t, s) \<Rightarrow> r = Inr t \<and> view tx' w' = s)"
begin

text \<open>An attempt with an empty log: the result of the abstract specification on the store, and a log
  that commits to its store.\<close>

lemma attempt:
  assumes "vars tx = []" and "world_typed ty w"
  shows "\<exists>r tx' w'. m tx w = (Inr (r, tx'), w') \<and> allocates w w' \<and> reg_wf cfg (vars tx') \<and>
    log_current w' (vars tx') \<and>
    (case a (store w) of Inl e \<Rightarrow> r = Inl e | Inr (t, s) \<Rightarrow> r = Inr t \<and> view tx' w' = s)"
proof -
  have wf: "reg_wf cfg (vars tx)" by (simp add: assms(1) reg_wf_def)
  obtain r tx' w' where run: "m tx w = (Inr (r, tx'), w')"
    using typed [OF wf assms(2)] assms(1) by auto
  moreover have "log_current w' (vars tx') \<and>
    (case a (view tx w) of Inl e \<Rightarrow> r = Inl e | Inr (t, s) \<Rightarrow> r = Inr t \<and> view tx' w' = s)"
    by (rule refines [OF wf assms(2) _ _ run]) (simp_all add: assms(1))
  ultimately show ?thesis
    using keeps_wf [OF run wf] isolated [OF run] assms(1) by auto
qed

end

section \<open>The operations and combinators of the code\<close>

lemmas op_run_simps = Let_def view_set_entry view_entry store_def

lemma refining_op:
  assumes wf: "reg_wf cfg (vars tx)" and cur: "log_current w (vars tx)"
    and w': "allocates w w'" and tx1: "vars tx1 = vars tx"
    and orig: "LogVar_into_read_value l = LogVar_into_read_value (entry_of var tx w) \<or>
      LogVar_into_read_value l = None"
  shows "log_current w' (vars (set_entry cfg var l tx1))"
    and "view (set_entry cfg var l tx1) w' =
      (view tx w)(control_block_of var := payload (arc_dyn (LogVar_current l)))"
proof -
  have "log_current w (reg_set cfg (control_block_of var) l (vars tx))"
    using wf cur log_current_entry [OF cur, of var] orig by (intro log_current_set) auto
  then show "log_current w' (vars (set_entry cfg var l tx1))"
    by (simp add: tx1 log_current_allocates [OF w'])
  show "view (set_entry cfg var l tx1) w' =
      (view tx w)(control_block_of var := payload (arc_dyn (LogVar_current l)))"
    using wf by (simp add: view_allocates [OF w'] view_set_entry tx1 view_vars [OF tx1])
qed

lemma refining_read:
  assumes ty: "ty (control_block_of var) = marker var"
  shows "refining_body ty cfg (Transaction_read cfg var) (s_read (control_block_of var))"
proof (intro refining_body.intro typed_body.intro read_body.stm_body_axioms
    typed_body_axioms.intro refining_body_axioms.intro)
  fix tx tx' :: "'a transaction" and w w' :: "'a world" and r
  assume wf: "reg_wf cfg (vars tx)" and wt: "world_typed ty w" and lt: "log_typed ty (vars tx)"
  note dc = downcast_entry [OF wt lt ty]
  show "\<exists>r tx' w'. Transaction_read cfg var tx w = (Inr (r, tx'), w') \<and> log_typed ty (vars tx')"
    using wf lt entry_typed [OF wt lt, of _ var]
    by (auto simp: Transaction_read_eq Let_def dc intro!: log_typed_set)
  assume cur: "log_current w (vars tx)" and run: "Transaction_read cfg var tx w = (Inr (r, tx'), w')"
  note entry = refining_op [OF wf cur allocates_refl vars_counted,
      of "snd (LogVar_read (entry_of var tx w))" var]
  from run show "log_current w' (vars tx') \<and> (case s_read (control_block_of var) (view tx w) of
      Inl e \<Rightarrow> r = Inl e | Inr (t, s) \<Rightarrow> r = Inr t \<and> view tx' w' = s)"
    using entry
    by (auto simp: Transaction_read_eq Let_def dc log_current_no_conflict [OF cur] s_read_def
        view_entry [symmetric])
qed

lemma refining_write:
  assumes ty: "ty (control_block_of var) = marker var"
  shows "refining_body ty cfg (Transaction_write cfg var v) (s_write (control_block_of var) v)"
proof (intro refining_body.intro typed_body.intro write_body.stm_body_axioms
    typed_body_axioms.intro refining_body_axioms.intro)
  fix tx tx' :: "'a transaction" and w w' :: "'a world" and r
  assume wf: "reg_wf cfg (vars tx)" and wt: "world_typed ty w" and lt: "log_typed ty (vars tx)"
  let ?b = "Arc (next_arc w) (Dyn (marker var) v)"
  let ?l = "case map_of (vars tx) (control_block_of var) of
    Some l \<Rightarrow> LogVar_write ?b l | None \<Rightarrow> Write ?b"
  have "type_id (arc_dyn x) = ty (control_block_of var)" if "x \<in> set_log_var ?l" for x
    using that lt ty set_LogVar_write [of ?b]
    by (fastforce simp: log_typed_def split: option.splits)
  then show "\<exists>r tx' w'. Transaction_write cfg var v tx w = (Inr (r, tx'), w') \<and> log_typed ty (vars tx')"
    using wf lt by (simp add: Transaction_write_eq Let_def log_typed_set)
  assume cur: "log_current w (vars tx)" and run: "Transaction_write cfg var v tx w = (Inr (r, tx'), w')"
  have "LogVar_into_read_value ?l = LogVar_into_read_value (entry_of var tx w) \<or>
      LogVar_into_read_value ?l = None" "LogVar_current ?l = ?b"
    by (auto simp: entry_of_def split: option.split)
  note entry = refining_op [OF wf cur allocates_Suc vars_count this(1)] this(2)
  from run show "log_current w' (vars tx') \<and> (case s_write (control_block_of var) v (view tx w) of
      Inl e \<Rightarrow> r = Inl e | Inr (t, s) \<Rightarrow> r = Inr t \<and> view tx' w' = s)"
    using entry by (auto simp: Transaction_write_eq Let_def s_write_def)
qed

lemma refining_modify:
  assumes ty: "ty (control_block_of var) = marker var"
  shows "refining_body ty cfg (Transaction_modify cfg var f) (s_modify (control_block_of var) f)"
proof (intro refining_body.intro typed_body.intro modify_body.stm_body_axioms
    typed_body_axioms.intro refining_body_axioms.intro)
  fix tx tx' :: "'a transaction" and w w' :: "'a world" and r
  assume wf: "reg_wf cfg (vars tx)" and wt: "world_typed ty w" and lt: "log_typed ty (vars tx)"
  note dc = downcast_entry [OF wt lt ty]
  let ?l = "\<lambda>b. LogVar_write b (snd (LogVar_read (entry_of var tx w)))"
  have "type_id (arc_dyn x) = ty (control_block_of var)"
    if "x \<in> set_log_var (?l (Arc n (Dyn (marker var) y)))" for x n y
    using that ty entry_typed [OF wt lt, of _ var]
      set_LogVar_write [of "Arc n (Dyn (marker var) y)" "snd (LogVar_read (entry_of var tx w))"] by auto
  then show "\<exists>r tx' w'. Transaction_modify cfg var f tx w = (Inr (r, tx'), w') \<and> log_typed ty (vars tx')"
    using wf lt by (auto simp: Transaction_modify_eq Let_def dc intro!: log_typed_set)
  assume cur: "log_current w (vars tx)" and run: "Transaction_modify cfg var f tx w = (Inr (r, tx'), w')"
  note entry = refining_op [OF wf cur allocates_Suc vars_counted, of "?l b" var for b]
  from run show "log_current w' (vars tx') \<and> (case s_modify (control_block_of var) f (view tx w) of
      Inl e \<Rightarrow> r = Inl e | Inr (t, s) \<Rightarrow> r = Inr t \<and> view tx' w' = s)"
    using entry
    by (auto simp: Transaction_modify_eq Let_def dc log_current_no_conflict [OF cur] s_modify_def
        view_entry [symmetric])
qed

lemma refining_exchange:
  assumes ty: "ty (control_block_of var) = marker var"
  shows "refining_body ty cfg (Transaction_exchange cfg var v) (s_exchange (control_block_of var) v)"
proof (intro refining_body.intro typed_body.intro exchange_body.stm_body_axioms
    typed_body_axioms.intro refining_body_axioms.intro)
  fix tx tx' :: "'a transaction" and w w' :: "'a world" and r
  assume wf: "reg_wf cfg (vars tx)" and wt: "world_typed ty w" and lt: "log_typed ty (vars tx)"
  note dc = downcast_entry [OF wt lt ty]
  let ?l = "\<lambda>b. LogVar_write b (snd (LogVar_read (entry_of var tx w)))"
  have "type_id (arc_dyn x) = ty (control_block_of var)"
    if "x \<in> set_log_var (?l (Arc n (Dyn (marker var) y)))" for x n y
    using that ty entry_typed [OF wt lt, of _ var]
      set_LogVar_write [of "Arc n (Dyn (marker var) y)" "snd (LogVar_read (entry_of var tx w))"] by auto
  then show "\<exists>r tx' w'. Transaction_exchange cfg var v tx w = (Inr (r, tx'), w') \<and> log_typed ty (vars tx')"
    using wf lt by (auto simp: Transaction_exchange_eq Let_def dc intro!: log_typed_set)
  assume cur: "log_current w (vars tx)" and run: "Transaction_exchange cfg var v tx w = (Inr (r, tx'), w')"
  note entry = refining_op [OF wf cur allocates_Suc vars_counted, of "?l b" var for b]
  from run show "log_current w' (vars tx') \<and> (case s_exchange (control_block_of var) v (view tx w) of
      Inl e \<Rightarrow> r = Inl e | Inr (t, s) \<Rightarrow> r = Inr t \<and> view tx' w' = s)"
    using entry
    by (auto simp: Transaction_exchange_eq Let_def dc log_current_no_conflict [OF cur] s_exchange_def
        view_entry [symmetric])
qed

lemma refining_result: "refining_body ty cfg (lift_result r) (s_result r)"
  by (intro refining_body.intro typed_body.intro stm_body_lift_result
      typed_body_axioms.intro refining_body_axioms.intro)
    (cases r; auto simp: lift_result_def s_result_def)+

lemma refining_then:
  assumes "refining_body ty cfg m a" and "\<And>t. refining_body ty cfg (f t) (b t)"
  shows "refining_body ty cfg (and_then m f) (s_then a b)"
proof -
  note m = assms(1) and f = assms(2)
  note mt = refining_body.axioms(1) [OF m] and ft = refining_body.axioms(1) [OF f]
  note ms = typed_body.axioms(1) [OF mt] and fs = typed_body.axioms(1) [OF ft]
  have step: "\<exists>r tx' w'. and_then m f tx w = (Inr (r, tx'), w') \<and> log_typed ty (vars tx') \<and>
      (log_current w (vars tx) \<longrightarrow> log_current w' (vars tx') \<and> (case s_then a b (view tx w) of
        Inl e \<Rightarrow> r = Inl e | Inr (t, s) \<Rightarrow> r = Inr t \<and> view tx' w' = s))"
    if wf: "reg_wf cfg (vars tx)" and wt: "world_typed ty w" and lt: "log_typed ty (vars tx)" for tx w
  proof -
    obtain r1 tx1 w1 where 1: "m tx w = (Inr (r1, tx1), w1)"
      using typed_body.typed [OF mt wf wt lt] by blast
    note keep = typed_body.keeps_typing [OF mt 1 wf wt lt]
    note ref = refining_body.refines [OF m wf wt lt _ 1]
    show ?thesis
    proof (cases r1)
      case (Inl e)
      with 1 have "and_then m f tx w = (Inr (Inl e, tx1), w1)" by (simp add: and_then_def)
      then show ?thesis
        using keep(1) ref Inl by (auto simp: s_then_def split: sum.splits)
    next
      case (Inr t)
      obtain r tx' w' where 2: "f t tx1 w1 = (Inr (r, tx'), w')"
        using typed_body.typed [OF ft keep(3,2,1)] by blast
      with 1 Inr have "and_then m f tx w = (Inr (r, tx'), w')" by (simp add: and_then_def)
      then show ?thesis
        using typed_body.keeps_typing(1) [OF ft 2 keep(3,2,1)] ref Inr
          refining_body.refines [OF f keep(3,2,1) _ 2]
        by (auto simp: s_then_def split: sum.splits)
    qed
  qed
  show ?thesis
  proof (intro refining_body.intro typed_body.intro typed_body_axioms.intro refining_body_axioms.intro)
    show "stm_body cfg (and_then m f)" using ms fs by (rule stm_body_and_then)
  qed (use step in \<open>(fastforce+)\<close>)
qed

lemma refining_or:
  assumes "refining_body ty cfg m a" and "refining_body ty cfg m' b"
  shows "refining_body ty cfg (Transaction_or cfg m m') (s_or a b)"
proof -
  note m = assms(1) and m' = assms(2)
  note mt = refining_body.axioms(1) [OF m] and m't = refining_body.axioms(1) [OF m']
  note ms = typed_body.axioms(1) [OF mt] and m's = typed_body.axioms(1) [OF m't]
  have step: "\<exists>r tx' w'. Transaction_or cfg m m' tx w = (Inr (r, tx'), w') \<and> log_typed ty (vars tx') \<and>
      (log_current w (vars tx) \<longrightarrow> log_current w' (vars tx') \<and> (case s_or a b (view tx w) of
        Inl e \<Rightarrow> r = Inl e | Inr (t, s) \<Rightarrow> r = Inr t \<and> view tx' w' = s))"
    if wf: "reg_wf cfg (vars tx)" and wt: "world_typed ty w" and lt: "log_typed ty (vars tx)" for tx w
  proof -
    obtain r1 tx1 w1 where 1: "m tx w = (Inr (r1, tx1), w1)"
      using typed_body.typed [OF mt wf wt lt] by blast
    note keep = typed_body.keeps_typing [OF mt 1 wf wt lt]
    note ref = refining_body.refines [OF m wf wt lt _ 1]
    have w1: "allocates w w1" by (rule isolated_body.isolated [OF stm_body.axioms(2) [OF ms] 1])
    show ?thesis
    proof (cases "r1 = Inl Retry")
      case False
      with 1 have "Transaction_or cfg m m' tx w = (Inr (r1, tx1), w1)" by (rule Transaction_or_first)
      then show ?thesis
        using keep(1) ref False by (auto simp: s_or_def split: sum.splits)
    next
      case True
      let ?tx = "tx1\<lparr>vars := vars tx\<rparr>"
      have undo: "reg_wf cfg (vars ?tx)" "log_typed ty (vars ?tx)" using wf lt by simp_all
      obtain r tx2 w2 where 2: "m' ?tx w1 = (Inr (r, tx2), w2)"
        using typed_body.typed [OF m't undo(1) keep(2) undo(2)] by blast
      note keep2 = typed_body.keeps_typing [OF m't 2 undo(1) keep(2) undo(2)]
      have w2: "allocates w1 w2" by (rule isolated_body.isolated [OF stm_body.axioms(2) [OF m's] 2])
      have run: "Transaction_or cfg m m' tx w =
          (Inr (r, if r = Inl Failure then tx2 else Transaction_combine cfg (vars tx1) tx2), w2)"
        using 1 2 True by (simp add: Transaction_or_Retry [where first = m and second = m'])
      have typed: "log_typed ty (combine_vars cfg (vars tx1) (vars tx2))"
        using keep2 keep by (simp add: log_typed_combine reg_wf_distinct)
      have cur: "log_current w2 (vars tx2) \<and> log_current w2 (combine_vars cfg (vars tx1) (vars tx2)) \<and>
          view (Transaction_combine cfg (vars tx1) tx2) w2 = view tx2 w2 \<and>
          (case s_or a b (view tx w) of Inl e \<Rightarrow> r = Inl e | Inr (t, s) \<Rightarrow> r = Inr t \<and> view tx2 w2 = s)"
        if "log_current w (vars tx)"
      proof -
        have "view ?tx w1 = view tx w"
          using view_vars [of ?tx tx w1] by (simp add: view_allocates [OF w1])
        moreover have "a (view tx w) = Inl Retry" "log_current w1 (vars tx1)"
          using ref [OF that] True by (auto split: sum.splits)
        moreover from this have "log_current w2 (vars tx1)" by (simp add: log_current_allocates [OF w2])
        moreover have cur1: "log_current w1 (vars ?tx)"
          using that by (simp add: log_current_allocates [OF w1])
        moreover note refining_body.refines [OF m' undo(1) keep(2) undo(2) cur1 2]
        ultimately show ?thesis
          using keep(3) keep2(3) by (simp add: combine_current reg_wf_distinct s_or_def)
      qed
      show ?thesis
        unfolding run using typed keep2 cur by (auto split: sum.splits)
    qed
  qed
  show ?thesis
  proof (intro refining_body.intro typed_body.intro typed_body_axioms.intro refining_body_axioms.intro)
    show "stm_body cfg (Transaction_or cfg m m')" using ms m's by (rule stm_body_or)
  qed (use step in \<open>(fastforce+)\<close>)
qed

lemma refining_optionally:
  assumes "refining_body ty cfg m a"
  shows "refining_body ty cfg (optionally cfg m)
    (s_or (s_then a (\<lambda>t. s_result (Inr (Some t)))) (s_result (Inr None)))"
  unfolding optionally_def by (intro refining_or refining_then refining_result assms)

text \<open>Under a typing in which the handle has the type of its variable, every operation of the code
  refines its abstract counterpart.\<close>

interpretation ref_read: refining_body "ty(control_block_of var := marker var)" cfg
  "Transaction_read cfg var" "s_read (control_block_of var)" for ty cfg var
  by (rule refining_read) simp

interpretation ref_write: refining_body "ty(control_block_of var := marker var)" cfg
  "Transaction_write cfg var v" "s_write (control_block_of var) v" for ty cfg var v
  by (rule refining_write) simp

interpretation ref_modify: refining_body "ty(control_block_of var := marker var)" cfg
  "Transaction_modify cfg var f" "s_modify (control_block_of var) f" for ty cfg var f
  by (rule refining_modify) simp

interpretation ref_exchange: refining_body "ty(control_block_of var := marker var)" cfg
  "Transaction_exchange cfg var v" "s_exchange (control_block_of var) v" for ty cfg var v
  by (rule refining_exchange) simp

end
