(* ===== verification/Runner_Facts.thy ===== *)
theory Runner_Facts
  imports Loop_Rules Store_Refinement Wait_Properties
begin

text \<open>
  What the iterations of the loops of \<open>Runner\<close> do: invariants of the memory that every part of an
  iteration keeps, and an invariant rule for the most general routine, \<open>with_control_and_err\<close>, of
  which the others are instances.
\<close>

section \<open>Waiting keeps the memory\<close>

text \<open>A predicate on the part of the world that waiting does not change.\<close>

definition memory_predicate :: "nat \<Rightarrow> ('v world \<Rightarrow> bool) \<Rightarrow> bool" where
  "memory_predicate me J \<longleftrightarrow> (\<forall>w w'. (\<forall>k. mem w' k = mem w k) \<longrightarrow> live w' = live w \<longrightarrow>
     transaction_running w' me = transaction_running w me \<longrightarrow> J w \<longrightarrow> J w')"

lemma memory_predicateD:
  "memory_predicate me J \<Longrightarrow> J w \<Longrightarrow> (\<And>k. mem w' k = mem w k) \<Longrightarrow> live w' = live w \<Longrightarrow>
   transaction_running w' me = transaction_running w me \<Longrightarrow> J w'"
  unfolding memory_predicate_def by blast

lemma memory_predicate_funpow:
  assumes "memory_predicate me J" and "\<And>w. J w \<Longrightarrow> J (env w)" and "J w"
  shows "J ((park_timeout env me ^^ n) w)"
proof (induction n)
  case (Suc n)
  have "J (env ((park_timeout env me ^^ n) w))" by (intro assms(2) Suc.IH)
  then have "J (park_timeout env me ((park_timeout env me ^^ n) w))"
    unfolding park_timeout_def Let_def by (rule memory_predicateD [OF assms(1)]) simp_all
  then show ?case by simp
qed (simp add: assms(3))

lemma wait_register_frame:
  assumes "wait_register cfg c es reads w = (res, w')"
  shows "mem w' k = mem w k" "live w' = live w" "transaction_running w' = transaction_running w"
    "res = Inl flt \<Longrightarrow> flt = DanglingBlock \<and> hash_registers cfg"
proof -
  from assms have "(\<forall>k. mem w' k = mem w k) \<and> live w' = live w \<and>
      transaction_running w' = transaction_running w \<and>
      (\<forall>flt. res = Inl flt \<longrightarrow> flt = DanglingBlock \<and> hash_registers cfg)"
  proof (induction es arbitrary: reads w)
    case (Cons e es)
    obtain k v where e: "e = (k, v)" by (cases e)
    show ?case
    proof (cases "(hash_registers cfg \<and> \<not> live w k) \<or> \<not> ptr_eq v (mem w k)")
      case True
      with Cons.prems show ?thesis by (auto simp: e Let_def split: if_splits)
    next
      case False
      with Cons.prems have "wait_register cfg c es (reads @ [k]) (VarControlBlock_wait k c w) = (res, w')"
        by (auto simp: e Let_def)
      from Cons.IH [OF this] show ?thesis by simp
    qed
  qed auto
  then show "mem w' k = mem w k" "live w' = live w" "transaction_running w' = transaction_running w"
    "res = Inl flt \<Longrightarrow> flt = DanglingBlock \<and> hash_registers cfg" by blast+
qed

lemma wait_for_change_keeps:
  assumes run: "Transaction_wait_for_change cfg env me tx w = Some (res, w')"
    and J: "memory_predicate me J" "\<And>w. J w \<Longrightarrow> J (env w)" "J w"
  shows "J w'" and "res = Inr (tx\<lparr>vars := []\<rparr>) \<or> res = Inl DanglingBlock \<and> hash_registers cfg"
proof -
  let ?w = "w\<lparr>ctrls := (ctrls w)(next_ctrl w := Some (ControlBlock_new me)), next_ctrl := Suc (next_ctrl w)\<rparr>"
  obtain r1 w1 where reg: "wait_register cfg (next_ctrl w) (read_values (vars tx)) [] ?w = (r1, w1)"
    by (cases "wait_register cfg (next_ctrl w) (read_values (vars tx)) [] ?w")
  note frame = wait_register_frame [OF reg]
  have w1: "J w1" by (rule memory_predicateD [OF J(1,3)]) (simp_all add: frame)
  have "J w' \<and> (res = Inr (tx\<lparr>vars := []\<rparr>) \<or> res = Inl DanglingBlock \<and> hash_registers cfg)"
  proof (cases r1)
    case (Inl flt)
    with run reg have "res = Inl flt" "w' = w1"
      by (simp_all add: Transaction_wait_for_change_def Let_def)
    with frame(4) Inl w1 show ?thesis by simp
  next
    case (Inr br)
    obtain blocking reads where br: "br = (blocking, reads)" by (cases br)
    from run reg Inr br obtain w2 where
      w2: "(if blocking then ControlBlock_wait env me (next_ctrl w) w1 else Some w1) = Some w2" and
      res: "res = Inr (tx\<lparr>vars := []\<rparr>)" and
      w': "w' = (fold VarControlBlock_set_dead reads w2)\<lparr>ctrls := (ctrls w2)(next_ctrl w := None)\<rparr>"
      by (auto simp: Transaction_wait_for_change_def Let_def split: option.splits)
    have "J w2"
    proof (cases blocking)
      case True
      with w2 obtain n where "w2 = (park_timeout env me ^^ n) w1"
        by (auto simp: ControlBlock_wait_Some_iff)
      then show ?thesis using memory_predicate_funpow [OF J(1,2) w1] by simp
    qed (use w2 w1 in simp)
    then have "J w'" by (rule memory_predicateD [OF J(1)]) (simp_all add: w')
    with res show ?thesis by simp
  qed
  then show "J w'" and "res = Inr (tx\<lparr>vars := []\<rparr>) \<or> res = Inl DanglingBlock \<and> hash_registers cfg"
    by simp_all
qed

lemma wait_and_clear_cases:
  assumes "wait_and_clear cfg env me waits tx c w = Some (out, w')"
    and "memory_predicate me J" "\<And>w. J w \<Longrightarrow> J (env w)" "J w"
  shows "J w'" and "out = Inr (Inr (tx\<lparr>vars := []\<rparr>, c)) \<or> out = Inl DanglingBlock \<and> hash_registers cfg"
proof -
  have "J w' \<and> (out = Inr (Inr (tx\<lparr>vars := []\<rparr>, c)) \<or> out = Inl DanglingBlock \<and> hash_registers cfg)"
  proof (cases waits)
    case True
    with assms(1) obtain r w1 where r: "Transaction_wait_for_change cfg env me tx w = Some (r, w1)"
      and out: "(out, w') = (case r of Inl flt \<Rightarrow> (Inl flt, w1) | Inr tx \<Rightarrow> (Inr (Inr (Transaction_clear tx, c)), w1))"
      by (auto simp: wait_and_clear_def split: option.splits sum.splits)
    from wait_for_change_keeps [OF r assms(2-4)] out show ?thesis
      by (auto simp: Transaction_clear_def)
  qed (use assms(1,4) in \<open>simp add: wait_and_clear_def Transaction_clear_def\<close>)
  then show "J w'" and "out = Inr (Inr (tx\<lparr>vars := []\<rparr>, c)) \<or> out = Inl DanglingBlock \<and> hash_registers cfg"
    by simp_all
qed

section \<open>The end of a commit\<close>

lemma commit_acquire_fault:
  "commit_acquire cfg w rs rv wv wr = Inl flt \<Longrightarrow> flt = DanglingBlock \<and> hash_registers cfg"
  by (induction cfg w rs rv wv wr rule: commit_acquire.induct) (auto split: if_splits log_var.splits)

lemma Transaction_commit_cases:
  obtains (dangling) "Transaction_commit cfg tx w = (Inl DanglingBlock, w)" "hash_registers cfg"
  | (conflict) "Transaction_commit cfg tx w = (Inr False, w)"
  | (success) w' where "Transaction_commit cfg tx w = (Inr True, w')"
proof (cases "commit_acquire cfg w (reg_records cfg (vars tx)) [] [] []")
  case (Inl flt)
  with commit_acquire_fault [OF Inl] dangling show ?thesis by (simp add: Transaction_commit_def)
next
  case (Inr r)
  then show ?thesis
    using conflict success by (cases r) (auto simp: Transaction_commit_def Let_def)
qed

lemma commit_or_clear_cases:
  assumes "commit_or_clear cfg r tx c w = Some (out, w')"
  obtains (dangling) "out = Inl DanglingBlock" "w' = w" "hash_registers cfg"
  | (conflict) "out = Inr (Inr (tx\<lparr>vars := []\<rparr>, c))" "w' = w"
  | (success) "Transaction_commit cfg tx w = (Inr True, w')" "out = Inr (Inl r)"
  using assms
  by (cases rule: Transaction_commit_cases [of cfg tx w])
    (auto simp: commit_or_clear_def Transaction_clear_def)

section \<open>Fallible and infallible routines\<close>

text \<open>The conversion of a body without errors of its own to a fallible one: \<open>From<StmError>\<close>.\<close>

definition raise_stm :: "('v, stm_error, 't) body \<Rightarrow> ('v, 'e transaction_error, 't) body" where
  "raise_stm f tx w = (case f tx w of
       (Inl flt, w) \<Rightarrow> (Inl flt, w)
     | (Inr (r, tx), w) \<Rightarrow> (Inr (map_sum Stm id r, tx), w))"

lemma commit_or_clear_map:
  "commit_or_clear cfg (g r) tx c w = map_option (\<lambda>(x, w). (map_sum id (map_sum g id) x, w)) (commit_or_clear cfg r tx c w)"
  by (cases rule: Transaction_commit_cases [of cfg tx w]) (auto simp: commit_or_clear_def)

lemma wait_and_clear_map:
  "wait_and_clear cfg env me waits tx c w =
     map_option (\<lambda>(x, w). (map_sum id (map_sum g id) x, w)) (wait_and_clear cfg env me waits tx c w)"
  by (cases "Transaction_wait_for_change cfg env me tx w")
    (auto simp: wait_and_clear_def split: sum.split)

text \<open>An invariant rule for the routines: \<open>J\<close> is kept by the parts of an iteration; \<open>Q\<close> holds for
  what is returned.\<close>

lemma with_control_and_err_invariant:
  assumes run: "Transaction_with_control_and_err cfg env me control c f w = Some (res, w')"
    and enters: "\<not> transaction_running w me" and start: "J (w\<lparr>transaction_running := (transaction_running w)(me := True)\<rparr>)"
    and J: "memory_predicate me J" and env: "\<And>w. J w \<Longrightarrow> J (env w)"
    and control: "\<And>e c w res c' w'. control e c w = (res, c', w') \<Longrightarrow> J w \<Longrightarrow>
      J w' \<and> (\<forall>flt. res = Inl flt \<longrightarrow> Q (Inl flt) w') \<and> (res = Inr ControlAbort \<longrightarrow> Q (Inr Abandoned) w')"
    and body: "\<And>tx w res w'. f tx w = (res, w') \<Longrightarrow> vars tx = [] \<Longrightarrow> J w \<Longrightarrow> J w' \<and> (case res of
        Inl flt \<Rightarrow> Q (Inl flt) w' | Inr (Inl (Abort e), _) \<Rightarrow> Q (Inr (Cancelled e)) w' | _ \<Rightarrow> True)"
    and commit: "\<And>tx0 w0 tx w t w'. f tx0 w0 = (Inr (Inr t, tx), w) \<Longrightarrow> vars tx0 = [] \<Longrightarrow> J w0 \<Longrightarrow>
        Transaction_commit cfg tx w = (Inr True, w') \<Longrightarrow> Q (Inr (Validated t)) w'"
    and dangling: "\<And>w. hash_registers cfg \<Longrightarrow> J w \<Longrightarrow> Q (Inl DanglingBlock) w"
  shows "\<exists>w1. w' = TransactionGuard_drop me w1 \<and> Q res w1"
proof -
  let ?I = "\<lambda>(tx, c) w. vars tx = [] \<and> J w"
  from run enters obtain w1 where
    loop: "rust_loop (with_control_and_err_body cfg env me control f) (transaction_default, c)
      (w\<lparr>transaction_running := (transaction_running w)(me := True)\<rparr>) = Some (res, w1)"
    and w': "w' = TransactionGuard_drop me w1"
    by (auto simp: Transaction_with_control_and_err_def with_guard_enters TransactionGuard_drop_def)
  from loop have "Q res w1"
  proof (rule rust_loop_invariant [where I = ?I])
    show "?I (transaction_default, c) (w\<lparr>transaction_running := (transaction_running w)(me := True)\<rparr>)"
      using start by (simp add: transaction_default_def)
  next
    fix s w out w1
    assume I: "?I s w" and it: "with_control_and_err_body cfg env me control f s w = Some (out, w1)"
    obtain tx c where s: "s = (tx, c)" by (cases s)
    with I have tx: "vars tx = []" and Jw: "J w" by simp_all
    obtain r w0 where f: "f tx w = (r, w0)" by (cases "f tx w")
    note b = body [OF f tx Jw]
    show "case out of Inl flt \<Rightarrow> Q (Inl flt) w1 | Inr (Inl r) \<Rightarrow> Q (Inr r) w1 | Inr (Inr s') \<Rightarrow> ?I s' w1"
    proof (cases r)
      case (Inl flt)
      with it b show ?thesis by (auto simp: with_control_and_err_body_def s f)
    next
      case (Inr rt)
      obtain r' tx' where rt: "rt = (r', tx')" by (cases rt)
      show ?thesis
      proof (cases r')
        case ok: (Inr t)
        with it Inr rt have "commit_or_clear cfg (Validated t) tx' c w0 = Some (out, w1)"
          by (simp add: with_control_and_err_body_def s f)
        then show ?thesis
        proof (cases rule: commit_or_clear_cases)
          case success
          with commit [OF _ tx Jw] f Inr rt ok show ?thesis by auto
        qed (use b dangling in auto)
      next
        case err: (Inl e)
        show ?thesis
        proof (cases e)
          case (Abort e')
          with it b Inr rt err show ?thesis by (auto simp: with_control_and_err_body_def s f)
        next
          case (Stm e')
          obtain d c' w2 where ctl: "control e' c w0 = (d, c', w2)" by (metis prod_cases3)
          note cc = control [OF ctl conjunct1 [OF b]]
          consider (flt) flt where "d = Inl flt" | (ab) "d = Inr ControlAbort" | (re) "d = Inr ControlRetry"
            by (metis sumE transaction_control.exhaust)
          then show ?thesis
          proof cases
            case re
            with it Inr rt err Stm ctl have
              w: "wait_and_clear cfg env me (wait_on_retry cfg \<and> e' = Retry) tx' c' w2 = Some (out, w1)"
              by (simp add: with_control_and_err_body_def s f)
            from wait_and_clear_cases [OF w J env] cc dangling show ?thesis by auto
          qed (use it Inr rt err Stm ctl cc in \<open>auto simp: with_control_and_err_body_def s f\<close>)
        qed
      qed
    qed
  qed
  with w' show ?thesis by blast
qed

end
