(* ===== verification/Runner_Properties.thy ===== *)
theory Runner_Properties
  imports Runner_Facts
begin

text \<open>
  The properties of the routines that run a transaction: what they return when no other thread
  interferes, what they leave behind when they do not commit, what a result they return stands for,
  and the guard against nested transactions.
\<close>

section \<open>Running alone\<close>

text \<open>With the features and the typing of the world a running transaction relies on.\<close>

definition all_live :: "config \<Rightarrow> 'v world \<Rightarrow> bool" where
  "all_live cfg w \<longleftrightarrow> (hash_registers cfg \<longrightarrow> (\<forall>k. live w k))"

lemma all_live_keys [simp]: "all_live cfg w \<Longrightarrow> keys_live cfg w r"
  by (simp add: all_live_def keys_live_def)

lemma all_live_cong: "live w' = live w \<Longrightarrow> all_live cfg w' = all_live cfg w"
  by (simp add: all_live_def)

lemma world_typed_cong: "(\<And>k. mem w' k = mem w k) \<Longrightarrow> world_typed ty w' = world_typed ty w"
  by (simp add: world_typed_def)

lemma store_cong: "(\<And>k. mem w' k = mem w k) \<Longrightarrow> store w' = store w"
  by (simp add: store_def fun_eq_iff)

lemma vars_default [simp]: "vars transaction_default = []"
  by (simp add: transaction_default_def)

lemma store_running [simp]: "store (w\<lparr>transaction_running := r\<rparr>) = store w"
  by (rule store_cong) simp

lemma world_typed_commit:
  assumes "reg_wf cfg r" and "world_typed ty w" and "log_typed ty r"
  shows "world_typed ty (commit_world cfg (reg_records cfg r) w)"
proof -
  have "type_id (arc_dyn x) = ty k" if "log_writes r k = Some x" for k x
    using that assms(3) LogVar_written_in by (fastforce simp: log_writes_def log_typed_def bind_eq_Some_conv)
  with assms(2) show ?thesis by (simp add: world_typed_def commit_world_blocks [OF assms(1)] split: option.split)
qed

text \<open>The attempt whose specification succeeds, up to the end of its commit.\<close>

lemma solo_commit:
  assumes "refining_body ty cfg m a" and "world_typed ty w" and "all_live cfg w"
    and "vars tx = []" and "a (store w) = Inr (t, s)"
  shows "\<exists>tx' w' w''. m tx w = (Inr (Inr t, tx'), w') \<and>
    Transaction_commit cfg tx' w' = (Inr True, w'') \<and> store w'' = s \<and> world_typed ty w'' \<and>
    transaction_running w'' = transaction_running w"
proof -
  from refining_body.attempt [OF assms(1,4,2)] assms(5) obtain tx' w' where
    m: "m tx w = (Inr (Inr t, tx'), w')" and w': "allocates w w'"
    and wf: "reg_wf cfg (vars tx')" and cur: "log_current w' (vars tx')" and s: "view tx' w' = s"
    by auto
  have "keys_live cfg w' (vars tx')"
    using assms(3) by (simp add: all_live_def keys_live_def allocatesD(2) [OF w'])
  then have "Transaction_commit cfg tx' w' = (Inr True, commit_world cfg (reg_records cfg (vars tx')) w')"
    using wf by (simp add: Transaction_commit_eq log_current_valid [OF cur])
  moreover have "store (commit_world cfg (reg_records cfg (vars tx')) w') = s"
    using commit_installs_view [OF wf cur] s by simp
  moreover have "world_typed ty (commit_world cfg (reg_records cfg (vars tx')) w')"
  proof -
    have "reg_wf cfg (vars tx)" "log_typed ty (vars tx)" using assms(4) by (simp_all add: reg_wf_def)
    note typed = typed_body.keeps_typing [OF refining_body.axioms(1) [OF assms(1)] m this(1) assms(2) this(2)]
    show ?thesis by (rule world_typed_commit [OF wf typed(2,1)])
  qed
  ultimately show ?thesis
    using m by (auto simp: allocatesD(5) [OF w'])
qed

lemma solo_with_control:
  assumes "refining_body ty cfg m a" and "world_typed ty w" and "all_live cfg w"
    and "\<not> transaction_running w me" and "a (store w) = Inr (t, s)"
  shows "\<exists>w'. Transaction_with_control cfg env me control c m w = Some (Inr (Some t), w') \<and>
    store w' = s \<and> world_typed ty w' \<and> \<not> transaction_running w' me"
proof -
  let ?w = "w\<lparr>transaction_running := (transaction_running w)(me := True)\<rparr>"
  have "world_typed ty ?w" "all_live cfg ?w" "a (store ?w) = Inr (t, s)"
    using assms(2,3,5) by (simp_all add: world_typed_def all_live_def)
  from solo_commit [OF assms(1) this(1,2) vars_default this(3)]
  obtain tx' w' w'' where "m transaction_default ?w = (Inr (Inr t, tx'), w')"
    "Transaction_commit cfg tx' w' = (Inr True, w'')" and s: "store w'' = s" "world_typed ty w''" by blast
  then have "rust_loop (with_control_body cfg env me control m) (transaction_default, c) ?w =
      Some (Inr (Some t), w'')"
    by (intro rust_loop_stops) (simp add: with_control_body_def commit_or_clear_def)
  then show ?thesis
    using assms(4) s
    by (simp add: Transaction_with_control_def with_guard_enters store_def world_typed_def fun_eq_iff)
qed

text \<open>C14: a transaction that no other thread disturbs does what its specification says: if the
  specification of the body succeeds on the values of the variables, \<open>atomically\<close> returns its result
  after one attempt, and the variables hold the values of the specification and keep their types.\<close>

theorem atomically_refines:
  assumes "refining_body ty cfg m a" and "world_typed ty w" and "all_live cfg w"
    and "\<not> transaction_running w me" and "a (store w) = Inr (t, s)"
  shows "\<exists>w'. atomically cfg env me m w = Some (Inr t, w') \<and> store w' = s \<and> world_typed ty w' \<and>
    \<not> transaction_running w' me"
  using solo_with_control [OF assms, of env always_retry "()"]
  by (auto simp: atomically_def Transaction_with_def)

text \<open>A transfer between two variables that waits until there is enough to take.\<close>

definition transfer :: "config \<Rightarrow> tvar \<Rightarrow> tvar \<Rightarrow> int \<Rightarrow> (int, stm_error, int) body" where
  "transfer cfg source target n =
     and_then (Transaction_read cfg source) (\<lambda>x.
       and_then (lift_result (guard (n \<le> x))) (\<lambda>_.
         and_then (Transaction_write cfg source (x - n)) (\<lambda>_.
           and_then (Transaction_modify cfg target (\<lambda>y. y + n)) (\<lambda>_. lift_result (Inr x)))))"

definition s_transfer :: "block \<Rightarrow> block \<Rightarrow> int \<Rightarrow> (int, stm_error, int) abstract_body" where
  "s_transfer source target n s =
     (if n \<le> s source then Inr (s source, (s(source := s source - n))(target := (s(source := s source - n)) target + n))
      else Inl Retry)"

lemma refining_transfer:
  assumes "ty (control_block_of source) = marker source" and "ty (control_block_of target) = marker target"
  shows "refining_body ty cfg (transfer cfg source target n)
    (s_transfer (control_block_of source) (control_block_of target) n)"
proof -
  let ?s = "control_block_of source" and ?t = "control_block_of target"
  let ?spec = "s_then (s_read ?s) (\<lambda>x. s_then (s_result (guard (n \<le> x))) (\<lambda>_.
       s_then (s_write ?s (x - n)) (\<lambda>_. s_then (s_modify ?t (\<lambda>y. y + n)) (\<lambda>_. s_result (Inr x)))))"
  have "refining_body ty cfg (transfer cfg source target n) ?spec"
    unfolding transfer_def
    by (intro refining_then refining_read refining_write refining_modify refining_result assms)
  moreover have "?spec = s_transfer ?s ?t n"
    by (auto simp: s_transfer_def s_then_def s_read_def s_result_def s_write_def s_modify_def guard_def
        retry_def fun_eq_iff)
  ultimately show ?thesis by simp
qed

lemma demo_typed [simp]: "world_typed (\<lambda>_. 0) demo_world"
  by (simp add: world_typed_def)

lemma demo_store [simp]: "store demo_world (Block n) = 10 * int n"
  by (simp add: store_def)

theorem atomically_refines_witness:
  "\<exists>w'. atomically default_config id 0 (transfer default_config (demo_var 2) (demo_var 3) 15) demo_world
      = Some (Inr 20, w') \<and> store w' (Block 2) = 5 \<and> store w' (Block 3) = 45"
proof -
  have "refining_body (\<lambda>_. 0) default_config (transfer default_config (demo_var 2) (demo_var 3) 15)
      (s_transfer (Block 2) (Block 3) 15)"
    using refining_transfer [of "\<lambda>_. 0" "demo_var 2" "demo_var 3" default_config 15] by simp
  from atomically_refines [OF this demo_typed, of 0 _ _ id] show ?thesis
    by (fastforce simp: all_live_def s_transfer_def)
qed

section \<open>Blocking\<close>

lemma solo_error:
  assumes "refining_body ty cfg m a" and "world_typed ty w" and "vars tx = []" and "a (store w) = Inl e"
  shows "\<exists>tx' w'. m tx w = (Inr (Inl e, tx'), w') \<and> allocates w w' \<and> reg_wf cfg (vars tx') \<and>
    log_current w' (vars tx')"
  using refining_body.attempt [OF assms(1,3,2)] assms(4) by auto

lemma solo_wait_blocks:
  assumes "reg_wf cfg (vars tx)" and "keys_live cfg w (vars tx)" and "log_current w (vars tx)"
    and env: "\<And>w. ctrls (env w) = ctrls w"
  shows "Transaction_wait_for_change cfg env me tx w = None"
proof (rule waits_if_never_woken [OF assms(1,2), where I = "ctrl_blocked (next_ctrl w)"])
  show "reads_current w (vars tx)"
    using assms(3) by (auto simp: log_current_def reads_current_def ptr_eq_def)
  show "ctrl_blocked (next_ctrl w) w1"
    if "ctrls w1 = (ctrls w)(next_ctrl w := Some (ControlBlock_new me))" for w1 :: "'a world"
    using that by (simp add: ctrl_blocked_def ControlBlock_new_def)
  show "ctrl_blocked (next_ctrl w) (park_timeout env me w1)" if "ctrl_blocked (next_ctrl w) w1"
    for w1 :: "'a world"
    using that by (simp add: ctrl_blocked_def park_timeout_def env Let_def)
qed

lemma solo_blocks:
  assumes "refining_body ty cfg m a" and "world_typed ty w" and "all_live cfg w"
    and "\<not> transaction_running w me" and "a (store w) = Inl e"
    and env: "\<And>w. ctrls (env w) = ctrls w"
  shows "Transaction_with_control cfg env me always_retry () m w = None"
proof -
  let ?w = "w\<lparr>transaction_running := (transaction_running w)(me := True)\<rparr>"
  let ?I = "\<lambda>(tx, c) w1. vars tx = [] \<and> world_typed ty w1 \<and> all_live cfg w1 \<and> a (store w1) = Inl e"
  have "rust_loop (with_control_body cfg env me always_retry m) (transaction_default, ()) ?w = None"
  proof (rule rust_loop_never [where I = ?I])
    show "?I (transaction_default, ()) ?w"
      using assms(2,3,5) by (simp add: world_typed_def all_live_def)
    fix s :: "'a transaction \<times> unit" and w1 :: "'a world"
    assume I: "?I s w1"
    obtain tx c where s: "s = (tx, c)" by (cases s)
    from I s obtain tx' w2 where m: "m tx w1 = (Inr (Inl e, tx'), w2)" and w2: "allocates w1 w2"
      and wf: "reg_wf cfg (vars tx')" and cur: "log_current w2 (vars tx')"
      using solo_error [OF assms(1)] by blast
    have live: "keys_live cfg w2 (vars tx')" and I2: "?I (tx'\<lparr>vars := []\<rparr>, c) w2"
      using I s world_typed_cong [of w2 w1 ty] store_cong [of w2 w1] allocatesD(1,2) [OF w2]
      by (auto simp: all_live_def keys_live_def)
    have "with_control_body cfg env me always_retry m s w1 =
        wait_and_clear cfg env me (wait_on_retry cfg \<and> e = Retry) tx' c w2"
      by (simp add: with_control_body_def s m always_retry_def)
    then show "with_control_body cfg env me always_retry m s w1 = None \<or>
        (\<exists>s' w'. with_control_body cfg env me always_retry m s w1 = Some (Inr (Inr s'), w') \<and> ?I s' w')"
      using solo_wait_blocks [where env = env, OF wf live cur env] I2
      by (auto simp: wait_and_clear_def Transaction_clear_def)
  qed
  then show ?thesis
    using assms(4)
    by (simp add: Transaction_with_control_def with_guard_enters)
qed

text \<open>C30: a transaction whose specification retries or fails on the values of the variables never
  returns as long as no other transaction commits: with \<open>wait-on-retry\<close> it stays parked, without it
  runs for ever.\<close>

theorem atomically_blocks:
  assumes "refining_body ty cfg m a" and "world_typed ty w" and "all_live cfg w"
    and "\<not> transaction_running w me" and "a (store w) = Inl e"
    and env: "\<And>w. ctrls (env w) = ctrls w"
  shows "atomically cfg env me m w = None"
  using solo_blocks [where env = env, OF assms] by (simp add: atomically_def Transaction_with_def)

theorem atomically_blocks_witness:
  "atomically default_config id 0 (transfer default_config (demo_var 2) (demo_var 3) 25) demo_world = None"
proof -
  have "refining_body (\<lambda>_. 0) default_config (transfer default_config (demo_var 2) (demo_var 3) 25)
      (s_transfer (Block 2) (Block 3) 25)"
    using refining_transfer [of "\<lambda>_. 0" "demo_var 2" "demo_var 3" default_config 25] by simp
  from atomically_blocks [OF this demo_typed, of 0 Retry id] show ?thesis
    by (simp add: all_live_def s_transfer_def)
qed

section \<open>Transactions that do not commit\<close>

text \<open>C17: a transaction that ends in anything but \<open>Validated\<close> - cancelled by the body, abandoned by the
  control function, or stopped by a panic of the body or of the control function - leaves every
  variable as it was, after any number of attempts and waits; only other threads may have changed
  them.\<close>

theorem not_validated_no_trace:
  assumes "stm_body cfg f"
    and "Transaction_with_control_and_err cfg env me control c f w = Some (res, w')"
    and "\<And>w. blocks (env w) = blocks w \<and> live (env w) = live w"
    and "\<And>e c w. blocks (snd (snd (control e c w))) = blocks w \<and> live (snd (snd (control e c w))) = live w"
    and "\<And>t. res \<noteq> Inr (Validated t)"
  shows "mem w' k = mem w k"
proof (cases "transaction_running w me")
  case True
  with assms(2) show ?thesis
    by (simp add: Transaction_with_control_and_err_def with_guard_nested)
next
  case False
  let ?J = "\<lambda>w1. \<forall>k. mem w1 k = mem w k"
  let ?Q = "\<lambda>res w1. (\<exists>t. res = Inr (Validated t)) \<or> ?J w1"
  from assms(2) False have "\<exists>w1. w' = TransactionGuard_drop me w1 \<and> ?Q res w1"
  proof (rule with_control_and_err_invariant [where J = ?J and Q = ?Q])
    show "memory_predicate me ?J" by (simp add: memory_predicate_def)
  next
    fix e c w1 r c' w2
    assume "control e c w1 = (r, c', w2)" and "?J w1"
    then show "?J w2 \<and> (\<forall>flt. r = Inl flt \<longrightarrow> ?Q (Inl flt) w2) \<and> (r = Inr ControlAbort \<longrightarrow> ?Q (Inr Abandoned) w2)"
      using assms(4) [of e c w1] by simp
  next
    fix tx and w1 w2 :: "'a world" and r
    assume "f tx w1 = (r, w2)" and "?J w1"
    then have "?J w2"
      using isolated_body.keeps_world(1) [OF stm_body.axioms(2) [OF assms(1)]] by metis
    then show "?J w2 \<and> (case r of Inl flt \<Rightarrow> ?Q (Inl flt) w2
        | Inr (Inl (Abort e), _) \<Rightarrow> ?Q (Inr (Cancelled e)) w2 | _ \<Rightarrow> True)"
      by (simp split: sum.split transaction_error.split)
  qed (use assms(3) in auto)
  with assms(5) show ?thesis by (auto simp: TransactionGuard_drop_def)
qed

text \<open>A body that changes a variable and then cancels.\<close>

definition write_then_abort :: "config \<Rightarrow> tvar \<Rightarrow> 'v \<Rightarrow> 'e \<Rightarrow> ('v, 'e transaction_error, unit) body" where
  "write_then_abort cfg x v e = and_then (raise_stm (Transaction_write cfg x v)) (\<lambda>_. lift_result (abort e))"

lemma stm_body_raise_stm [intro]:
  assumes "stm_body cfg m"
  shows "stm_body cfg (raise_stm m)"
proof (intro stm_body.intro wf_body.intro isolated_body.intro)
  fix tx tx' :: "'a transaction" and w w' :: "'a world" and r k l v
  assume "raise_stm m tx w = (Inr (r, tx'), w')"
  then obtain r' where m: "m tx w = (Inr (r', tx'), w')"
    by (auto simp: raise_stm_def split: prod.splits sum.splits)
  assume wf: "reg_wf cfg (vars tx)"
  show "reg_wf cfg (vars tx')" by (rule wf_body.keeps_wf [OF stm_body.axioms(1) [OF assms] m wf])
  show "\<exists>l'. map_of (vars tx') k = Some l' \<and> LogVar_into_read_value l' = Some v"
    if "map_of (vars tx) k = Some l" "LogVar_into_read_value l = Some v"
    by (rule wf_body.keeps_reads [OF stm_body.axioms(1) [OF assms] m wf that])
next
  fix tx :: "'a transaction" and w w' :: "'a world" and res
  assume "raise_stm m tx w = (res, w')"
  then obtain r where "m tx w = (r, w')"
    by (cases "m tx w") (auto simp: raise_stm_def split: prod.splits sum.splits)
  then show "allocates w w'" by (rule isolated_body.isolated [OF stm_body.axioms(2) [OF assms]])
qed

lemma stm_body_write_then_abort [intro!]: "stm_body cfg (write_then_abort cfg x v e)"
  unfolding write_then_abort_def by (intro stm_body_and_then stm_body_raise_stm stm_body_lift_result op_bodies)

lemma write_then_abort_run:
  "vars tx = [] \<Longrightarrow> \<exists>tx'. write_then_abort cfg x v e tx w =
     (Inr (Inl (Abort e), tx'), w\<lparr>next_arc := Suc (next_arc w)\<rparr>)"
  by (simp add: write_then_abort_def raise_stm_def and_then_def lift_result_def abort_def
      Transaction_write_eq Let_def)

theorem not_validated_no_trace_witness:
  "\<exists>w'. Transaction_with_control_and_err default_config id 0 always_retry ()
      (write_then_abort default_config (demo_var 2) 7 ''no'') demo_world =
    Some (Inr (Cancelled ''no''), w') \<and> mem w' (Block 2) = Arc 2 (Dyn 0 20)"
proof -
  let ?f = "write_then_abort default_config (demo_var 2) (7 :: int) ''no''"
  let ?w = "demo_world\<lparr>transaction_running := (transaction_running demo_world)(0 := True)\<rparr>"
  obtain tx' w1 where "?f transaction_default ?w = (Inr (Inl (Abort ''no''), tx'), w1)"
    using write_then_abort_run [OF vars_default, of default_config "demo_var 2" 7 "''no''" ?w] by blast
  then have "rust_loop (with_control_and_err_body default_config id 0 always_retry ?f)
      (transaction_default, ()) ?w = Some (Inr (Cancelled ''no''), w1)"
    by (intro rust_loop_stops) (simp add: with_control_and_err_body_def)
  then obtain w' where run: "Transaction_with_control_and_err default_config id 0 always_retry () ?f demo_world =
      Some (Inr (Cancelled ''no''), w')"
    by (simp add: Transaction_with_control_and_err_def with_guard_enters)
  have "mem w' (Block 2) = mem demo_world (Block 2)"
    by (rule not_validated_no_trace [OF stm_body_write_then_abort run]) (simp_all add: always_retry_def)
  with run show ?thesis by simp
qed

section \<open>Results that are returned\<close>

text \<open>C29: a result that a transaction returns was computed by its body from an empty log, in a world
  in which everything the body read (and did not read on a blocked path only) was current when the
  commit took its locks, and the commit stored all that the body wrote.\<close>

theorem validated_was_committed:
  assumes "wf_body cfg f" and "\<not> hash_registers cfg" and "\<not> transaction_running w me"
    and "Transaction_with_control_and_err cfg env me control c f w = Some (Inr (Validated t), w')"
  shows "\<exists>tx0 w0 tx w1. vars tx0 = [] \<and> f tx0 w0 = (Inr (Inr t, tx), w1) \<and> log_valid w1 (vars tx) \<and>
    (\<forall>k. mem w' k = (case log_writes (vars tx) k of Some x \<Rightarrow> x | None \<Rightarrow> mem w1 k))"
proof -
  let ?Q = "\<lambda>res w2. \<forall>t. res = Inr (Validated t) \<longrightarrow>
    (\<exists>tx0 w0 tx w1. vars tx0 = [] \<and> f tx0 w0 = (Inr (Inr t, tx), w1) \<and> log_valid w1 (vars tx) \<and>
      (\<forall>k. mem w2 k = (case log_writes (vars tx) k of Some x \<Rightarrow> x | None \<Rightarrow> mem w1 k)))"
  obtain res where run: "Transaction_with_control_and_err cfg env me control c f w = Some (res, w')"
    and res: "res = Inr (Validated t)" using assms(4) by blast
  from run assms(3) have "\<exists>w2. w' = TransactionGuard_drop me w2 \<and> ?Q res w2"
  proof (rule with_control_and_err_invariant [where J = "\<lambda>_. True" and Q = ?Q])
    fix tx0 tx :: "'a transaction" and w0 w1 w2 :: "'a world" and t
    assume f: "f tx0 w0 = (Inr (Inr t, tx), w1)" and tx0: "vars tx0 = []"
      and commit: "Transaction_commit cfg tx w1 = (Inr True, w2)"
    have wf: "reg_wf cfg (vars tx)"
      using wf_body.keeps_wf [OF assms(1) f] tx0 by (simp add: reg_wf_def)
    with commit assms(2) have "log_valid w1 (vars tx)" "w2 = commit_world cfg (reg_records cfg (vars tx)) w1"
      by (auto simp: Transaction_commit_eq split: if_splits)
    with f tx0 wf have "vars tx0 = [] \<and> f tx0 w0 = (Inr (Inr t, tx), w1) \<and> log_valid w1 (vars tx) \<and>
      (\<forall>k. mem w2 k = (case log_writes (vars tx) k of Some x \<Rightarrow> x | None \<Rightarrow> mem w1 k))"
      by (auto simp: commit_world_blocks split: option.split)
    then show "?Q (Inr (Validated t)) w2" by blast
  qed (auto simp: memory_predicate_def split: sum.split transaction_error.split)
  then obtain w2 where w': "w' = TransactionGuard_drop me w2" and Q: "?Q res w2" by blast
  have "mem w' k = mem w2 k" for k by (simp add: w' TransactionGuard_drop_def)
  with Q res show ?thesis by simp
qed

lemma read_default:
  "type_id (arc_dyn (mem w (control_block_of x))) = marker x \<Longrightarrow>
   \<exists>tx. Transaction_read cfg x transaction_default w =
     (Inr (Inr (payload (arc_dyn (mem w (control_block_of x)))), tx), w) \<and>
     vars tx = [(control_block_of x, Read (mem w (control_block_of x)))]"
  by (simp add: Transaction_read_eq Let_def entry_of_def downcast_def)

text \<open>A transaction that reads a variable.\<close>

definition demo_read :: "(int, string transaction_error, int) body" where
  "demo_read = raise_stm (Transaction_read default_config (demo_var 2))"

lemma stm_body_demo_read: "stm_body default_config demo_read"
  unfolding demo_read_def by (intro stm_body_raise_stm op_bodies)

lemma demo_read_run:
  "\<exists>w'. Transaction_with_control_and_err default_config id 0 always_retry () demo_read demo_world
    = Some (Inr (Validated 20), w')"
proof -
  let ?w = "demo_world\<lparr>transaction_running := (transaction_running demo_world)(0 := True)\<rparr>"
  obtain tx where "Transaction_read default_config (demo_var 2) transaction_default ?w = (Inr (Inr 20, tx), ?w)"
    and vs: "vars tx = [(Block 2, Read (Arc 2 (Dyn 0 20)))]"
    using read_default [of ?w "demo_var 2" default_config] by auto
  then have f: "demo_read transaction_default ?w = (Inr (Inr 20, tx), ?w)"
    by (simp add: demo_read_def raise_stm_def)
  have "Transaction_commit default_config tx ?w = (Inr True, commit_world default_config (reg_records default_config (vars tx)) ?w)"
    by (simp add: Transaction_commit_eq vs reg_wf_def log_valid_def ptr_eq_def)
  with f have "rust_loop (with_control_and_err_body default_config id 0 always_retry demo_read) (transaction_default, ()) ?w
      = Some (Inr (Validated 20), commit_world default_config (reg_records default_config (vars tx)) ?w)"
    by (intro rust_loop_stops) (simp add: with_control_and_err_body_def commit_or_clear_def)
  then show ?thesis
    by (simp add: Transaction_with_control_and_err_def with_guard_enters)
qed

theorem validated_was_committed_witness:
  "\<exists>tx0 w0 tx w1. vars tx0 = [] \<and> demo_read tx0 w0 = (Inr (Inr 20, tx), w1) \<and> log_valid w1 (vars tx)"
proof -
  obtain w' where "Transaction_with_control_and_err default_config id 0 always_retry () demo_read demo_world
    = Some (Inr (Validated 20), w')" using demo_read_run by blast
  from validated_was_committed [OF stm_body.axioms(1) [OF stm_body_demo_read] _ _ this] show ?thesis by simp blast
qed

section \<open>The guard\<close>

lemma with_control_and_err_keeps_guard:
  assumes "Transaction_with_control_and_err cfg env me control c f w = Some (res, w')"
    and "\<not> transaction_running w me"
  shows "\<not> transaction_running w' me"
  using assms by (auto simp: Transaction_with_control_and_err_def with_guard_enters)

text \<open>C31: the mark that a transaction is running is set while it runs and cleared whenever it ends, by a
  panic too: nesting another transaction in a body panics with the message of the guard, the panic
  ends the outer transaction, nothing is changed, and the thread can run transactions again.\<close>

theorem nested_transaction_panics:
  assumes "isolated_body m" and "\<not> transaction_running w me"
    and "\<And>w. \<exists>t tx1 w1. m transaction_default w = (Inr (Inr t, tx1), w1)"
    and "\<And>t tx w. f t tx w = (case Transaction_with_control_and_err cfg env me control' c' g w of
        Some (Inl flt, w') \<Rightarrow> (Inl flt, w')
      | Some (Inr r, w') \<Rightarrow> (Inr (Inr (h r), tx), w')
      | None \<Rightarrow> (Inr (Inr k, tx), w))"
  shows "\<exists>w'. Transaction_with_control_and_err cfg env me control c (and_then m f) w
      = Some (Inl NestedTransaction, w') \<and> blocks w' = blocks w \<and> \<not> transaction_running w' me"
proof -
  let ?w = "w\<lparr>transaction_running := (transaction_running w)(me := True)\<rparr>"
  obtain t tx1 w1 where m: "m transaction_default ?w = (Inr (Inr t, tx1), w1)" using assms(3) by blast
  note w1 = isolated_body.keeps_world(1,5) [OF assms(1) m]
  then have "f t tx1 w1 = (Inl NestedTransaction, w1)"
    by (simp add: assms(4) Transaction_with_control_and_err_def with_guard_nested)
  with m have "and_then m f transaction_default ?w = (Inl NestedTransaction, w1)"
    by (simp add: and_then_def)
  then have "rust_loop (with_control_and_err_body cfg env me control (and_then m f)) (transaction_default, c) ?w
      = Some (Inl NestedTransaction, w1)"
    by (intro rust_loop_stops) (simp add: with_control_and_err_body_def)
  with assms(2) w1(1) show ?thesis
    by (simp add: Transaction_with_control_and_err_def with_guard_enters)
qed

text \<open>A transaction that writes a variable and then runs a transaction that writes another one.\<close>

definition nesting_body :: "(int, string transaction_error, unit) body" where
  "nesting_body = and_then (raise_stm (Transaction_write default_config (demo_var 2) 7))
     (\<lambda>_ tx w. case Transaction_with_control_and_err default_config id 0 always_retry ()
          (raise_stm (Transaction_write default_config (demo_var 3) 8) :: (int, string transaction_error, unit) body) w of
        Some (Inl flt, w') \<Rightarrow> (Inl flt, w')
      | Some (Inr r, w') \<Rightarrow> (Inr (Inr (), tx), w')
      | None \<Rightarrow> (Inr (Inr (), tx), w))"

theorem nested_transaction_panics_witness:
  "\<exists>w'. Transaction_with_control_and_err default_config id 0 always_retry () nesting_body demo_world
      = Some (Inl NestedTransaction, w') \<and> mem w' (Block 2) = Arc 2 (Dyn 0 20)"
proof -
  have iso: "isolated_body (raise_stm (Transaction_write default_config (demo_var 2) 7) :: (int, string transaction_error, unit) body)"
    by (rule stm_body.axioms(2) [OF stm_body_raise_stm [OF write_body.stm_body_axioms]])
  have "\<exists>w'. Transaction_with_control_and_err default_config id 0 always_retry () nesting_body demo_world
      = Some (Inl NestedTransaction, w') \<and> blocks w' = blocks demo_world \<and> \<not> transaction_running w' 0"
    unfolding nesting_body_def
    by (rule nested_transaction_panics [OF iso, where h = "\<lambda>_. ()" and k = "()"])
      (auto simp: raise_stm_def Transaction_write_eq Let_def split: option.split)
  then show ?thesis by auto
qed

section \<open>Type safety\<close>

text \<open>A transaction whose variables have the types of their handles never panics with a wrong type,
  and no other way: whatever the other threads do while it is parked, as long as they store values of
  the right types, it returns a result.\<close>

theorem typed_never_panics:
  assumes "typed_body ty cfg f" and "\<not> hash_registers cfg" and "\<not> transaction_running w me"
    and "world_typed ty w" and "\<And>w. world_typed ty w \<Longrightarrow> world_typed ty (env w)"
    and "\<And>e c w. world_typed ty w \<Longrightarrow> world_typed ty (snd (snd (control e c w)))"
    and "\<And>e c w flt. fst (control e c w) \<noteq> Inl flt"
    and "Transaction_with_control_and_err cfg env me control c f w = Some (res, w')"
  shows "\<exists>r. res = Inr r"
proof -
  let ?J = "world_typed ty"
  let ?Q = "\<lambda>res w2. \<exists>r. res = Inr r"
  note stm = typed_body.axioms(1) [OF assms(1)]
  from assms(8,3) have "\<exists>w2. w' = TransactionGuard_drop me w2 \<and> ?Q res w2"
  proof (rule with_control_and_err_invariant [where J = ?J and Q = ?Q])
    show "?J (w\<lparr>transaction_running := (transaction_running w)(me := True)\<rparr>)"
      using assms(4) by (simp add: world_typed_def)
    show "memory_predicate me ?J" by (simp add: memory_predicate_def world_typed_def)
  next
    fix e c w1 r c' w2
    assume "control e c w1 = (r, c', w2)" and "?J w1"
    then show "?J w2 \<and> (\<forall>flt. r = Inl flt \<longrightarrow> ?Q (Inl flt) w2) \<and> (r = Inr ControlAbort \<longrightarrow> ?Q (Inr Abandoned) w2)"
      using assms(6) [of w1 e c] assms(7) [of e c w1] by auto
  next
    fix tx and w1 w2 :: "'a world" and r
    assume f: "f tx w1 = (r, w2)" and tx: "vars tx = []" and w1: "?J w1"
    have wf: "reg_wf cfg (vars tx)" "log_typed ty (vars tx)" by (simp_all add: tx reg_wf_def)
    obtain r' tx' where r: "r = Inr (r', tx')" using typed_body.typed [OF assms(1) wf(1) w1 wf(2)] f by auto
    have "?J w2" using typed_body.keeps_typing(2) [OF assms(1) f [unfolded r] wf(1) w1 wf(2)] .
    with r show "?J w2 \<and> (case r of Inl flt \<Rightarrow> ?Q (Inl flt) w2
        | Inr (Inl (Abort e), _) \<Rightarrow> ?Q (Inr (Cancelled e)) w2 | _ \<Rightarrow> True)"
      by (auto split: sum.split transaction_error.split)
  qed (use assms(2,5) in auto)
  then show ?thesis by blast
qed

lemma typed_raise_stm:
  assumes "typed_body ty cfg m"
  shows "typed_body ty cfg (raise_stm m)"
proof (intro typed_body.intro typed_body_axioms.intro stm_body_raise_stm typed_body.axioms(1) [OF assms])
  show "\<exists>r tx' w'. raise_stm m tx w = (Inr (r, tx'), w') \<and> log_typed ty (vars tx')"
    if "reg_wf cfg (vars tx)" "world_typed ty w" "log_typed ty (vars tx)" for tx w
    using typed_body.typed [OF assms that] by (auto simp: raise_stm_def)
qed

theorem typed_never_panics_witness:
  "\<exists>res w'. Transaction_with_control_and_err default_config id 0 always_retry () demo_read demo_world
    = Some (res, w') \<and> (\<exists>r. res = Inr r)"
proof -
  obtain res w' where run: "Transaction_with_control_and_err default_config id 0 always_retry () demo_read demo_world
    = Some (res, w')" using demo_read_run by blast
  have "typed_body (\<lambda>_. 0) default_config demo_read"
    unfolding demo_read_def
    by (intro typed_raise_stm refining_body.axioms(1) [OF refining_read]) simp
  from typed_never_panics [OF this _ _ demo_typed _ _ _ run] run show ?thesis
    by (simp add: always_retry_def)
qed

end
