(* ===== verification/Profile_Properties.thy ===== *)
theory Profile_Properties
  imports Runner_Properties
begin

text \<open>
  The routines that run a transaction against each other: the infallible ones are the fallible one on
  a body without errors of its own, the control function that always retries is no control function,
  and the profiling routines compute what the plain ones do, with counters that add up.
\<close>

section \<open>Fallible and infallible transactions\<close>

lemma with_control_body_map:
  "with_control_body cfg env me control f s w =
     map_option (\<lambda>(x, w). (map_sum id (map_sum validated id) x, w))
       (with_control_and_err_body cfg env me control (raise_stm f) s w)"
proof -
  obtain tx c where s: "s = (tx, c)" by (cases s)
  show ?thesis
  proof (cases "f tx w")
    case (Pair res w1)
    consider (flt) flt where "res = Inl flt" | (ok) t tx' where "res = Inr (Inr t, tx')"
      | (err) e tx' where "res = Inr (Inl e, tx')"
      by (metis old.prod.exhaust sumE)
    then show ?thesis
    proof cases
      case ok
      then show ?thesis
        using commit_or_clear_map [of cfg validated "Validated t" tx' c w1]
        by (simp add: s Pair with_control_body_def with_control_and_err_body_def raise_stm_def)
    next
      case err
      obtain d c' w2 where d: "control e c w1 = (d, c', w2)" by (metis prod_cases3)
      show ?thesis
        using err d
        by (auto simp: s Pair with_control_body_def with_control_and_err_body_def raise_stm_def
            intro!: wait_and_clear_map split: sum.split transaction_control.split)
    qed (simp add: s Pair with_control_body_def with_control_and_err_body_def raise_stm_def)
  qed
qed

text \<open>\<open>with_control\<close> is \<open>with_control_and_err\<close> on a body that raises no error of its own: it returns
  \<open>Some\<close> of a validated result and \<open>None\<close> for an abandoned transaction, with the same panics and the
  same effect, and it returns if and only if the other does.\<close>

lemma with_control_is_with_control_and_err:
  "Transaction_with_control cfg env me control c f w =
     map_option (\<lambda>(res, w). (map_sum id validated res, w))
       (Transaction_with_control_and_err cfg env me control c (raise_stm f) w)"
  unfolding Transaction_with_control_def Transaction_with_control_and_err_def
  unfolding with_guard_map [symmetric]
  by (rule arg_cong [where f = "\<lambda>scope. with_guard me scope w"])
    (rule ext, rule rust_loop_map [OF with_control_body_map])

lemma with_err_body_map:
  assumes "wait_on_retry cfg \<Longrightarrow> (\<And>tx w tx' w'. f tx w \<noteq> (Inr (Inl (Stm Failure), tx'), w'))"
  shows "with_control_and_err_body cfg env me always_retry f s w =
     map_option (\<lambda>(x, w). (map_sum id (map_sum (case_sum Cancelled Validated) id) x, w))
       (with_err_body cfg env me f s w)"
proof -
  obtain tx c where s: "s = (tx, c)" by (cases s)
  show ?thesis
  proof (cases "f tx w")
    case (Pair res w1)
    consider (flt) flt where "res = Inl flt" | (ok) t tx' where "res = Inr (Inr t, tx')"
      | (abort) e tx' where "res = Inr (Inl (Abort e), tx')" | (stm) e tx' where "res = Inr (Inl (Stm e), tx')"
      by (metis old.prod.exhaust sumE transaction_error.exhaust)
    then show ?thesis
    proof cases
      case ok
      then show ?thesis
        using commit_or_clear_map [of cfg "case_sum Cancelled Validated" "Inr t" tx' c w1]
        by (simp add: s Pair with_err_body_def with_control_and_err_body_def)
    next
      case stm
      have "wait_on_retry cfg \<Longrightarrow> e = Retry"
        using assms [of tx w tx' w1] Pair stm by (cases e) auto
      then have "(wait_on_retry cfg \<and> e = Retry) = wait_on_retry cfg" by blast
      with stm show ?thesis
        by (auto simp: s Pair with_err_body_def with_control_and_err_body_def always_retry_def
            intro!: wait_and_clear_map)
    qed (simp_all add: s Pair with_err_body_def with_control_and_err_body_def)
  qed
qed

text \<open>\<open>with_err\<close> is \<open>with_control_and_err\<close> with the control function that always retries, unless
  the body can end with \<open>Failure\<close>: then \<open>with_err\<close> waits for a change before the next attempt, where
  all other routines retry at once.\<close>

theorem with_err_is_with_control_and_err:
  assumes "wait_on_retry cfg \<Longrightarrow> (\<And>tx w tx' w'. f tx w \<noteq> (Inr (Inl (Stm Failure), tx'), w'))"
  shows "Transaction_with_control_and_err cfg env me always_retry () f w =
     map_option (\<lambda>(res, w). (map_sum id (case_sum Cancelled Validated) res, w))
       (Transaction_with_err cfg env me f w)"
  unfolding Transaction_with_err_def Transaction_with_control_and_err_def with_guard_map [symmetric]
  by (rule arg_cong [where f = "\<lambda>scope. with_guard me scope w"])
    (rule ext, rule rust_loop_map [OF with_err_body_map [OF assms]])

text \<open>With the default features a read never fails.\<close>

lemma demo_read_no_failure: "demo_read tx w \<noteq> (Inr (Inl (Stm Failure), tx'), w')"
  by (auto simp: demo_read_def raise_stm_def Transaction_read_eq early_conflict_iff Let_def
      split: prod.splits sum.splits)

theorem with_err_is_with_control_and_err_witness:
  "\<exists>w'. Transaction_with_err default_config id 0 demo_read demo_world = Some (Inr (Inr 20), w')"
proof -
  have "Transaction_with_control_and_err default_config id 0 always_retry () demo_read demo_world =
     map_option (\<lambda>(res, w). (map_sum id (case_sum Cancelled Validated) res, w))
       (Transaction_with_err default_config id 0 demo_read demo_world)"
    by (rule with_err_is_with_control_and_err) (rule demo_read_no_failure)
  with demo_read_run show ?thesis
    by (cases "Transaction_with_err default_config id 0 demo_read demo_world")
      (auto simp: map_sum_def split: sum.splits)
qed

text \<open>A body that fails once although nothing it read has changed.\<close>

definition fail_first :: "('v, 'e transaction_error, nat) body" where
  "fail_first tx w = (if clock w = 0 then (Inr (Inl (Stm Failure), tx), w\<lparr>clock := 1\<rparr>)
     else (Inr (Inr (clock w), tx), w))"

text \<open>C38: with a body that fails once although nothing it read has changed, \<open>with_err\<close> parks and never
  returns, where \<open>with_control_and_err\<close> makes the next attempt and returns its result.\<close>

theorem with_err_waits_on_failure:
  assumes "wait_on_retry cfg" and "\<not> transaction_running w me" and "clock w = 0"
    and "\<And>w. ctrls (env w) = ctrls w"
  shows "Transaction_with_err cfg env me (fail_first :: ('v, 'e transaction_error, nat) body) w = None \<and>
    (\<exists>w'. Transaction_with_control_and_err cfg env me always_retry () (fail_first :: ('v, 'e transaction_error, nat) body) w = Some (Inr (Validated 1), w'))"
proof
  let ?f = "fail_first :: ('v, 'e transaction_error, nat) body"
  let ?w = "w\<lparr>transaction_running := (transaction_running w)(me := True)\<rparr>"
  have f: "?f transaction_default ?w = (Inr (Inl (Stm Failure), transaction_default), ?w\<lparr>clock := 1\<rparr>)"
    using assms(3) by (simp add: fail_first_def)
  have "Transaction_wait_for_change cfg env me transaction_default (?w\<lparr>clock := 1\<rparr>) = None"
    by (rule solo_wait_blocks) (simp_all add: reg_wf_def keys_live_def assms(4))
  then have "rust_loop (with_err_body cfg env me ?f) (transaction_default, ()) ?w = None"
    by (intro rust_loop_stops) (simp add: with_err_body_def f wait_and_clear_def assms(1))
  then show "Transaction_with_err cfg env me ?f w = None"
    using assms(2) by (simp add: Transaction_with_err_def with_guard_enters)
  let ?body = "with_control_and_err_body cfg env me always_retry ?f"
  have 1: "?body (transaction_default, ()) ?w =
      Some (Inr (Inr (transaction_default\<lparr>vars := []\<rparr>, ())), ?w\<lparr>clock := 1\<rparr>)"
    by (simp add: with_control_and_err_body_def f always_retry_def wait_and_clear_def Transaction_clear_def)
  obtain w' where 2: "?body (transaction_default\<lparr>vars := []\<rparr>, ()) (?w\<lparr>clock := 1\<rparr>) =
      Some (Inr (Inl (Validated 1)), w')"
    by (simp add: with_control_and_err_body_def fail_first_def commit_or_clear_def Transaction_commit_eq
        reg_wf_def keys_live_def log_valid_def)
  have "rust_loop ?body (transaction_default, ()) ?w = Some (Inr (Validated 1), w')"
    unfolding rust_loop_continues [where body = ?body and s = "(transaction_default, ())" and w = ?w, OF 1]
    by (rule rust_loop_stops(3) [where body = ?body and s = "(transaction_default\<lparr>vars := []\<rparr>, ())"
          and w = "?w\<lparr>clock := 1\<rparr>" and r = "Validated 1", OF 2])
  then show "\<exists>w'. Transaction_with_control_and_err cfg env me always_retry () ?f w = Some (Inr (Validated 1), w')"
    using assms(2) by (simp add: Transaction_with_control_and_err_def with_guard_enters)
qed

theorem with_err_waits_on_failure_witness:
  "Transaction_with_err default_config id 0 (fail_first :: (int, string transaction_error, nat) body) demo_world = None"
  by (rule with_err_waits_on_failure [THEN conjunct1]) simp_all

section \<open>Profiling\<close>

text \<open>A body that does not look at the counters: what it does depends on the log and the world only.\<close>

definition forget :: "(fault + 'r \<times> 'v transaction) \<times> 'v world \<Rightarrow> (fault + 'r \<times> 'v arc register) \<times> 'v world" where
  "forget = map_prod (map_sum id (map_prod id vars)) id"

lemma forget_simps [simp]:
  "forget (Inl flt, w) = (Inl flt, w)" "forget (Inr (r, tx), w) = (Inr (r, vars tx), w)"
  by (simp_all add: forget_def)

lemma forget_fault [simp]: "forget (res, w) = (Inl flt, w') \<longleftrightarrow> res = Inl flt \<and> w = w'"
  by (cases res) (auto simp: forget_def)

lemma forget_eqD:
  assumes "forget (res, w) = forget (res', w')"
  shows "w' = w" and "res = Inl flt \<Longrightarrow> res' = Inl flt"
    and "res = Inr (r, tx) \<Longrightarrow> \<exists>tx'. res' = Inr (r, tx') \<and> vars tx' = vars tx"
proof -
  show "w' = w" using assms by (simp add: forget_def)
  show "res = Inl flt \<Longrightarrow> res' = Inl flt" using assms by (cases res') (auto simp: forget_def)
  show "res = Inr (r, tx) \<Longrightarrow> \<exists>tx'. res' = Inr (r, tx') \<and> vars tx' = vars tx"
    using assms by (cases res') (auto simp: forget_def)
qed

locale blind_body =
  fixes m :: "('v, 'e, 't) body"
  assumes blind: "vars tx = vars tx' \<Longrightarrow> forget (m tx w) = forget (m tx' w)"
begin

lemma forgotten: "vars tx = vars tx' \<Longrightarrow> m tx w = (Inl flt, w1) \<Longrightarrow> m tx' w = (Inl flt, w1)"
  using blind [of tx' tx w] by (cases "m tx' w") simp

lemma kept:
  assumes "vars tx = vars tx'" and "m tx w = (Inr (r, tx1), w1)"
  shows "\<exists>tx1'. m tx' w = (Inr (r, tx1'), w1) \<and> vars tx1' = vars tx1"
proof (cases "m tx' w")
  case (Pair res' w1')
  with blind [OF assms(1), of w] assms(2) have "forget (Inr (r, tx1), w1) = forget (res', w1')" by simp
  note eq = forget_eqD(1,3) [OF this]
  from Pair eq(1) eq(2) [OF refl] show ?thesis by auto
qed

end

lemma blind_same:
  assumes "blind_body m" and "vars tx = vars tx'"
  obtains (fault) flt w1 where "m tx w = (Inl flt, w1)" "m tx' w = (Inl flt, w1)"
  | (result) r tx1 tx1' w1 where "m tx w = (Inr (r, tx1), w1)" "m tx' w = (Inr (r, tx1'), w1)"
      "vars tx1' = vars tx1"
proof (cases "m tx w")
  case (Pair res w1)
  show thesis
  proof (cases res)
    case (Inl flt)
    with Pair blind_body.forgotten [OF assms] fault show ?thesis by blast
  next
    case (Inr rt)
    with Pair have run: "m tx w = (Inr (fst rt, snd rt), w1)" by simp
    from blind_body.kept [OF assms run] run result show ?thesis by blast
  qed
qed

lemma entry_of_cong: "vars tx = vars tx' \<Longrightarrow> entry_of var tx w = entry_of var tx' w"
  by (simp add: entry_of_def)

lemma blind_access:
  assumes "\<And>tx w. m tx w = (if p (entry_of var tx w) w then (Inr (Inl e, counted cfg f var tx), g w)
      else case d (LogVar_current (entry_of var tx w)) of Inl flt \<Rightarrow> (Inl flt, g w)
        | Inr v \<Rightarrow> (Inr (Inr (r v), set_entry cfg var (l v w (entry_of var tx w)) (counted cfg f var tx)), h w))"
  shows "blind_body m"
proof
  fix tx tx' :: "'a transaction" and w :: "'a world"
  assume vs: "vars tx = vars tx'"
  show "forget (m tx w) = forget (m tx' w)"
    unfolding assms entry_of_cong [OF vs] by (auto simp: vs split: sum.split)
qed

interpretation blind_read: blind_body "Transaction_read cfg var" for cfg var
  by (rule blind_access [where p = "early_conflict cfg var" and d = "downcast (marker var)" and e = Failure
        and cfg = cfg and var = var and f = "n_read_update (\<lambda>n. n + 1)" and r = "\<lambda>v. v" and g = "\<lambda>w. w" and h = "\<lambda>w. w" and l = "\<lambda>_ _ l. snd (LogVar_read l)"])
    (simp add: Transaction_read_eq Let_def)

interpretation blind_write: blind_body "Transaction_write cfg var v" for cfg var v
  by unfold_locales (simp add: Transaction_write_eq Let_def)

interpretation blind_modify: blind_body "Transaction_modify cfg var f" for cfg var f
  by (rule blind_access [where p = "early_conflict cfg var" and d = "downcast (marker var)" and e = Failure
        and cfg = cfg and var = var and f = "n_write_update (\<lambda>n. n + 1)" and r = "\<lambda>_. ()" and g = "\<lambda>w. w" and h = "\<lambda>w. w\<lparr>next_arc := Suc (next_arc w)\<rparr>"
        and l = "\<lambda>v w l. LogVar_write (Arc (next_arc w) (Dyn (marker var) (f v))) (snd (LogVar_read l))"])
    (simp add: Transaction_modify_eq Let_def)

interpretation blind_exchange: blind_body "Transaction_exchange cfg var v" for cfg var v
  by (rule blind_access [where p = "early_conflict cfg var" and d = "downcast (marker var)" and e = Failure
        and cfg = cfg and var = var and f = "n_write_update (\<lambda>n. n + 1)" and r = "\<lambda>v. v" and g = "\<lambda>w. w\<lparr>next_arc := Suc (next_arc w)\<rparr>"
        and h = "\<lambda>w. w\<lparr>next_arc := Suc (next_arc w)\<rparr>"
        and l = "\<lambda>_ w l. LogVar_write (Arc (next_arc w) (Dyn (marker var) v)) (snd (LogVar_read l))"])
    (simp add: Transaction_exchange_eq Let_def)

interpretation blind_result: blind_body "lift_result r" for r
  by unfold_locales (simp add: lift_result_def)

lemma blind_raise_stm:
  assumes "blind_body m"
  shows "blind_body (raise_stm m)"
proof
  fix tx tx' :: "'a transaction" and w :: "'a world"
  assume vs: "vars tx = vars tx'"
  show "forget (raise_stm m tx w) = forget (raise_stm m tx' w)"
    by (cases rule: blind_same [OF assms vs, of w]) (simp_all add: raise_stm_def)
qed

lemma blind_and_then:
  assumes "blind_body m" and "\<And>t. blind_body (f t)"
  shows "blind_body (and_then m f)"
proof
  fix tx tx' :: "'a transaction" and w :: "'a world"
  assume vs: "vars tx = vars tx'"
  show "forget (and_then m f tx w) = forget (and_then m f tx' w)"
  proof (cases rule: blind_same [OF assms(1) vs, of w, case_names fault result])
    case (result r tx1 tx1' w1)
    then show ?thesis
      using blind_body.blind [OF assms(2) result(3) [symmetric]]
      by (cases r) (simp_all add: and_then_def)
  qed (simp add: and_then_def)
qed

lemma blind_or:
  assumes "blind_body m" and "blind_body m'"
  shows "blind_body (Transaction_or cfg m m')"
proof
  fix tx tx' :: "'a transaction" and w :: "'a world"
  assume vs: "vars tx = vars tx'"
  show "forget (Transaction_or cfg m m' tx w) = forget (Transaction_or cfg m m' tx' w)"
  proof (cases rule: blind_same [OF assms(1) vs, of w, case_names fault result])
    case (result r tx1 tx1' w1)
    show ?thesis
    proof (cases "r = Inl Retry")
      case False
      with result show ?thesis by (simp add: Transaction_or_first [of m])
    next
      case True
      have vs2: "vars (tx1\<lparr>vars := vars tx\<rparr>) = vars (tx1'\<lparr>vars := vars tx'\<rparr>)" by (simp add: vs)
      note or1 = Transaction_or_Retry [of m tx w tx1 w1 cfg m'] Transaction_or_Retry [of m tx' w tx1' w1 cfg m']
      show ?thesis
        using result True by (cases rule: blind_same [OF assms(2) vs2, of w1]) (simp_all add: or1)
    qed
  qed (simp add: Transaction_or_def)
qed

end
