(* ===== verification/Tally_Properties.thy ===== *)
theory Tally_Properties
  imports Profile_Properties
begin

text \<open>
  The profiling routines: they compute what the plain routines compute, and their counters add up.
\<close>

section \<open>Profiling does not change a transaction\<close>

abbreviation same_state :: "'v transaction \<times> 'c \<Rightarrow> 'v world \<Rightarrow> 'v transaction \<times> 'c \<Rightarrow> 'v world \<Rightarrow> bool" where
  "same_state s w t v \<equiv> vars (fst s) = vars (fst t) \<and> snd s = snd t \<and> w = v"

text \<open>The iterations of a profiling loop and of a plain one correspond.\<close>

abbreviation same_iteration ::
  "((fault + ('r \<times> tallies + 'v transaction \<times> 'c)) \<times> 'v world) option \<Rightarrow>
   ((fault + ('r + 'v transaction \<times> 'c)) \<times> 'v world) option \<Rightarrow> bool" where
  "same_iteration \<equiv> rel_option (\<lambda>(x, w) (y, v). rel_sum (\<lambda>a b. a = b \<and> w = v)
     (rel_sum (\<lambda>a b. fst a = b \<and> w = v) (\<lambda>s t. same_state s w t v)) x y)"

lemma vars_tally [simp]: "vars (tally f tx) = vars tx" "vars (tally_error e tx) = vars tx"
  by (simp_all add: tally_def tally_error_def split: stm_error.split)

lemma commit_cong: "vars tx = vars tx' \<Longrightarrow> Transaction_commit cfg tx w = Transaction_commit cfg tx' w"
  by (simp add: Transaction_commit_def)

lemma commit_or_clear_same:
  "vars tx = vars tx' \<Longrightarrow> same_iteration (commit_or_clear cfg (r, ts) tx c w) (commit_or_clear cfg r tx' c w)"
  by (cases rule: Transaction_commit_cases [of cfg tx' w])
    (simp_all add: commit_or_clear_def commit_cong [of tx tx'] Transaction_clear_def)

lemma wait_same:
  assumes "vars tx = vars tx'"
  shows "Transaction_wait_for_change cfg env me tx w =
    map_option (\<lambda>(x, w). (map_sum id (\<lambda>_. tx\<lparr>vars := []\<rparr>) x, w)) (Transaction_wait_for_change cfg env me tx' w)"
  by (auto simp: Transaction_wait_for_change_def assms Let_def option.map_comp o_def
      split: prod.split sum.split option.split)

lemma wait_and_clear_same:
  assumes "vars tx = vars tx'"
  shows "same_iteration (wait_and_clear cfg env me waits tx c w) (wait_and_clear cfg env me waits tx' c w)"
  unfolding wait_and_clear_def wait_same [OF assms]
  by (cases "Transaction_wait_for_change cfg env me tx' w")
    (auto simp: Transaction_clear_def split: sum.split)

lemma profile_with_control_and_err_body_same:
  assumes "blind_body f" and "same_state s w t v"
  shows "same_iteration (profile_with_control_and_err_body cfg env me control f s w)
    (with_control_and_err_body cfg env me control f t v)"
proof -
  obtain tx c where s: "s = (tx, c)" by (cases s)
  obtain tx' where t: "t = (tx', c)" and vs: "vars (tally (n_attempts_update (\<lambda>n. n + 1)) tx) = vars tx'"
    and v: "v = w" using assms(2) s by (cases t) auto
  show ?thesis
  proof (cases rule: blind_same [OF assms(1) vs, of w, case_names fault result])
    case fault
    then show ?thesis
      by (simp add: s t v profile_with_control_and_err_body_def with_control_and_err_body_def)
  next
    case (result r tx1 tx1' w1)
    consider (ok) x where "r = Inr x" | (abort) e where "r = Inl (Abort e)" | (stm) e where "r = Inl (Stm e)"
      by (metis sumE transaction_error.exhaust)
    then show ?thesis
    proof cases
      case ok
      with result commit_or_clear_same [of tx1 tx1'] show ?thesis
        by (simp add: s t v profile_with_control_and_err_body_def with_control_and_err_body_def)
    next
      case abort
      with result show ?thesis
        by (simp add: s t v profile_with_control_and_err_body_def with_control_and_err_body_def)
    next
      case stm
      obtain d c' w2 where "control e c w1 = (d, c', w2)" by (metis prod_cases3)
      with result stm wait_and_clear_same [of "tally_error e tx1" tx1'] show ?thesis
        by (auto simp: s t v profile_with_control_and_err_body_def with_control_and_err_body_def Let_def
            split: sum.split transaction_control.split)
    qed
  qed
qed

lemma profile_with_err_body_same:
  assumes "blind_body f" and "same_state s w t v"
  shows "same_iteration (profile_with_err_body cfg env me f s w) (with_err_body cfg env me f t v)"
proof -
  obtain tx c where s: "s = (tx, c)" by (cases s)
  obtain tx' where t: "t = (tx', c)" and vs: "vars (tally (n_attempts_update (\<lambda>n. n + 1)) tx) = vars tx'"
    and v: "v = w" using assms(2) s by (cases t) auto
  show ?thesis
  proof (cases rule: blind_same [OF assms(1) vs, of w, case_names fault result])
    case fault
    then show ?thesis by (simp add: s t v profile_with_err_body_def with_err_body_def)
  next
    case (result r tx1 tx1' w1)
    note defs = s t v profile_with_err_body_def with_err_body_def
    consider (ok) x where "r = Inr x" | (abort) e where "r = Inl (Abort e)" | (stm) e where "r = Inl (Stm e)"
      by (metis sumE transaction_error.exhaust)
    then show ?thesis
    proof cases
      case ok
      have "profile_with_err_body cfg env me f s w = commit_or_clear cfg (Inr x, tallies_of tx1) tx1 c w1"
        "with_err_body cfg env me f t v = commit_or_clear cfg (Inr x) tx1' c w1"
        using result ok by (simp_all add: defs)
      then show ?thesis using commit_or_clear_same [OF result(3) [symmetric]] by (simp only:)
    next
      case abort
      with result show ?thesis by (simp add: defs)
    next
      case stm
      have "profile_with_err_body cfg env me f s w = wait_and_clear cfg env me (wait_on_retry cfg) (tally_error e tx1) c w1"
        "with_err_body cfg env me f t v = wait_and_clear cfg env me (wait_on_retry cfg) tx1' c w1"
        using result stm by (simp_all add: defs)
      moreover have same: "vars (tally_error e tx1) = vars tx1'" by (simp add: result(3))
      ultimately show ?thesis using wait_and_clear_same [OF same] by (simp only:)
    qed
  qed
qed

lemma profile_with_control_body_same:
  assumes "blind_body f" and "same_state s w t v"
  shows "same_iteration (profile_with_control_body cfg env me control f s w) (with_control_body cfg env me control f t v)"
proof -
  obtain tx c where s: "s = (tx, c)" by (cases s)
  obtain tx' where t: "t = (tx', c)" and vs: "vars (tally (n_attempts_update (\<lambda>n. n + 1)) tx) = vars tx'"
    and v: "v = w" using assms(2) s by (cases t) auto
  note defs = s t v profile_with_control_body_def with_control_body_def
  show ?thesis
  proof (cases rule: blind_same [OF assms(1) vs, of w, case_names fault result])
    case fault
    then show ?thesis by (simp add: defs)
  next
    case (result r tx1 tx1' w1)
    show ?thesis
    proof (cases r)
      case (Inr x)
      with result commit_or_clear_same [of tx1 tx1'] show ?thesis by (simp add: defs)
    next
      case (Inl e)
      obtain d c' w2 where "control e c w1 = (d, c', w2)" by (metis prod_cases3)
      with result Inl wait_and_clear_same [of "tally_error e tx1" tx1'] show ?thesis
        by (auto simp: defs Let_def split: sum.split transaction_control.split)
    qed
  qed
qed

lemma loop_same:
  assumes "\<And>s w t v. same_state s w t v \<Longrightarrow> same_iteration (body s w) (body' t v)"
  shows "map_option (\<lambda>(res, w). (map_sum id fst res, w)) (with_guard me (rust_loop body (tx, c)) w) =
    with_guard me (rust_loop body' (tx, c)) w"
proof -
  have "map_option (\<lambda>(res, w). (map_sum id fst res, w)) (rust_loop body (tx, c) w) = rust_loop body' (tx, c) w" for w
  proof -
    have "rel_option (\<lambda>(x, w) (y, v). rel_sum (=) (\<lambda>a b. fst a = b) x y \<and> w = v)
        (rust_loop body (tx, c) w) (rust_loop body' (tx, c) w)"
      by (rule rust_loop_bisimilar [where R = same_state]) (simp_all add: assms)
    then show ?thesis
      by (cases "rust_loop body (tx, c) w"; cases "rust_loop body' (tx, c) w") (auto elim!: rel_sum.cases)
  qed
  then show ?thesis by (simp add: with_guard_map [symmetric])
qed

lemma profile_with_control_same:
  assumes "blind_body g"
  shows "map_option (\<lambda>(res, w). (map_sum id fst res, w)) (Transaction_profile_with_control cfg env me control c g w) =
    Transaction_with_control cfg env me control c g w"
  unfolding Transaction_profile_with_control_def Transaction_with_control_def
  by (rule loop_same) (rule profile_with_control_body_same [OF assms])

lemma profile_with_same:
  assumes "blind_body g"
  shows "map_option (\<lambda>(res, w). (map_sum id fst res, w)) (Transaction_profile_with cfg env me g w) =
    Transaction_with cfg env me g w"
  unfolding Transaction_profile_with_def Transaction_with_def profile_with_control_same [OF assms, symmetric]
  by (auto split: option.split sum.split)

text \<open>C36: with a body that does not look at the counters, each of the four profiling functions returns what the
  plain function returns, with the counters besides, and has the same effect on the shared state; it
  returns if and only if the plain one does, and it panics if and only if that does.  Here \<open>f\<close> is a fallible
  body and \<open>g\<close> an infallible one.\<close>

theorem profiling_is_transparent:
  assumes "blind_body f" and "blind_body g"
  shows "map_option (\<lambda>(res, w). (map_sum id fst res, w))
      (Transaction_profile_with_control_and_err cfg env me control c f w) =
      Transaction_with_control_and_err cfg env me control c f w
    \<and> map_option (\<lambda>(res, w). (map_sum id fst res, w)) (Transaction_profile_with_err cfg env me f w) =
      Transaction_with_err cfg env me f w
    \<and> map_option (\<lambda>(res, w). (map_sum id fst res, w)) (Transaction_profile_with_control cfg env me control c g w) =
      Transaction_with_control cfg env me control c g w
    \<and> map_option (\<lambda>(res, w). (map_sum id fst res, w)) (Transaction_profile_with cfg env me g w) =
      Transaction_with cfg env me g w"
proof (intro conjI)
  show "map_option (\<lambda>(res, w). (map_sum id fst res, w)) (Transaction_profile_with_control_and_err cfg env me control c f w) =
      Transaction_with_control_and_err cfg env me control c f w"
    unfolding Transaction_profile_with_control_and_err_def Transaction_with_control_and_err_def
    by (rule loop_same) (rule profile_with_control_and_err_body_same [OF assms(1)])
  show "map_option (\<lambda>(res, w). (map_sum id fst res, w)) (Transaction_profile_with_err cfg env me f w) =
      Transaction_with_err cfg env me f w"
    unfolding Transaction_profile_with_err_def Transaction_with_err_def
    by (rule loop_same) (rule profile_with_err_body_same [OF assms(1)])
qed (rule profile_with_control_same [OF assms(2)] profile_with_same [OF assms(2)])+

lemma blind_demo_read: "blind_body demo_read"
  unfolding demo_read_def by (rule blind_raise_stm [OF blind_read.blind_body_axioms])

theorem profiling_is_transparent_witness:
  "\<exists>ts w'. Transaction_profile_with_control_and_err default_config id 0 always_retry () demo_read demo_world
     = Some (Inr (Validated 20, ts), w')"
  using profiling_is_transparent [OF blind_demo_read blind_result.blind_body_axioms [of "Inr 0 :: stm_error + nat"], of default_config id 0 always_retry "()" demo_world]
    demo_read_run
  by (cases "Transaction_profile_with_control_and_err default_config id 0 always_retry () demo_read demo_world")
    (auto simp: map_sum_def split: sum.splits)

section \<open>The counters add up\<close>

text \<open>A body does not touch the counters of the routines that run it.\<close>

definition run_counters :: "'v transaction \<Rightarrow> 64 word \<times> 64 word \<times> 64 word" where
  "run_counters tx = (n_attempts (tallies_of tx), n_retry (tallies_of tx), n_error (tallies_of tx))"

locale counting_body =
  fixes m :: "('v, 'e, 't) body"
  assumes keeps_counters: "m tx w = (Inr (r, tx'), w') \<Longrightarrow> run_counters tx' = run_counters tx"

lemma run_counters_set_entry [simp]: "run_counters (set_entry cfg var l tx) = run_counters tx"
  by (simp add: run_counters_def set_entry_def)

lemma run_counters_count_access [simp]: "run_counters (count_access cfg l tx) = run_counters tx"
  by (cases l) (simp_all add: run_counters_def count_access_def count_def)

lemma run_counters_count [simp]:
  "run_counters (count cfg (n_read_update g) tx) = run_counters tx"
  "run_counters (count cfg (n_write_update g) tx) = run_counters tx"
  by (simp_all add: run_counters_def count_def)

lemma run_counters_counted [simp]:
  "run_counters (counted cfg (n_read_update g) var tx) = run_counters tx"
  "run_counters (counted cfg (n_write_update g) var tx) = run_counters tx"
  by (simp_all add: counted_def split: option.split)

interpretation counting_read: counting_body "Transaction_read cfg var" for cfg var
  by unfold_locales (auto simp: Transaction_read_eq Let_def split: if_splits sum.splits)

interpretation counting_write: counting_body "Transaction_write cfg var v" for cfg var v
  by unfold_locales (auto simp: Transaction_write_eq Let_def)

interpretation counting_modify: counting_body "Transaction_modify cfg var f" for cfg var f
  by unfold_locales (auto simp: Transaction_modify_eq Let_def split: if_splits sum.splits)

interpretation counting_exchange: counting_body "Transaction_exchange cfg var v" for cfg var v
  by unfold_locales (auto simp: Transaction_exchange_eq Let_def split: if_splits sum.splits)

lemma counting_raise_stm: "counting_body m \<Longrightarrow> counting_body (raise_stm m)"
  by (fastforce simp: counting_body_def raise_stm_def split: prod.splits sum.splits)

lemma wait_and_clear_tallies:
  assumes "wait_and_clear cfg env me waits tx c w = Some (out, w')"
  shows "out = Inr (Inr (tx\<lparr>vars := []\<rparr>, c)) \<or> out = Inl DanglingBlock"
  using wait_and_clear_cases(2) [OF assms, of "\<lambda>_. True"] by (auto simp: memory_predicate_def)

lemma profile_iteration_counts:
  assumes "counting_body f"
    and "\<And>tx w t tx' w'. vars tx = [] \<Longrightarrow> f tx w = (Inr (Inr t, tx'), w') \<Longrightarrow>
      fst (Transaction_commit cfg tx' w') \<noteq> Inr False"
    and "vars tx = []" and "n_attempts (tallies_of tx) = n_retry (tallies_of tx) + n_error (tallies_of tx)"
    and it: "profile_with_control_and_err_body cfg env me control f (tx, c) w = Some (out, w1)"
  shows "case out of Inl flt \<Rightarrow> True
    | Inr (Inl (res, ts)) \<Rightarrow> n_attempts ts = n_retry ts + n_error ts + (if res = Abandoned then 0 else 1)
    | Inr (Inr (tx', c')) \<Rightarrow> vars tx' = [] \<and> n_attempts (tallies_of tx') = n_retry (tallies_of tx') + n_error (tallies_of tx')"
proof -
  let ?tx = "tally (n_attempts_update (\<lambda>n. n + 1)) tx"
  have tx: "run_counters ?tx = (n_retry (tallies_of tx) + n_error (tallies_of tx) + 1,
      n_retry (tallies_of tx), n_error (tallies_of tx))"
    by (simp add: run_counters_def tally_def assms(4))
  show ?thesis
  proof (cases "f ?tx w")
    case (Pair r w0)
    consider (flt) flt where "r = Inl flt" | (ok) x tx' where "r = Inr (Inr x, tx')"
      | (abort) e tx' where "r = Inr (Inl (Abort e), tx')" | (stm) e tx' where "r = Inr (Inl (Stm e), tx')"
      by (metis old.prod.exhaust sumE transaction_error.exhaust)
    then show ?thesis
    proof cases
      case flt
      with it Pair show ?thesis by (auto simp: profile_with_control_and_err_body_def)
    next
      case ok
      with Pair have run: "f ?tx w = (Inr (Inr x, tx'), w0)" by simp
      with it have "commit_or_clear cfg (Validated x, tallies_of tx') tx' c w0 = Some (out, w1)"
        by (simp add: profile_with_control_and_err_body_def)
      moreover have "run_counters tx' = run_counters ?tx" by (rule counting_body.keeps_counters [OF assms(1) run])
      ultimately show ?thesis
        using assms(2) [OF _ run] assms(3) tx
        by (cases rule: Transaction_commit_cases [of cfg tx' w0])
          (auto simp: commit_or_clear_def run_counters_def)
    next
      case abort
      with Pair have run: "f ?tx w = (Inr (Inl (Abort e), tx'), w0)" by simp
      have "run_counters tx' = run_counters ?tx" by (rule counting_body.keeps_counters [OF assms(1) run])
      with it run tx show ?thesis by (auto simp: profile_with_control_and_err_body_def run_counters_def)
    next
      case stm
      with Pair have run: "f ?tx w = (Inr (Inl (Stm e), tx'), w0)" by simp
      have counters: "run_counters tx' = run_counters ?tx" by (rule counting_body.keeps_counters [OF assms(1) run])
      let ?tx' = "tally_error e tx'"
      have balanced: "n_attempts (tallies_of ?tx') = n_retry (tallies_of ?tx') + n_error (tallies_of ?tx')"
        using counters tx by (cases e) (simp_all add: tally_error_def tally_def run_counters_def algebra_simps)
      obtain d c' w2 where ctl: "control e c w0 = (d, c', w2)" by (metis prod_cases3)
      consider "\<exists>flt. out = Inl flt" | "out = Inr (Inl (Abandoned, tallies_of ?tx'))"
        | "wait_and_clear cfg env me (wait_on_retry cfg \<and> e = Retry) ?tx' c' w2 = Some (out, w1)"
        using it run ctl
        by (auto simp: profile_with_control_and_err_body_def Let_def split: sum.splits transaction_control.splits)
      then show ?thesis
      proof cases
        case 3
        from wait_and_clear_tallies [OF 3] balanced show ?thesis by auto
      qed (use balanced in auto)
    qed
  qed
qed

text \<open>C37: when no attempt of a transaction fails to commit, the counters that \<open>profile_with_control_and_err\<close>
  returns add up, modulo the width of the counters: every attempt but the last ended with \<open>retry\<close> or an
  error, and so did the last one iff the transaction was abandoned.\<close>

theorem profile_counts_attempts:
  assumes "counting_body f"
    and "\<And>tx w t tx' w'. vars tx = [] \<Longrightarrow> f tx w = (Inr (Inr t, tx'), w') \<Longrightarrow>
      fst (Transaction_commit cfg tx' w') \<noteq> Inr False"
    and "Transaction_profile_with_control_and_err cfg env me control c f w = Some (Inr (res, ts), w')"
  shows "n_attempts ts = n_retry ts + n_error ts + (if res = Abandoned then 0 else 1)"
proof -
  let ?Q = "\<lambda>r w. case r of Inl flt \<Rightarrow> True
    | Inr (res, ts) \<Rightarrow> n_attempts ts = n_retry ts + n_error ts + (if res = Abandoned then 0 else 1)"
  let ?I = "\<lambda>(tx, c) w. vars tx = [] \<and> n_attempts (tallies_of tx) = n_retry (tallies_of tx) + n_error (tallies_of tx)"
  from assms(3) obtain w1 w2 where
    loop: "rust_loop (profile_with_control_and_err_body cfg env me control f) (transaction_default, c) w1 =
      Some (Inr (res, ts), w2)"
    by (auto simp: Transaction_profile_with_control_and_err_def with_guard_def split: prod.splits sum.splits)
  have "?Q (Inr (res, ts) :: fault + _) w2"
  proof (rule rust_loop_invariant [OF loop, where I = ?I])
    fix s :: "'a transaction \<times> 'd" and w out w1
    assume I: "?I s w" and it: "profile_with_control_and_err_body cfg env me control f s w = Some (out, w1)"
    have "case out of Inl flt \<Rightarrow> True
      | Inr (Inl (res, ts)) \<Rightarrow> n_attempts ts = n_retry ts + n_error ts + (if res = Abandoned then 0 else 1)
      | Inr (Inr (tx', c')) \<Rightarrow> vars tx' = [] \<and>
          n_attempts (tallies_of tx') = n_retry (tallies_of tx') + n_error (tallies_of tx')"
    proof (rule profile_iteration_counts [OF assms(1)])
      show "fst (Transaction_commit cfg tx' w') \<noteq> Inr False"
        if "vars tx = []" "f tx w = (Inr (Inr t, tx'), w')" for tx w t tx' w'
        by (rule assms(2) [OF that])
      show "profile_with_control_and_err_body cfg env me control f (fst s, snd s) w = Some (out, w1)"
        using it by simp
    qed (use I in \<open>simp_all add: case_prod_beta\<close>)
    then show "case out of Inl flt \<Rightarrow> ?Q (Inl flt) w1 | Inr (Inl r) \<Rightarrow> ?Q (Inr r) w1 | Inr (Inr s') \<Rightarrow> ?I s' w1"
      by (auto split: sum.splits)
  qed simp
  then show ?thesis by simp
qed

text \<open>A transaction that writes a variable without reading it.\<close>

definition demo_write :: "(int, string transaction_error, unit) body" where
  "demo_write = raise_stm (Transaction_write default_config (demo_var 2) 7)"

lemma demo_write_commits:
  assumes "vars tx = []"
  shows "\<exists>tx' w' w''. demo_write tx w = (Inr (Inr (), tx'), w') \<and>
    Transaction_commit default_config tx' w' = (Inr True, w'')"
  using assms
  by (simp add: demo_write_def raise_stm_def Transaction_write_eq Let_def Transaction_commit_eq reg_wf_def
      log_valid_def)

lemma demo_write_run:
  "\<exists>ts w'. Transaction_profile_with_control_and_err default_config id 0 always_retry () demo_write demo_world =
     Some (Inr (Validated (), ts), w')"
proof -
  let ?w = "demo_world\<lparr>transaction_running := (transaction_running demo_world)(0 := True)\<rparr>"
  obtain tx' w' w'' where "demo_write (tally (n_attempts_update (\<lambda>n. n + 1)) transaction_default) ?w = (Inr (Inr (), tx'), w')"
    "Transaction_commit default_config tx' w' = (Inr True, w'')"
    using demo_write_commits [of "tally (n_attempts_update (\<lambda>n. n + 1)) transaction_default" ?w] by auto
  then have "rust_loop (profile_with_control_and_err_body default_config id 0 always_retry demo_write)
      (transaction_default, ()) ?w = Some (Inr (Validated (), tallies_of tx'), w'')"
    by (intro rust_loop_stops) (simp add: profile_with_control_and_err_body_def commit_or_clear_def)
  then show ?thesis
    by (simp add: Transaction_profile_with_control_and_err_def with_guard_enters)
qed

theorem profile_counts_attempts_witness:
  "\<exists>ts w'. Transaction_profile_with_control_and_err default_config id 0 always_retry () demo_write demo_world =
     Some (Inr (Validated (), ts), w') \<and> n_attempts ts = n_retry ts + n_error ts + 1"
proof -
  obtain ts w' where run: "Transaction_profile_with_control_and_err default_config id 0 always_retry () demo_write
      demo_world = Some (Inr (Validated (), ts), w')" using demo_write_run by blast
  have "counting_body demo_write"
    unfolding demo_write_def by (rule counting_raise_stm [OF counting_write.counting_body_axioms])
  then have "n_attempts ts = n_retry ts + n_error ts + (if (Validated () :: (unit, string) transaction_result) = Abandoned then 0 else 1)"
  proof (rule profile_counts_attempts [OF _ _ run])
    show "fst (Transaction_commit default_config tx' w') \<noteq> Inr False"
      if "vars tx = []" "demo_write tx w = (Inr (Inr t, tx'), w')" for tx w t tx' w'
      using demo_write_commits [OF that(1), of w] that(2) by auto
  qed
  then have "n_attempts ts = n_retry ts + n_error ts + 1" by simp
  with run show ?thesis by blast
qed

end
