(* ===== verification/Dangling_Properties.thy ===== *)
theory Dangling_Properties
  imports Runner_Properties
begin

text \<open>
  The keys of the registers and the lifetime of a variable.  The keys of a \<open>BTreeMap\<close> register are
  counted references, which keep the control block of a variable allocated; those of a hash register
  (feature \<open>hash-registers\<close>) are raw pointers, which \<open>commit\<close> and \<open>wait_for_change\<close> dereference after
  the body has returned.
\<close>

section \<open>The end of the last handle\<close>

text \<open>
  What happens when the last \<open>TVar\<close> of a control block goes out of scope while a transaction runs: the
  reference count drops to zero, unless the log of the transaction holds a counted reference.
\<close>

definition drop_last_handle :: "config \<Rightarrow> tvar \<Rightarrow> 'v transaction \<Rightarrow> 'v world \<Rightarrow> 'v world" where
  "drop_last_handle cfg var tx w =
     (if \<not> hash_registers cfg \<and> map_of (vars tx) (control_block_of var) \<noteq> None then w
      else w\<lparr>live := (live w)(control_block_of var := False)\<rparr>)"

text \<open>A body that creates a variable, writes it and drops it: it uses safe functions only.\<close>

definition local_variable_body :: "config \<Rightarrow> nat \<Rightarrow> 'v \<Rightarrow> 'v \<Rightarrow> ('v, stm_error, unit) body" where
  "local_variable_body cfg ty v v' tx w =
     (let (var, w) = TVar_new ty v w
      in case Transaction_write cfg var v' tx w of
           (Inl flt, w) \<Rightarrow> (Inl flt, w)
         | (Inr (r, tx), w) \<Rightarrow> (Inr (r, tx), drop_last_handle cfg var tx w))"

lemma local_variable_run:
  assumes "vars tx = []"
  obtains tx' w' x where "local_variable_body cfg ty v v' tx w = (Inr (Inr (), tx'), w')"
    "vars tx' = [(Block (next_block w), Write x)]" "transaction_running w' = transaction_running w"
    "live w' = (live w)(Block (next_block w) := \<not> hash_registers cfg)"
  using assms
  by (cases "hash_registers cfg")
    (auto simp: local_variable_body_def TVar_new_def VarControlBlock_new_def Arc_new_def
      Transaction_write_eq drop_last_handle_def Let_def)

text \<open>C34: a transaction that writes a variable whose last handle goes out of scope before the commit
  commits with tree registers; with the feature \<open>hash-registers\<close> the commit follows a dangling pointer.\<close>

theorem hash_registers_dangle:
  assumes "\<not> transaction_running w me"
  shows "\<exists>w'. atomically cfg env me (local_variable_body cfg ty v v') w =
    Some (if hash_registers cfg then Inl DanglingBlock else Inr (), w')"
proof -
  let ?w = "w\<lparr>transaction_running := (transaction_running w)(me := True)\<rparr>"
  obtain tx' w' x where run: "local_variable_body cfg ty v v' transaction_default ?w = (Inr (Inr (), tx'), w')"
    and vs: "vars tx' = [(Block (next_block ?w), Write x)]"
    and live: "live w' = (live ?w)(Block (next_block ?w) := \<not> hash_registers cfg)"
    by (rule local_variable_run [OF vars_default, of cfg ty v v' ?w])
  let ?body = "with_control_body cfg env me always_retry (local_variable_body cfg ty v v')"
  have "\<exists>w''. rust_loop ?body (transaction_default, ()) ?w =
      Some (if hash_registers cfg then Inl DanglingBlock else Inr (Some ()), w'')"
  proof (cases "hash_registers cfg")
    case True
    then have "Transaction_commit cfg tx' w' = (Inl DanglingBlock, w')"
      by (simp add: Transaction_commit_def vs reg_records_def live)
    then have "?body (transaction_default, ()) ?w = Some (Inl DanglingBlock, w')"
      by (simp add: with_control_body_def run commit_or_clear_def)
    with True show ?thesis by (simp add: rust_loop_stops)
  next
    case False
    then have "\<exists>w''. Transaction_commit cfg tx' w' = (Inr True, w'')"
      by (simp add: Transaction_commit_eq vs reg_wf_def log_valid_def)
    then obtain w'' where "?body (transaction_default, ()) ?w = Some (Inr (Inl (Some ())), w'')"
      by (auto simp: with_control_body_def run commit_or_clear_def)
    with False show ?thesis by (simp add: rust_loop_stops)
  qed
  then show ?thesis
    using assms
    by (auto simp: atomically_def Transaction_with_def Transaction_with_control_def with_guard_enters
        split: if_splits)
qed

theorem hash_registers_dangle_witness:
  "\<exists>w'. atomically (default_config\<lparr>hash_registers := True\<rparr>) id 0
     (local_variable_body (default_config\<lparr>hash_registers := True\<rparr>) 0 5 6) demo_world = Some (Inl DanglingBlock, w')"
  using hash_registers_dangle [of demo_world 0 "default_config\<lparr>hash_registers := True\<rparr>" id 0 5 6] by simp

end
