(* ===== verification/Programs.thy ===== *)
theory Programs
  imports Store_Refinement
begin

text \<open>
  Transaction bodies as programs: what a closure does with its transaction, written out as a tree, so
  that it can be run step by step, interleaved with other threads.  A program performs operations on
  variables, combines alternatives with \<open>or\<close>, returns a value or raises an error; between the
  operations it is any function of the values read so far.  \<open>exec\<close> runs a program with the operations
  of \<open>Transaction_Ops\<close>, \<open>spec\<close> is its abstract specification on stores.
\<close>

section \<open>Programs\<close>

datatype 'v op =
    ReadOp tvar
  | WriteOp tvar 'v
  | ModifyOp tvar "'v \<Rightarrow> 'v"
  | ExchangeOp tvar 'v

fun op_var :: "'v op \<Rightarrow> tvar" where
  "op_var (ReadOp x) = x"
| "op_var (WriteOp x v) = x"
| "op_var (ModifyOp x f) = x"
| "op_var (ExchangeOp x v) = x"

abbreviation op_key :: "'v op \<Rightarrow> block" where
  "op_key b \<equiv> control_block_of (op_var b)"

text \<open>The result of an operation is \<open>None\<close> where the code returns the unit value.\<close>

datatype 'v prog =
    Return 'v
  | Raise stm_error
  | Perform "'v op" "'v option \<Rightarrow> 'v prog"
  | OrElse "'v prog" "'v prog" "'v \<Rightarrow> 'v prog"

section \<open>Execution\<close>

fun op_body :: "config \<Rightarrow> 'v op \<Rightarrow> ('v, stm_error, 'v option) body" where
  "op_body cfg (ReadOp x) = and_then (TVar_read cfg x) (\<lambda>v. lift_result (Inr (Some v)))"
| "op_body cfg (WriteOp x v) = and_then (TVar_write cfg x v) (\<lambda>_. lift_result (Inr None))"
| "op_body cfg (ModifyOp x f) = and_then (TVar_modify cfg x f) (\<lambda>_. lift_result (Inr None))"
| "op_body cfg (ExchangeOp x v) = and_then (TVar_exchange cfg x v) (\<lambda>v. lift_result (Inr (Some v)))"

primrec exec :: "config \<Rightarrow> 'v prog \<Rightarrow> ('v, stm_error, 'v) body" where
  "exec cfg (Return v) = lift_result (Inr v)"
| "exec cfg (Raise e) = lift_result (Inl e)"
| "exec cfg (Perform b k) = and_then (op_body cfg b) (\<lambda>r. exec cfg (k r))"
| "exec cfg (OrElse p q k) = and_then (Transaction_or cfg (exec cfg p) (exec cfg q)) (\<lambda>v. exec cfg (k v))"

section \<open>Specification\<close>

fun op_spec :: "'v op \<Rightarrow> ('v, stm_error, 'v option) abstract_body" where
  "op_spec (ReadOp x) s = Inr (Some (s (control_block_of x)), s)"
| "op_spec (WriteOp x v) s = Inr (None, s(control_block_of x := v))"
| "op_spec (ModifyOp x f) s = Inr (None, s(control_block_of x := f (s (control_block_of x))))"
| "op_spec (ExchangeOp x v) s = Inr (Some (s (control_block_of x)), s(control_block_of x := v))"

primrec spec :: "'v prog \<Rightarrow> ('v, stm_error, 'v) abstract_body" where
  "spec (Return v) = s_result (Inr v)"
| "spec (Raise e) = s_result (Inl e)"
| "spec (Perform b k) = s_then (op_spec b) (\<lambda>r. spec (k r))"
| "spec (OrElse p q k) = s_then (s_or (spec p) (spec q)) (\<lambda>v. spec (k v))"

text \<open>The handles of a program have the types of their variables.\<close>

primrec prog_typed :: "(block \<Rightarrow> nat) \<Rightarrow> 'v prog \<Rightarrow> bool" where
  "prog_typed ty (Return v) \<longleftrightarrow> True"
| "prog_typed ty (Raise e) \<longleftrightarrow> True"
| "prog_typed ty (Perform b k) \<longleftrightarrow> ty (op_key b) = marker (op_var b) \<and> (\<forall>r. prog_typed ty (k r))"
| "prog_typed ty (OrElse p q k) \<longleftrightarrow> prog_typed ty p \<and> prog_typed ty q \<and> (\<forall>v. prog_typed ty (k v))"

lemma TVar_ops:
  "TVar_read cfg x = Transaction_read cfg x" "TVar_write cfg x v = Transaction_write cfg x v"
  "TVar_modify cfg x f = Transaction_modify cfg x f" "TVar_exchange cfg x v = Transaction_exchange cfg x v"
  by (intro ext; simp add: TVar_read_def TVar_write_def TVar_modify_def TVar_exchange_def)+

lemma refining_cong: "refining_body ty cfg m a \<Longrightarrow> m' = m \<Longrightarrow> a' = a \<Longrightarrow> refining_body ty cfg m' a'"
  by simp

lemma refining_op_body:
  assumes "ty (op_key b) = marker (op_var b)"
  shows "refining_body ty cfg (op_body cfg b) (op_spec b)"
proof (cases b)
  case (ReadOp x)
  show ?thesis
    by (rule refining_cong [OF refining_then [OF refining_read refining_result]])
      (use assms ReadOp in \<open>auto simp: TVar_ops fun_eq_iff s_then_def s_read_def s_result_def\<close>)
next
  case (WriteOp x v)
  show ?thesis
    by (rule refining_cong [OF refining_then [OF refining_write refining_result]])
      (use assms WriteOp in \<open>auto simp: TVar_ops fun_eq_iff s_then_def s_write_def s_result_def\<close>)
next
  case (ModifyOp x f)
  show ?thesis
    by (rule refining_cong [OF refining_then [OF refining_modify refining_result]])
      (use assms ModifyOp in \<open>auto simp: TVar_ops fun_eq_iff s_then_def s_modify_def s_result_def\<close>)
next
  case (ExchangeOp x v)
  show ?thesis
    by (rule refining_cong [OF refining_then [OF refining_exchange refining_result]])
      (use assms ExchangeOp in \<open>auto simp: TVar_ops fun_eq_iff s_then_def s_exchange_def s_result_def\<close>)
qed

lemma refining_exec: "prog_typed ty p \<Longrightarrow> refining_body ty cfg (exec cfg p) (spec p)"
proof (induction p)
  case (Perform b k)
  then show ?case by (auto intro!: refining_then refining_op_body)
next
  case (OrElse p q k)
  then show ?case by (auto intro!: refining_then refining_or)
qed (simp_all add: refining_result)

end
