(* ===== verification/Interleaving.thy ===== *)
theory Interleaving
  imports Programs
begin

text \<open>
  Threads that run transactions on the shared variables, interleaved.  The step of a thread is the
  part of the code between two accesses to shared state: an operation of the body, taking or releasing
  one lock, storing one value, taking the waiting threads of one variable, waking one thread,
  registering at one variable, comparing one value.  Every \<open>RwLock\<close> has a set of readers or one
  writer, and a thread that needs a lock another thread holds has no step.  The programs use variables
  that outlive them, so no key of a log dangles here.
\<close>

section \<open>The state\<close>

text \<open>The frames of the calls of \<open>or\<close> a body is in: in the first alternative, with the backup of the
  log; in the second, with the log of the first.\<close>

datatype 'v frame =
    InFirst "'v arc register" "'v prog" "'v \<Rightarrow> 'v prog"
  | InSecond "'v arc register" "'v \<Rightarrow> 'v prog"

datatype lock = ReadLock (lock_key: block) | WriteLock (lock_key: block)

text \<open>
  Which of the four functions a thread has called.  The result of a fallible body is that of its program:
  \<open>Ok\<close> of the value, or \<open>Err(Abort)\<close> of it if the predicate holds.  An \<open>abort\<close> cannot occur inside of
  \<open>or\<close>, whose alternatives are not fallible, so every such body is a program of this kind.
\<close>

datatype 'v call = With | WithControl | WithErr "'v \<Rightarrow> bool" | WithControlAndErr "'v \<Rightarrow> bool"

fun aborts :: "'v call \<Rightarrow> 'v \<Rightarrow> bool" where
  "aborts (WithErr P) v = P v"
| "aborts (WithControlAndErr P) v = P v"
| "aborts _ v = False"

fun has_control :: "'v call \<Rightarrow> bool" where
  "has_control WithControl = True"
| "has_control (WithControlAndErr P) = True"
| "has_control _ = False"

text \<open>The errors after which the loop waits for a change: \<open>with_err\<close> does not look at the error.\<close>

fun waits_after :: "config \<Rightarrow> 'v call \<Rightarrow> stm_error \<Rightarrow> bool" where
  "waits_after cfg (WithErr P) e = wait_on_retry cfg"
| "waits_after cfg _ e = (wait_on_retry cfg \<and> e = Retry)"

text \<open>
  Where a thread is in the loop of the function: in the body; in the first phase of \<open>commit\<close>
  (the value to return, the records that remain, the three vectors); leaving \<open>commit\<close> early with the
  locks that are still to be dropped; in the second phase; in \<open>wake_all\<close> (the threads still to be
  woken, the variables still to be treated); in \<open>wait_for_change\<close>: before an iteration of \<open>all\<close>,
  between its registration and its comparison, parked, in the loop of \<open>set_dead\<close>, and about to clean
  up a variable there; or it has returned, after a commit or without one.  The values
  beside the variables in the vector \<open>reads\<close> are there for the proofs only.
\<close>

datatype 'v thread_state =
    Running "'v transaction" "'v frame list" "'v prog"
  | Locking 'v "'v transaction" "'v arc register" "block list" "(block \<times> 'v arc) list" "block list"
  | BackingOut "'v transaction" "lock list"
  | Releasing 'v "block list" "(block \<times> 'v arc) list" "block list"
  | Writing 'v "(block \<times> 'v arc) list" "block list"
  | Waking 'v "nat list" "block list"
  | Registering "'v transaction" nat "(block \<times> 'v arc) list" "(block \<times> 'v arc) list"
  | Comparing "'v transaction" nat block "'v arc" "(block \<times> 'v arc) list" "(block \<times> 'v arc) list"
  | Parked "'v transaction" nat "(block \<times> 'v arc) list"
  | Dying "'v transaction" nat "(block \<times> 'v arc) list"
  | Cleaning "'v transaction" nat block "(block \<times> 'v arc) list"
  | Finished 'v
  | Stopped "('v, 'v) transaction_result"
  | Panicked fault

record 'v system =
  shared :: "'v world"
  readers :: "block \<Rightarrow> nat set"
  writer :: "block \<Rightarrow> nat option"
  threads :: "nat \<Rightarrow> 'v thread_state"
  calls :: "nat \<Rightarrow> 'v call"

abbreviation set_thread :: "nat \<Rightarrow> 'v thread_state \<Rightarrow> 'v system \<Rightarrow> 'v system" where
  "set_thread i st s \<equiv> s\<lparr>threads := (threads s)(i := st)\<rparr>"

abbreviation value_of :: "'v system \<Rightarrow> block \<Rightarrow> 'v arc" where
  "value_of s k \<equiv> mem (shared s) k"

text \<open>Locks.\<close>

definition can_read :: "block \<Rightarrow> 'v system \<Rightarrow> bool" where
  "can_read k s \<longleftrightarrow> writer s k = None"

definition can_write :: "block \<Rightarrow> 'v system \<Rightarrow> bool" where
  "can_write k s \<longleftrightarrow> writer s k = None \<and> readers s k = {}"

definition acquire :: "nat \<Rightarrow> lock \<Rightarrow> 'v system \<Rightarrow> 'v system" where
  "acquire i l s = (case l of
       ReadLock k \<Rightarrow> s\<lparr>readers := (readers s)(k := insert i (readers s k))\<rparr>
     | WriteLock k \<Rightarrow> s\<lparr>writer := (writer s)(k := Some i)\<rparr>)"

definition release :: "nat \<Rightarrow> lock \<Rightarrow> 'v system \<Rightarrow> 'v system" where
  "release i l s = (case l of
       ReadLock k \<Rightarrow> s\<lparr>readers := (readers s)(k := readers s k - {i})\<rparr>
     | WriteLock k \<Rightarrow> s\<lparr>writer := (writer s)(k := None)\<rparr>)"

section \<open>Steps of the body\<close>

text \<open>An operation takes the read lock of its variable only if it loads the variable.\<close>

definition loads :: "config \<Rightarrow> 'v op \<Rightarrow> 'v transaction \<Rightarrow> bool" where
  "loads cfg b tx = (case b of
       WriteOp _ _ \<Rightarrow> False
     | _ \<Rightarrow> (case map_of (vars tx) (op_key b) of
           None \<Rightarrow> True
         | Some (Read _) \<Rightarrow> early_conflict_detection cfg
         | Some _ \<Rightarrow> False))"

definition restart :: "(nat \<Rightarrow> 'v prog) \<Rightarrow> nat \<Rightarrow> 'v transaction \<Rightarrow> 'v thread_state" where
  "restart p i tx = Running (Transaction_clear tx) [] (p i)"

text \<open>The end of an attempt: a commit begins, or the thread returns the error of an \<open>abort\<close>; or it waits, or
  starts again with an empty log.\<close>

fun attempt_ends :: "config \<Rightarrow> (nat \<Rightarrow> 'v prog) \<Rightarrow> nat \<Rightarrow> 'v transaction \<Rightarrow> stm_error + 'v \<Rightarrow> 'v system \<Rightarrow> 'v system" where
  "attempt_ends cfg p i tx (Inr v) s =
     (if aborts (calls s i) v then set_thread i (Stopped (Cancelled v)) s
      else set_thread i (Locking v tx (reg_records cfg (vars tx)) [] [] []) s)"
| "attempt_ends cfg p i tx (Inl e) s =
     (if waits_after cfg (calls s i) e
      then let w = shared s; c = next_ctrl w;
               w = w\<lparr>ctrls := (ctrls w)(c := Some (ControlBlock_new i)), next_ctrl := Suc c\<rparr>
           in set_thread i (Registering (tx\<lparr>vars := []\<rparr>) c (read_values (vars tx)) []) (s\<lparr>shared := w\<rparr>)
      else set_thread i (restart p i tx) s)"

text \<open>The end of the first and of the second alternative of \<open>or\<close>; \<open>fs\<close> are the frames around it.\<close>

fun first_ends :: "nat \<Rightarrow> 'v transaction \<Rightarrow> 'v arc register \<Rightarrow> 'v prog \<Rightarrow> ('v \<Rightarrow> 'v prog) \<Rightarrow> 'v frame list \<Rightarrow>
    stm_error + 'v \<Rightarrow> 'v system \<Rightarrow> 'v system" where
  "first_ends i tx backup q k fs (Inr v) s = set_thread i (Running tx fs (k v)) s"
| "first_ends i tx backup q k fs (Inl e) s =
     (if e = Retry then set_thread i (Running (tx\<lparr>vars := backup\<rparr>) (InSecond (vars tx) k # fs) q) s
      else set_thread i (Running tx fs (Raise e)) s)"

fun second_ends :: "config \<Rightarrow> nat \<Rightarrow> 'v transaction \<Rightarrow> 'v arc register \<Rightarrow> ('v \<Rightarrow> 'v prog) \<Rightarrow> 'v frame list \<Rightarrow>
    stm_error + 'v \<Rightarrow> 'v system \<Rightarrow> 'v system" where
  "second_ends cfg i tx first_vars k fs (Inr v) s =
     set_thread i (Running (Transaction_combine cfg first_vars tx) fs (k v)) s"
| "second_ends cfg i tx first_vars k fs (Inl e) s =
     set_thread i (Running (if e = Failure then tx else Transaction_combine cfg first_vars tx) fs (Raise e)) s"

fun body_ends :: "config \<Rightarrow> (nat \<Rightarrow> 'v prog) \<Rightarrow> nat \<Rightarrow> 'v transaction \<Rightarrow> 'v frame list \<Rightarrow>
    stm_error + 'v \<Rightarrow> 'v system \<Rightarrow> 'v system" where
  "body_ends cfg p i tx [] r s = attempt_ends cfg p i tx r s"
| "body_ends cfg p i tx (InFirst backup q k # fs) r s = first_ends i tx backup q k fs r s"
| "body_ends cfg p i tx (InSecond first_vars k # fs) r s = second_ends cfg i tx first_vars k fs r s"

lemma body_ends_cases [case_names commit wait_or_restart first_ok first_error second_ok second_error]:
  assumes "\<And>v. fs = [] \<Longrightarrow> r = Inr v \<Longrightarrow> P" and "\<And>e. fs = [] \<Longrightarrow> r = Inl e \<Longrightarrow> P"
    and "\<And>backup q k fs' v. fs = InFirst backup q k # fs' \<Longrightarrow> r = Inr v \<Longrightarrow> P"
    and "\<And>backup q k fs' e. fs = InFirst backup q k # fs' \<Longrightarrow> r = Inl e \<Longrightarrow> P"
    and "\<And>first_vars k fs' v. fs = InSecond first_vars k # fs' \<Longrightarrow> r = Inr v \<Longrightarrow> P"
    and "\<And>first_vars k fs' e. fs = InSecond first_vars k # fs' \<Longrightarrow> r = Inl e \<Longrightarrow> P"
  shows P
  using assms by (cases fs; cases r; cases "hd fs") auto

fun body_step :: "config \<Rightarrow> (nat \<Rightarrow> 'v prog) \<Rightarrow> nat \<Rightarrow> 'v transaction \<Rightarrow> 'v frame list \<Rightarrow> 'v prog \<Rightarrow>
    'v system \<Rightarrow> 'v system option" where
  "body_step cfg p i tx fs (Return v) s = Some (body_ends cfg p i tx fs (Inr v) s)"
| "body_step cfg p i tx fs (Raise e) s = Some (body_ends cfg p i tx fs (Inl e) s)"
| "body_step cfg p i tx fs (Perform b k) s =
     (if loads cfg b tx \<and> \<not> can_read (op_key b) s then None
      else Some (case op_body cfg b tx (shared s) of
          (Inl flt, w) \<Rightarrow> set_thread i (Panicked flt) (s\<lparr>shared := w\<rparr>)
        | (Inr (Inl e, tx), w) \<Rightarrow> set_thread i (Running tx fs (Raise e)) (s\<lparr>shared := w\<rparr>)
        | (Inr (Inr r, tx), w) \<Rightarrow> set_thread i (Running tx fs (k r)) (s\<lparr>shared := w\<rparr>)))"
| "body_step cfg p i tx fs (OrElse q q' k) s =
     Some (set_thread i (Running tx (InFirst (vars tx) q' k # fs) q) s)"

section \<open>Steps of a commit\<close>

text \<open>One iteration of the loop over the records.\<close>

fun lock_step :: "nat \<Rightarrow> 'v \<Rightarrow> 'v transaction \<Rightarrow> block \<Rightarrow> 'v arc log_var \<Rightarrow> 'v arc register \<Rightarrow>
    block list \<Rightarrow> (block \<times> 'v arc) list \<Rightarrow> block list \<Rightarrow> 'v system \<Rightarrow> 'v system option" where
  "lock_step i v tx k (Write x) rs rv wv wr s =
     (if \<not> can_write k s then None
      else Some (set_thread i (Locking v tx rs rv (wv @ [(k, x)]) (wr @ [k])) (acquire i (WriteLock k) s)))"
| "lock_step i v tx k (ReadObsoleteWrite _ x) rs rv wv wr s =
     (if \<not> can_write k s then None
      else Some (set_thread i (Locking v tx rs rv (wv @ [(k, x)]) (wr @ [k])) (acquire i (WriteLock k) s)))"
| "lock_step i v tx k (ReadWrite original x) rs rv wv wr s =
     (if \<not> can_write k s then None
      else let s = acquire i (WriteLock k) s
           in Some (if \<not> ptr_eq (value_of s k) original
             then set_thread i (BackingOut tx (WriteLock k # map (WriteLock \<circ> fst) wv @ map ReadLock rv)) s
             else set_thread i (Locking v tx rs rv (wv @ [(k, x)]) (wr @ [k])) s))"
| "lock_step i v tx k (ReadObsolete _) rs rv wv wr s = Some (set_thread i (Locking v tx rs rv wv wr) s)"
| "lock_step i v tx k (Read original) rs rv wv wr s =
     (if \<not> can_read k s then None
      else let s = acquire i (ReadLock k) s
           in Some (if \<not> ptr_eq (value_of s k) original
             then set_thread i (BackingOut tx (ReadLock k # map (WriteLock \<circ> fst) wv @ map ReadLock rv)) s
             else set_thread i (Locking v tx rs (rv @ [k]) wv wr) s))"

definition finish :: "config \<Rightarrow> 'v \<Rightarrow> block list \<Rightarrow> 'v thread_state" where
  "finish cfg v wr = (if wait_on_retry cfg then Waking v [] wr else Finished v)"

section \<open>Steps of a thread\<close>

text \<open>The next step of thread \<open>i\<close>, whose program is \<open>p i\<close>; \<open>None\<close> when it has none.\<close>

definition thread_step :: "config \<Rightarrow> (nat \<Rightarrow> 'v prog) \<Rightarrow> nat \<Rightarrow> 'v system \<Rightarrow> 'v system option" where
  "thread_step cfg p i s = (case threads s i of
       Running tx fs q \<Rightarrow> body_step cfg p i tx fs q s
     | Locking v tx [] rv wv wr \<Rightarrow> Some (set_thread i (Releasing v rv wv wr) s)
     | Locking v tx ((k, l) # rs) rv wv wr \<Rightarrow> lock_step i v tx k l rs rv wv wr s
     | BackingOut tx [] \<Rightarrow> Some (set_thread i (restart p i tx) s)
     | BackingOut tx (l # ls) \<Rightarrow> Some (set_thread i (BackingOut tx ls) (release i l s))
     | Releasing v (k # rv) wv wr \<Rightarrow> Some (set_thread i (Releasing v rv wv wr) (release i (ReadLock k) s))
     | Releasing v [] wv wr \<Rightarrow> Some (set_thread i (Writing v wv wr) s)
     | Writing v ((k, x) # wv) wr \<Rightarrow>
         Some (set_thread i (Writing v wv wr)
           (release i (WriteLock k) (s\<lparr>shared := update_block k (\<lambda>b. b\<lparr>vcb_value := x\<rparr>) (shared s)\<rparr>)))
     | Writing v [] wr \<Rightarrow> Some (set_thread i (finish cfg v wr) s)
     | Waking v (c # cs) wr \<Rightarrow>
         Some (set_thread i (Waking v cs wr) (s\<lparr>shared := ControlBlock_set_changed c (shared s)\<rparr>))
     | Waking v [] (k # wr) \<Rightarrow>
         Some (set_thread i (Waking v (waiting_threads (blocks (shared s) k)) wr)
           (s\<lparr>shared := update_block k (\<lambda>b. b\<lparr>waiting_threads := []\<rparr>) (shared s)\<rparr>))
     | Waking v [] [] \<Rightarrow> Some (set_thread i (Finished v) s)
     | Registering tx c ((k, v) # es) reads \<Rightarrow>
         Some (set_thread i (Comparing tx c k v es reads) (s\<lparr>shared := VarControlBlock_wait k c (shared s)\<rparr>))
     | Registering tx c [] reads \<Rightarrow> Some (set_thread i (Parked tx c reads) s)
     | Comparing tx c k v es reads \<Rightarrow>
         (if \<not> can_read k s then None
          else Some (if ptr_eq v (value_of s k) then set_thread i (Registering tx c es (reads @ [(k, v)])) s
            else set_thread i (Dying tx c (reads @ [(k, v)])) s))
     | Parked tx c reads \<Rightarrow>
         (if ctrl_blocked c (shared s) then None else Some (set_thread i (Dying tx c reads) s))
     | Dying tx c ((k, v) # reads) \<Rightarrow>
         (let (many, w) = set_dead_count k (shared s)
          in Some (set_thread i (if many then Cleaning tx c k reads else Dying tx c reads) (s\<lparr>shared := w\<rparr>)))
     | Cleaning tx c k reads \<Rightarrow>
         Some (set_thread i (Dying tx c reads) (s\<lparr>shared := set_dead_cleanup k (shared s)\<rparr>))
     | Dying tx c [] \<Rightarrow>
         Some (set_thread i (restart p i tx)
           (s\<lparr>shared := (shared s)\<lparr>ctrls := (ctrls (shared s))(c := None)\<rparr>\<rparr>))
     | Finished v \<Rightarrow> None
     | Stopped r \<Rightarrow> None
     | Panicked flt \<Rightarrow> None)"

lemmas thread_step_defs = thread_step_def set_dead_count_def Let_def

text \<open>
  Besides the threads, other code may store a value with \<open>write_atomic\<close>, under the write lock.  A control
  function may react to anything: whenever it is called, it may end the transaction, or let the loop
  go on, which is the step of the thread.
\<close>

datatype 'v label = ThreadStep nat | GiveUp nat | AtomicWrite tvar 'v

inductive step :: "config \<Rightarrow> (nat \<Rightarrow> 'v prog) \<Rightarrow> 'v system \<Rightarrow> 'v label \<Rightarrow> 'v system \<Rightarrow> bool"
  for cfg :: config and p :: "nat \<Rightarrow> 'v prog" where
  thread: "thread_step cfg p i s = Some s' \<Longrightarrow> step cfg p s (ThreadStep i) s'"
| give_up: "threads s i = Running tx [] (Raise e) \<Longrightarrow> has_control (calls s i) \<Longrightarrow>
    step cfg p s (GiveUp i) (set_thread i (Stopped Abandoned) s)"
| atomic: "can_write (control_block_of var) s \<Longrightarrow>
    step cfg p s (AtomicWrite var v) (s\<lparr>shared := TVar_write_atomic var v (shared s)\<rparr>)"

inductive_cases step_cases: "step cfg p s l s'"
inductive_simps thread_step_simps: "step cfg p s (ThreadStep i) s'"

text \<open>
  Finitely many threads start with empty logs; no lock is held and no thread waits.  The values in
  memory are distinct allocations or the same one.
\<close>

definition initial :: "(nat \<Rightarrow> 'v prog) \<Rightarrow> 'v system \<Rightarrow> bool" where
  "initial p s \<longleftrightarrow>
     (\<forall>k. readers s k = {} \<and> writer s k = None \<and> waiting_threads (blocks (shared s) k) = [] \<and>
       dead_threads (blocks (shared s) k) \<le> 64) \<and>
     (\<forall>i. (\<exists>v. threads s i = Finished v) \<or> (\<exists>tx. threads s i = Running tx [] (p i) \<and> vars tx = [])) \<and>
     finite {i. \<nexists>v. threads s i = Finished v} \<and>
     (\<forall>k. arc_ptr (value_of s k) < next_arc (shared s)) \<and>
     (\<forall>k j. ptr_eq (value_of s k) (value_of s j) \<longrightarrow> value_of s k = value_of s j)"

inductive reachable :: "config \<Rightarrow> (nat \<Rightarrow> 'v prog) \<Rightarrow> 'v system \<Rightarrow> bool"
  for cfg :: config and p :: "nat \<Rightarrow> 'v prog" where
  start: "initial p s \<Longrightarrow> reachable cfg p s"
| steps: "reachable cfg p s \<Longrightarrow> step cfg p s l s' \<Longrightarrow> reachable cfg p s'"

text \<open>What holds at the start and is kept by the steps of the threads, by the control functions and by
  \<open>write_atomic\<close> holds in every reachable state.\<close>

locale system_invariant =
  fixes cfg :: config and p :: "nat \<Rightarrow> 'v prog" and I :: "'v system \<Rightarrow> bool"
  assumes at_start: "initial p s \<Longrightarrow> I s"
    and thread_keeps: "reachable cfg p s \<Longrightarrow> I s \<Longrightarrow> thread_step cfg p i s = Some s' \<Longrightarrow> I s'"
    and give_up_keeps: "reachable cfg p s \<Longrightarrow> I s \<Longrightarrow> threads s i = Running tx [] (Raise e) \<Longrightarrow>
      has_control (calls s i) \<Longrightarrow> I (set_thread i (Stopped Abandoned) s)"
    and atomic_keeps: "reachable cfg p s \<Longrightarrow> I s \<Longrightarrow> can_write (control_block_of var) s \<Longrightarrow>
      I (s\<lparr>shared := TVar_write_atomic (var :: tvar) v (shared s)\<rparr>)"
begin

lemma invariant: "reachable cfg p s \<Longrightarrow> I s"
proof (induction rule: reachable.induct)
  case (start s)
  then show ?case by (rule at_start)
next
  case (steps s l s')
  from steps(2) show ?case
    by (cases rule: step.cases) (auto intro: thread_keeps [OF steps(1,3)] give_up_keeps [OF steps(1,3)]
        atomic_keeps [OF steps(1,3)])
qed

end

lemma initial_threads:
  assumes "initial p s"
  obtains (finished) v where "threads s i = Finished v"
  | (running) tx where "threads s i = Running tx [] (p i)" "vars tx = []"
proof -
  from assms have "(\<exists>v. threads s i = Finished v) \<or>
      (\<exists>tx. threads s i = Running tx [] (p i) \<and> vars tx = [])"
    by (simp add: initial_def)
  with that show thesis by blast
qed

text \<open>A schedule: the threads that take the next steps.\<close>

fun run_schedule :: "config \<Rightarrow> (nat \<Rightarrow> 'v prog) \<Rightarrow> nat list \<Rightarrow> 'v system \<Rightarrow> 'v system option" where
  "run_schedule cfg p [] s = Some s"
| "run_schedule cfg p (i # is) s = (case thread_step cfg p i s of
      None \<Rightarrow> None | Some s' \<Rightarrow> run_schedule cfg p is s')"

lemma run_schedule_reachable:
  "run_schedule cfg p is s = Some s' \<Longrightarrow> reachable cfg p s \<Longrightarrow> reachable cfg p s'"
  by (induction "is" arbitrary: s) (auto split: option.splits intro: reachable.steps step.thread)

end
