(* ===== verification/Lock_Invariants.thy ===== *)
theory Lock_Invariants
  imports Interleaving
begin

text \<open>
  The invariants of the locks: every lock is held by the thread whose state says so, a writer excludes
  everybody else, and a thread only ever asks for a lock above all those it holds.
\<close>

section \<open>What a step can change\<close>

lemma acquire_frame [simp]:
  "shared (acquire i l s) = shared s" "threads (acquire i l s) = threads s" "calls (acquire i l s) = calls s"
  by (cases l; simp add: acquire_def)+

lemma release_frame [simp]:
  "shared (release i l s) = shared s" "threads (release i l s) = threads s" "calls (release i l s) = calls s"
  by (cases l; simp add: release_def)+

lemma body_ends_frame [simp]:
  "readers (body_ends cfg p i tx fs r s) = readers s" "writer (body_ends cfg p i tx fs r s) = writer s"
  "mem (shared (body_ends cfg p i tx fs r s)) k = value_of s k"
  "j \<noteq> i \<Longrightarrow> threads (body_ends cfg p i tx fs r s) j = threads s j"
  "calls (body_ends cfg p i tx fs r s) = calls s"
  by (cases rule: body_ends_cases [of fs r]; simp add: Let_def)+

lemma op_body_stm: "stm_body cfg (op_body cfg b)"
  by (cases b) (auto simp: TVar_ops intro!: stm_body_and_then op_bodies)

lemma op_body_allocates: "op_body cfg b tx w = (res, w') \<Longrightarrow> allocates w w'"
  by (rule isolated_body.isolated [OF stm_body.axioms(2) [OF op_body_stm]])

lemma op_body_wf:
  "op_body cfg b tx w = (Inr (r, tx'), w') \<Longrightarrow> reg_wf cfg (vars tx) \<Longrightarrow> reg_wf cfg (vars tx')"
  by (rule wf_body.keeps_wf [OF stm_body.axioms(1) [OF op_body_stm]])

text \<open>The result of an operation of the body.\<close>

lemma perform_cases:
  assumes "body_step cfg p i tx fs (Perform b k) s = Some s'"
  obtains (fault) flt w where "op_body cfg b tx (shared s) = (Inl flt, w)"
      "s' = set_thread i (Panicked flt) (s\<lparr>shared := w\<rparr>)" "loads cfg b tx \<Longrightarrow> can_read (op_key b) s"
  | (error) e tx' w where "op_body cfg b tx (shared s) = (Inr (Inl e, tx'), w)"
      "s' = set_thread i (Running tx' fs (Raise e)) (s\<lparr>shared := w\<rparr>)" "loads cfg b tx \<Longrightarrow> can_read (op_key b) s"
  | (ok) r tx' w where "op_body cfg b tx (shared s) = (Inr (Inr r, tx'), w)"
      "s' = set_thread i (Running tx' fs (k r)) (s\<lparr>shared := w\<rparr>)" "loads cfg b tx \<Longrightarrow> can_read (op_key b) s"
proof -
  obtain res w where run: "op_body cfg b tx (shared s) = (res, w)"
    by (cases "op_body cfg b tx (shared s)")
  consider flt where "res = Inl flt" | e tx' where "res = Inr (Inl e, tx')" | r tx' where "res = Inr (Inr r, tx')"
    by (metis old.prod.exhaust sumE)
  then show thesis
    using assms run by cases (auto intro: that split: if_splits)
qed

text \<open>The three ends of an iteration over the records.\<close>

lemma lock_step_cases:
  assumes "lock_step i v tx k l rs rv wv wr s = Some s'"
  obtains (stored) x where "LogVar_written l = Some x" "can_write k s"
      "\<And>u. LogVar_checked l = Some u \<Longrightarrow> ptr_eq (value_of s k) u"
      "s' = set_thread i (Locking v tx rs rv (wv @ [(k, x)]) (wr @ [k])) (acquire i (WriteLock k) s)"
  | (stored_conflict) x u where "LogVar_written l = Some x" "can_write k s"
      "LogVar_checked l = Some u" "\<not> ptr_eq (value_of s k) u"
      "s' = set_thread i (BackingOut tx (WriteLock k # map (WriteLock \<circ> fst) wv @ map ReadLock rv))
         (acquire i (WriteLock k) s)"
  | (obsolete) u where "l = ReadObsolete u" "s' = set_thread i (Locking v tx rs rv wv wr) s"
  | (checked) u where "l = Read u" "can_read k s" "ptr_eq (value_of s k) u"
      "s' = set_thread i (Locking v tx rs (rv @ [k]) wv wr) (acquire i (ReadLock k) s)"
  | (checked_conflict) u where "l = Read u" "can_read k s" "\<not> ptr_eq (value_of s k) u"
      "s' = set_thread i (BackingOut tx (ReadLock k # map (WriteLock \<circ> fst) wv @ map ReadLock rv))
         (acquire i (ReadLock k) s)"
  using assms
  by (cases "(i, v, tx, k, l, rs, rv, wv, wr, s)" rule: lock_step.cases)
    (auto simp: Let_def intro: that split: if_splits)

lemma lock_step_frame:
  assumes "lock_step i v tx k l rs rv wv wr s = Some s'"
  shows "shared s' = shared s" and "j \<noteq> i \<Longrightarrow> threads s' j = threads s j" and "calls s' = calls s"
  using lock_step_cases [OF assms] by (cases; simp)+

lemma lock_value: "lock_step i v tx j l rs rv wv wr s = Some s' \<Longrightarrow> value_of s' k = value_of s k"
  using lock_step_frame(1) by metis

lemma thread_step_others:
  assumes "thread_step cfg p i s = Some s'" and "j \<noteq> i"
  shows "threads s' j = threads s j"
proof -
  have body: "threads s' j = threads s j" if "body_step cfg p i tx fs q s = Some s'" for tx fs q
    using that
  proof (cases q)
    case (Perform b k)
    with that have "body_step cfg p i tx fs (Perform b k) s = Some s'" by simp
    then show ?thesis
      using assms(2) by (cases rule: perform_cases) simp_all
  qed (use assms(2) in auto)
  show ?thesis
    using assms body lock_step_frame(2) [OF _ assms(2)]
    by (auto simp: thread_step_defs split: thread_state.splits list.splits if_splits)
qed

lemma thread_step_calls: "thread_step cfg p i s = Some s' \<Longrightarrow> calls s' = calls s"
proof -
  assume step: "thread_step cfg p i s = Some s'"
  have body: "calls s' = calls s" if "body_step cfg p i tx fs q s = Some s'" for tx fs q
    using that
  proof (cases q)
    case (Perform b k)
    with that have "body_step cfg p i tx fs (Perform b k) s = Some s'" by simp
    then show ?thesis by (cases rule: perform_cases) simp_all
  qed auto
  show "calls s' = calls s"
    using step body lock_step_frame(3)
    by (auto simp: thread_step_defs split: thread_state.splits list.splits if_splits)
qed

lemma step_calls: "step cfg p s l s' \<Longrightarrow> calls s' = calls s"
  by (cases rule: step.cases) (auto dest: thread_step_calls)

text \<open>A thread changes the value of a variable only in the second phase of a commit.\<close>

lemma thread_step_memory:
  assumes "thread_step cfg p i s = Some s'"
  obtains (same) "\<And>k. value_of s' k = value_of s k" "\<And>v k x wv wr. threads s i \<noteq> Writing v ((k, x) # wv) wr"
  | (stored) v k x wv wr where "threads s i = Writing v ((k, x) # wv) wr"
      "threads s' i = Writing v wv wr" "writer s' = (writer s)(k := None)" "readers s' = readers s"
      "\<And>j. value_of s' j = (if j = k then x else value_of s j)"
proof (cases "\<exists>v k x wv wr. threads s i = Writing v ((k, x) # wv) wr")
  case True
  then obtain v k x wv wr where st: "threads s i = Writing v ((k, x) # wv) wr" by blast
  with assms have s': "s' = set_thread i (Writing v wv wr)
      (release i (WriteLock k) (s\<lparr>shared := update_block k (\<lambda>b. b\<lparr>vcb_value := x\<rparr>) (shared s)\<rparr>))"
    by (simp add: thread_step_def)
  show thesis
    by (rule stored [OF st]) (simp_all add: s' release_def)
next
  case False
  have body: "value_of s' k = value_of s k" if "body_step cfg p i tx fs q s = Some s'" for tx fs q k
    using that
  proof (cases q)
    case (Perform b k)
    with that have "body_step cfg p i tx fs (Perform b k) s = Some s'" by simp
    then show ?thesis
      by (cases rule: perform_cases) (simp_all add: allocatesD(1) [OF op_body_allocates])
  qed auto
  have "value_of s' k = value_of s k" for k
    using assms False body lock_value [of i _ _ _ _ _ _ _ _ s s' k]
    by (auto simp: thread_step_def VarControlBlock_wait_def set_dead_count_def set_dead_cleanup_def Let_def
        split: thread_state.splits list.splits if_splits)
  with same False show thesis by blast
qed

section \<open>Well-formed thread states\<close>

text \<open>The variables among the records that a commit locks for reading.\<close>

definition read_keys :: "'a register \<Rightarrow> block list" where
  "read_keys ps = [k. (k, Read _) \<leftarrow> ps]"

lemma read_keys_simps [simp]:
  "read_keys [] = []" "read_keys (ps @ qs) = read_keys ps @ read_keys qs"
  "read_keys [(k, Read u)] = [k]" "read_keys [(k, ReadObsolete u)] = []"
  "LogVar_written l = Some x \<Longrightarrow> read_keys [(k, l)] = []"
  by (simp_all add: read_keys_def) (cases l; simp)

lemma written_pairs_append [simp]: "written_pairs (ps @ qs) = written_pairs ps @ written_pairs qs"
  by (induction ps) (auto split: option.split)

lemma set_read_keys: "k \<in> set (read_keys ps) \<longleftrightarrow> (\<exists>u. (k, Read u) \<in> set ps)"
  by (force simp: read_keys_def split: log_var.splits)

lemma set_written_pairs: "(k, x) \<in> set (written_pairs ps) \<longleftrightarrow> (\<exists>l. (k, l) \<in> set ps \<and> LogVar_written l = Some x)"
  by (induction ps) (auto split: option.splits)

lemma lock_keys_subset: "set (read_keys ps) \<union> fst ` set (written_pairs ps) \<subseteq> fst ` set ps"
  using set_read_keys [of _ ps] set_written_pairs [of _ _ ps] by force

lemma distinct_lock_keys:
  assumes "distinct (map fst ps)"
  shows "distinct (read_keys ps @ map fst (written_pairs ps))"
  using assms
proof (induction ps)
  case (Cons e ps)
  obtain k l where e: "e = (k, l)" by (cases e)
  have "k \<notin> set (read_keys ps)" "k \<notin> fst ` set (written_pairs ps)"
    using Cons.prems lock_keys_subset [of ps] by (auto simp: e)
  moreover have "read_keys ((k, l) # ps) = read_keys [(k, l)] @ read_keys ps"
    by (simp flip: read_keys_simps(2))
  moreover have "set (read_keys [(k, l)]) \<subseteq> {k}"
    by (cases l) simp_all
  moreover have "distinct (read_keys [(k, l)])" by (cases l) simp_all
  moreover have "LogVar_written l \<noteq> None \<Longrightarrow> read_keys [(k, l)] = []" by auto
  ultimately show ?case
    using Cons.IH Cons.prems by (cases "LogVar_written l") (auto simp: e)
qed simp

fun frame_log :: "'v frame \<Rightarrow> 'v arc register" where
  "frame_log (InFirst backup q k) = backup"
| "frame_log (InSecond first_vars k) = first_vars"

fun wf_thread :: "config \<Rightarrow> 'v thread_state \<Rightarrow> bool" where
  "wf_thread cfg (Running tx fs q) \<longleftrightarrow> reg_wf cfg (vars tx) \<and> (\<forall>f \<in> set fs. reg_wf cfg (frame_log f))"
| "wf_thread cfg (Locking v tx rs rv wv wr) \<longleftrightarrow> reg_wf cfg (vars tx) \<and>
     (\<exists>ps. reg_records cfg (vars tx) = ps @ rs \<and> rv = read_keys ps \<and> wv = written_pairs ps \<and> wr = map fst wv)"
| "wf_thread cfg (BackingOut tx ls) \<longleftrightarrow> distinct (map lock_key ls)"
| "wf_thread cfg (Releasing v rv wv wr) \<longleftrightarrow> distinct (rv @ map fst wv) \<and> wr = map fst wv"
| "wf_thread cfg (Writing v wv wr) \<longleftrightarrow> distinct (map fst wv) \<and> set (map fst wv) \<subseteq> set wr"
| "wf_thread cfg _ \<longleftrightarrow> True"

lemma wf_body_ends:
  "wf_thread cfg (Running tx fs q) \<Longrightarrow> wf_thread cfg (threads (body_ends cfg p i tx fs r s) i)"
  by (cases rule: body_ends_cases [of fs r])
    (auto simp: Let_def restart_def Transaction_clear_def reg_wf_combine_vars reg_wf_def [of cfg "[]"])

lemma records_sorted: "reg_wf cfg r \<Longrightarrow> reg_records cfg r = ps @ qs \<Longrightarrow> sorted_wrt (<) (map fst (ps @ qs))"
  using reg_records_sorted [of cfg r] by simp

text \<open>The locks that a thread holds, by the state it is in.\<close>

fun held :: "'v thread_state \<Rightarrow> lock list" where
  "held (Locking v tx rs rv wv wr) = map ReadLock rv @ map (WriteLock \<circ> fst) wv"
| "held (BackingOut tx ls) = ls"
| "held (Releasing v rv wv wr) = map ReadLock rv @ map (WriteLock \<circ> fst) wv"
| "held (Writing v wv wr) = map (WriteLock \<circ> fst) wv"
| "held _ = []"

lemma held_distinct: "wf_thread cfg st \<Longrightarrow> distinct (map lock_key (held st))"
proof (cases st)
  case (Locking v tx rs rv wv wr)
  assume "wf_thread cfg st"
  with Locking obtain ps where wf: "reg_wf cfg (vars tx)" and ps: "reg_records cfg (vars tx) = ps @ rs"
    and "rv = read_keys ps" "wv = written_pairs ps" by auto
  from records_sorted [OF wf ps] have "distinct (map fst ps)"
    by (auto simp: sorted_wrt_append sorted_wrt_less_iff)
  from distinct_lock_keys [OF this] show ?thesis
    using Locking \<open>rv = _\<close> \<open>wv = _\<close> by (simp add: o_def)
qed (simp_all add: o_def)

text \<open>A thread asks for a lock above all the locks it holds.\<close>

lemma held_below:
  assumes "wf_thread cfg (Locking v tx rs rv wv wr)" and "l \<in> set (held (Locking v tx rs rv wv wr))"
    and "r \<in> fst ` set rs"
  shows "lock_key l < r"
proof -
  from assms(1) obtain ps where wf: "reg_wf cfg (vars tx)" and ps: "reg_records cfg (vars tx) = ps @ rs"
    and eqs: "rv = read_keys ps" "wv = written_pairs ps" by auto
  have "lock_key l \<in> set rv \<union> fst ` set wv" using assms(2) by force
  then have "lock_key l \<in> fst ` set ps" using lock_keys_subset [of ps] by (auto simp: eqs)
  with records_sorted [OF wf ps] assms(3) show ?thesis
    by (force simp: sorted_wrt_append)
qed

section \<open>Every step keeps the states well-formed\<close>

lemma wf_lock_step:
  assumes "lock_step i v tx k l rs rv wv wr s = Some s'"
    and wf: "wf_thread cfg (Locking v tx ((k, l) # rs) rv wv wr)"
  shows "wf_thread cfg (threads s' i)"
proof -
  from wf obtain ps where reg: "reg_wf cfg (vars tx)" and ps: "reg_records cfg (vars tx) = ps @ (k, l) # rs"
    and eqs: "rv = read_keys ps" "wv = written_pairs ps" "wr = map fst wv" by auto
  have next_ps: "reg_records cfg (vars tx) = (ps @ [(k, l)]) @ rs" by (simp add: ps)
  have distinct: "distinct (map lock_key (held (Locking v tx ((k, l) # rs) rv wv wr)))"
    by (rule held_distinct [OF wf])
  have fresh: "k \<notin> lock_key ` set (held (Locking v tx ((k, l) # rs) rv wv wr))"
    using held_below [OF wf] by force
  from assms(1) show ?thesis
  proof (cases rule: lock_step_cases)
    case (stored x)
    then show ?thesis
      using reg next_ps eqs by (auto intro!: exI [of _ "ps @ [(k, l)]"])
  next
    case (stored_conflict x u)
    with distinct fresh show ?thesis by (auto simp: o_def image_Un image_image)
  next
    case (obsolete u)
    then show ?thesis using reg next_ps eqs by (auto intro!: exI [of _ "ps @ [(k, l)]"])
  next
    case (checked u)
    then show ?thesis using reg next_ps eqs by (auto intro!: exI [of _ "ps @ [(k, l)]"])
  next
    case (checked_conflict u)
    with distinct fresh show ?thesis by (auto simp: o_def image_Un image_image)
  qed
qed

lemma wf_body_step:
  assumes "body_step cfg p i tx fs q s = Some s'" and "wf_thread cfg (Running tx fs q)"
  shows "wf_thread cfg (threads s' i)"
proof (cases q)
  case (Perform b k)
  with assms(1) have "body_step cfg p i tx fs (Perform b k) s = Some s'" by simp
  then show ?thesis
    using assms(2) op_body_wf by (cases rule: perform_cases) auto
next
  case (Return v)
  with assms(1) have "s' = body_ends cfg p i tx fs (Inr v) s" by simp
  with wf_body_ends [OF assms(2)] show ?thesis by (simp only:)
next
  case (Raise e)
  with assms(1) have "s' = body_ends cfg p i tx fs (Inl e) s" by simp
  with wf_body_ends [OF assms(2)] show ?thesis by (simp only:)
qed (use assms in auto)

lemma wf_thread_step:
  assumes "thread_step cfg p i s = Some s'" and "wf_thread cfg (threads s i)"
  shows "wf_thread cfg (threads s' i)"
proof (cases "threads s i")
  case (Running tx fs q)
  with assms(1) have "body_step cfg p i tx fs q s = Some s'" by (simp add: thread_step_def)
  then show ?thesis using assms(2) unfolding Running by (rule wf_body_step)
next
  case (Locking v tx rs rv wv wr)
  show ?thesis
  proof (cases rs)
    case Nil
    with assms Locking held_distinct [OF assms(2)] show ?thesis
      by (auto simp: thread_step_def o_def)
  next
    case (Cons r rs')
    obtain k l where r: "r = (k, l)" by (cases r)
    with assms(1) Locking Cons have "lock_step i v tx k l rs' rv wv wr s = Some s'"
      by (simp add: thread_step_def)
    with assms(2) show ?thesis unfolding Locking Cons r by (rule wf_lock_step [rotated])
  qed
qed (use assms in \<open>auto simp: thread_step_defs restart_def finish_def Transaction_clear_def
      reg_wf_def [of cfg "[]"] split: list.splits if_splits\<close>)

section \<open>The locks are held by the threads whose states say so\<close>

definition grantable :: "lock \<Rightarrow> 'v system \<Rightarrow> bool" where
  "grantable l s = (case l of ReadLock k \<Rightarrow> can_read k s | WriteLock k \<Rightarrow> can_write k s)"

lemma held_body_ends [simp]: "held (threads (body_ends cfg p i tx fs r s) i) = []"
  by (cases rule: body_ends_cases [of fs r]) (auto simp: Let_def restart_def)

lemma lock_effect:
  assumes "thread_step cfg p i s = Some s'" and "wf_thread cfg (threads s i)"
  obtains (none) "readers s' = readers s" "writer s' = writer s"
      "set (held (threads s' i)) = set (held (threads s i))"
  | (taken) l where "readers s' = readers (acquire i l s)" "writer s' = writer (acquire i l s)"
      "set (held (threads s' i)) = insert l (set (held (threads s i)))" "grantable l s"
  | (dropped) l where "readers s' = readers (release i l s)" "writer s' = writer (release i l s)"
      "set (held (threads s' i)) = set (held (threads s i)) - {l}" "l \<in> set (held (threads s i))"
proof (cases "threads s i")
  case (Running tx fs q)
  with assms(1) have step: "body_step cfg p i tx fs q s = Some s'" by (simp add: thread_step_def)
  show thesis
  proof (cases q)
    case (Perform b k)
    with step have "body_step cfg p i tx fs (Perform b k) s = Some s'" by simp
    then show thesis
      using Running by (cases rule: perform_cases) (auto intro!: none)
  qed (use step Running in \<open>auto intro!: none\<close>)
next
  case (Locking v tx rs rv wv wr)
  show thesis
  proof (cases rs)
    case Nil
    with assms(1) Locking show thesis by (auto simp: thread_step_def intro!: none)
  next
    case (Cons r rs')
    obtain k l where r: "r = (k, l)" by (cases r)
    with assms(1) Locking Cons have "lock_step i v tx k l rs' rv wv wr s = Some s'"
      by (simp add: thread_step_def)
    then show thesis
    proof (cases rule: lock_step_cases)
      case (stored x)
      then show thesis
        by (intro taken [of "WriteLock k"]) (auto simp: Locking grantable_def)
    next
      case (stored_conflict x u)
      then show thesis
        by (intro taken [of "WriteLock k"]) (auto simp: Locking grantable_def)
    next
      case (obsolete u)
      then show thesis by (intro none) (auto simp: Locking)
    next
      case (checked u)
      then show thesis
        by (intro taken [of "ReadLock k"]) (auto simp: Locking grantable_def)
    next
      case (checked_conflict u)
      then show thesis
        by (intro taken [of "ReadLock k"]) (auto simp: Locking grantable_def)
    qed
  qed
next
  case (BackingOut tx ls)
  show thesis
  proof (cases ls)
    case Nil
    with assms(1) BackingOut show thesis by (auto simp: thread_step_def restart_def intro!: none)
  next
    case (Cons l ls')
    with assms(1) BackingOut held_distinct [OF assms(2)] show thesis
      by (intro dropped [of l]) (auto simp: thread_step_def)
  qed
next
  case (Releasing v rv wv wr)
  show thesis
  proof (cases rv)
    case Nil
    with assms(1) Releasing show thesis by (auto simp: thread_step_def intro!: none)
  next
    case (Cons k rv')
    have "ReadLock k \<notin> set (held (Releasing v rv' wv wr))"
      using held_distinct [OF assms(2)] by (auto simp: Releasing Cons)
    with assms(1) Releasing Cons show thesis
      by (intro dropped [of "ReadLock k"]) (auto simp: thread_step_def, force)
  qed
next
  case (Writing v wv wr)
  show thesis
  proof (cases wv)
    case Nil
    with assms(1) Writing show thesis by (auto simp: thread_step_def finish_def intro!: none split: if_splits)
  next
    case (Cons e wv')
    obtain k x where e: "e = (k, x)" by (cases e)
    with assms(1) Writing Cons held_distinct [OF assms(2)] show thesis
      by (intro dropped [of "WriteLock k"]) (auto simp: thread_step_def release_def, force+)
  qed
qed (use assms(1) in \<open>auto simp: thread_step_defs restart_def split: list.splits if_splits intro!: none\<close>)

definition lock_inv :: "'v system \<Rightarrow> bool" where
  "lock_inv s \<longleftrightarrow> (\<forall>i k. i \<in> readers s k \<longleftrightarrow> ReadLock k \<in> set (held (threads s i))) \<and>
     (\<forall>i k. writer s k = Some i \<longleftrightarrow> WriteLock k \<in> set (held (threads s i))) \<and>
     (\<forall>k. writer s k \<noteq> None \<longrightarrow> readers s k = {})"

lemma lock_inv_step:
  assumes "thread_step cfg p i s = Some s'" and "wf_thread cfg (threads s i)" and "lock_inv s"
  shows "lock_inv s'"
proof -
  have others: "threads s' j = threads s j" if "j \<noteq> i" for j
    by (rule thread_step_others [OF assms(1) that])
  from assms(1,2) show ?thesis
  proof (cases rule: lock_effect)
    case none
    then have "set (held (threads s' j)) = set (held (threads s j))" for j
      using others by (cases "j = i") auto
    with none(1,2) assms(3) show ?thesis by (simp add: lock_inv_def)
  next
    case (taken l)
    have held: "set (held (threads s' j)) = (if j = i then insert l (set (held (threads s j))) else set (held (threads s j)))" for j
      using others taken(3) by auto
    have free_write: "writer s k = None \<Longrightarrow> WriteLock k \<notin> set (held (threads s j))" for k j
      using assms(3) unfolding lock_inv_def by (metis option.distinct(1))
    have free_read: "readers s k = {} \<Longrightarrow> ReadLock k \<notin> set (held (threads s j))" for k j
      using assms(3) by (auto simp: lock_inv_def)
    show ?thesis
      using assms(3) taken(4) free_write free_read
      by (cases l) (auto simp: lock_inv_def taken(1,2) held acquire_def grantable_def can_read_def can_write_def
          split: if_splits)
  next
    case (dropped l)
    have held: "set (held (threads s' j)) = (if j = i then set (held (threads s j)) - {l} else set (held (threads s j)))" for j
      using others dropped(3) by auto
    have unique: "WriteLock k \<in> set (held (threads s j)) \<Longrightarrow> WriteLock k \<in> set (held (threads s j')) \<Longrightarrow> j = j'" for k j j'
      using assms(3) unfolding lock_inv_def by (metis option.inject)
    show ?thesis
      using assms(3) dropped(4) unique
      by (cases l) (auto simp: lock_inv_def dropped(1,2) held release_def split: if_splits)
  qed
qed

interpretation locks: system_invariant cfg p "\<lambda>s. (\<forall>i. wf_thread cfg (threads s i)) \<and> lock_inv s" for cfg p
proof
  fix s :: "'a system"
  assume start: "initial p s"
  then have "wf_thread cfg (threads s i) \<and> held (threads s i) = []" for i
    by (cases rule: initial_threads [where i = i]) (auto simp: reg_wf_def)
  with start show "(\<forall>i. wf_thread cfg (threads s i)) \<and> lock_inv s" by (auto simp: lock_inv_def initial_def)
next
  fix s s' :: "'a system" and i
  assume inv: "(\<forall>i. wf_thread cfg (threads s i)) \<and> lock_inv s" and step: "thread_step cfg p i s = Some s'"
  then have "wf_thread cfg (threads s' j)" for j
    using wf_thread_step [OF step] thread_step_others [OF step, of j] by (cases "j = i") auto
  with lock_inv_step [OF step] inv show "(\<forall>i. wf_thread cfg (threads s' i)) \<and> lock_inv s'" by blast
qed (auto simp: lock_inv_def)

lemmas reachable_wf = locks.invariant [THEN conjunct1, rule_format]
  and reachable_locks = locks.invariant [THEN conjunct2]

text \<open>Two threads hold locks on the same variable only if both are read locks.\<close>

lemma held_apart:
  assumes "lock_inv s" and "WriteLock k \<in> set (held (threads s i))" and "l \<in> set (held (threads s j))"
    and "lock_key l = k"
  shows "i = j"
proof -
  have writer: "writer s k = Some m" if "WriteLock k \<in> set (held (threads s m))" for k m
    using assms(1) that by (simp add: lock_inv_def)
  show ?thesis
  proof (cases l)
    case (ReadLock k')
    with assms(1,3,4) have "j \<in> readers s k" by (simp add: lock_inv_def)
    moreover have "readers s k = {}"
      using assms(1) writer [OF assms(2)] unfolding lock_inv_def by (metis option.distinct(1))
    ultimately show ?thesis by simp
  next
    case (WriteLock k')
    with assms writer [of k i] writer [of k j] show ?thesis by simp
  qed
qed

lemma locked_not_writable:
  assumes "lock_inv s" and "l \<in> set (held (threads s i))"
  shows "\<not> can_write (lock_key l) s"
proof (cases l)
  case (ReadLock k)
  with assms have "i \<in> readers s k" by (simp add: lock_inv_def)
  with ReadLock show ?thesis by (auto simp: can_write_def)
next
  case (WriteLock k)
  with assms have "writer s k = Some i" by (simp add: lock_inv_def)
  with WriteLock show ?thesis by (simp add: can_write_def)
qed

end
