(* ===== verification/Progress_Properties.thy ===== *)
theory Progress_Properties
  imports Lock_Invariants Op_Properties
begin

text \<open>
  Safety and progress of the locks of the commits: mutual exclusion, and the absence of deadlocks among
  the threads that commit.
\<close>

section \<open>A system for the examples\<close>

text \<open>Variables 2, 3, ... hold ten times their number; the other variables share the value of 50.\<close>

definition sys_world :: "int world" where
  "sys_world = demo_world\<lparr>blocks := (\<lambda>a. \<lparr>waiting_threads = [], dead_threads = 0,
     vcb_value = (let n = min 50 (get_address a) in Arc n (Dyn 0 (10 * int n)))\<rparr>)\<rparr>"

definition demo_system :: "(nat \<Rightarrow> int prog) \<Rightarrow> nat \<Rightarrow> int system" where
  "demo_system p n = \<lparr>shared = sys_world, readers = (\<lambda>_. {}), writer = (\<lambda>_. None),
     threads = (\<lambda>i. if i < n then Running transaction_default [] (p i) else Finished 0), calls = (\<lambda>_. With)\<rparr>"

lemma demo_system_sel [simp]:
  "shared (demo_system p n) = sys_world" "readers (demo_system p n) k = {}"
  "writer (demo_system p n) k = None"
  "threads (demo_system p n) i = (if i < n then Running transaction_default [] (p i) else Finished 0)"
  "calls (demo_system p n) i = With"
  by (simp_all add: demo_system_def)

lemma sys_world_sel [simp]:
  "mem sys_world a = Arc (min 50 (get_address a)) (Dyn 0 (10 * int (min 50 (get_address a))))"
  "waiting_threads (blocks sys_world a) = []" "dead_threads (blocks sys_world a) = 0" "next_arc sys_world = 100" "next_ctrl sys_world = 0"
  "ctrls sys_world c = None"
  by (simp_all add: sys_world_def Let_def)

lemma initial_demo [intro!, simp]: "initial p (demo_system p n)"
proof -
  have "{i. \<nexists>v. threads (demo_system p n) i = Finished v} = {..<n}" by auto
  then show ?thesis by (auto simp: initial_def ptr_eq_def transaction_default_def)
qed

section \<open>Mutual exclusion\<close>

text \<open>C10: whenever a commit has locked a variable for writing, no other thread holds a lock on it: in
  every reachable state of any number of threads, two locks on one variable are two read locks, or
  one lock of one thread.\<close>

theorem locks_exclude:
  assumes "reachable cfg p s" and "l \<in> set (held (threads s i))" and "l' \<in> set (held (threads s j))"
    and "lock_key l = lock_key l'"
  shows "(i = j \<and> l = l') \<or> (i \<noteq> j \<and> l = ReadLock (lock_key l) \<and> l' = ReadLock (lock_key l))"
proof -
  have inv: "lock_inv s" using assms(1) by (rule reachable_locks)
  have unique: "l = l'" if "i = j"
  proof -
    have "inj_on lock_key (set (held (threads s i)))"
      using held_distinct [OF reachable_wf [OF assms(1)]] by (simp add: distinct_map)
    with assms(2-4) that show ?thesis by (auto dest: inj_onD)
  qed
  show ?thesis
  proof (cases "i = j")
    case False
    have "l \<noteq> WriteLock (lock_key l)"
      using held_apart [OF inv, of "lock_key l" i l' j] assms(2-4) False by metis
    moreover have "l' \<noteq> WriteLock (lock_key l)"
      using held_apart [OF inv, of "lock_key l" j l i] assms(2-4) False by metis
    ultimately show ?thesis using False assms(4) by (metis lock.exhaust_sel)
  qed (use unique in simp)
qed

text \<open>Two threads that write the same variable: the first one in its commit.\<close>

definition write_prog :: "nat \<Rightarrow> nat \<Rightarrow> int prog" where
  "write_prog n i = Perform (WriteOp (demo_var n) (int i)) (\<lambda>_. Return (int i))"

definition locked_system :: "int system" where
  "locked_system = the (run_schedule default_config (write_prog 2) [0, 0, 0] (demo_system (write_prog 2) 2))"

lemma locked_system_run:
  "run_schedule default_config (write_prog 2) [0, 0, 0] (demo_system (write_prog 2) 2) = Some locked_system"
  "threads locked_system 0 = Locking 0 \<lparr>vars = [(Block 2, Write (Arc 100 (Dyn 0 0)))], tallies_of = tallies_default\<rparr>
     [] [] [(Block 2, Arc 100 (Dyn 0 0))] [Block 2]"
  by (simp_all add: locked_system_def thread_step_def write_prog_def TVar_ops Transaction_write_def and_then_def
      lift_result_def loads_def Arc_new_def Let_def count_def reg_insert_def reg_records_def can_write_def
      acquire_def transaction_default_def)

theorem locks_exclude_witness:
  "reachable default_config (write_prog 2) locked_system \<and>
   WriteLock (Block 2) \<notin> set (held (threads locked_system 1))"
proof (rule conjI)
  show reach: "reachable default_config (write_prog 2) locked_system"
    by (rule run_schedule_reachable [OF locked_system_run(1)]) (intro reachable.start initial_demo)
  show "WriteLock (Block 2) \<notin> set (held (threads locked_system 1))"
    using locks_exclude [OF reach, of "WriteLock (Block 2)" 0 "WriteLock (Block 2)" 1] locked_system_run(2) by auto
qed

section \<open>Progress\<close>

lemma reachable_finite: "reachable cfg p s \<Longrightarrow> finite {i. \<nexists>v. threads s i = Finished v}"
proof (induction rule: reachable.induct)
  case (start s)
  then show ?case by (simp add: initial_def)
next
  case (steps s l s')
  from steps(2) show ?case
  proof (cases rule: step.cases)
    case (thread i)
    have "\<nexists>v. threads s i = Finished v" using thread(2) by (auto simp: thread_step_def)
    then have "{j. \<nexists>v. threads s' j = Finished v} \<subseteq> {j. \<nexists>v. threads s j = Finished v}"
    proof (intro subsetI CollectI)
      fix j
      assume "\<nexists>v. threads s i = Finished v" and "j \<in> {j. \<nexists>v. threads s' j = Finished v}"
      then show "\<nexists>v. threads s j = Finished v"
        using thread_step_others [OF thread(2), of j] by (cases "j = i") simp_all
    qed
    with steps.IH show ?thesis by (rule finite_subset [rotated])
  next
    case (give_up i tx e)
    have "{j. \<nexists>v. threads s' j = Finished v} \<subseteq> insert i {j. \<nexists>v. threads s j = Finished v}"
      by (auto simp: give_up(2) split: if_splits)
    with steps.IH show ?thesis by (meson finite.insertI finite_subset)
  next
    case (atomic var v)
    with steps.IH show ?thesis by simp
  qed
qed

text \<open>The states in which a thread has no step.\<close>

lemma lock_step_None:
  "lock_step i v tx k l rs rv wv wr s = None \<Longrightarrow> \<not> can_read k s \<or> \<not> can_write k s"
  by (cases "(i, v, tx, k, l, rs, rv, wv, wr, s)" rule: lock_step.cases) (auto simp: Let_def split: if_splits)

lemma no_step_cases:
  assumes "thread_step cfg p i s = None"
  obtains (locking) v tx k l rs rv wv wr where "threads s i = Locking v tx ((k, l) # rs) rv wv wr"
      "\<not> can_read k s \<or> \<not> can_write k s"
  | (loading) tx fs b k where "threads s i = Running tx fs (Perform b k)" "\<not> can_read (op_key b) s"
  | (comparing) tx c k v es reads where "threads s i = Comparing tx c k v es reads" "\<not> can_read k s"
  | (parked) tx c reads where "threads s i = Parked tx c reads" "ctrl_blocked c (shared s)"
  | (finished) v where "threads s i = Finished v"
  | (stopped) r where "threads s i = Stopped r"
  | (panicked) flt where "threads s i = Panicked flt"
proof (cases "threads s i")
  case (Running tx fs q)
  with assms loading show thesis by (cases q) (auto simp: thread_step_def split: if_splits)
next
  case (Locking v tx rs rv wv wr)
  show thesis
  proof (cases rs)
    case Nil
    with assms Locking show thesis by (simp add: thread_step_def)
  next
    case (Cons r rs')
    obtain k l where r: "r = (k, l)" by (cases r)
    with assms Locking Cons have "lock_step i v tx k l rs' rv wv wr s = None" by (simp add: thread_step_def)
    from lock_step_None [OF this] show thesis using locking Locking Cons r by blast
  qed
qed (use assms comparing parked finished stopped panicked in
    \<open>auto simp: thread_step_defs split: list.splits if_splits\<close>)

lemma not_grantable_held:
  assumes "lock_inv s" and "\<not> can_read k s \<or> \<not> can_write k s"
  shows "\<exists>j l. l \<in> set (held (threads s j)) \<and> lock_key l = k"
proof -
  from assms(2) consider j where "writer s k = Some j" | j where "j \<in> readers s k"
    by (auto simp: can_read_def can_write_def)
  then show ?thesis
  proof cases
    case 1
    with assms(1) have "WriteLock k \<in> set (held (threads s j))" by (simp add: lock_inv_def)
    then show ?thesis by (intro exI [of _ j] exI [of _ "WriteLock k"]) simp
  next
    case 2
    with assms(1) have "ReadLock k \<in> set (held (threads s j))" by (simp add: lock_inv_def)
    then show ?thesis by (intro exI [of _ j] exI [of _ "ReadLock k"]) simp
  qed
qed

lemma quiet_threads:
  assumes "reachable cfg p s" and "\<And>i. thread_step cfg p i s = None"
  shows "(\<exists>v. threads s i = Finished v) \<or> (\<exists>r. threads s i = Stopped r) \<or> (\<exists>flt. threads s i = Panicked flt) \<or>
    (\<exists>tx c reads. threads s i = Parked tx c reads \<and> ctrl_blocked c (shared s))"
proof -
  note wf = reachable_wf [OF assms(1)] and inv = reachable_locks [OF assms(1)]
  let ?L = "{(k, i). \<exists>v tx l rs rv wv wr. threads s i = Locking v tx ((k, l) # rs) rv wv wr}"
  have no_holder: "held (threads s j) = []" for j
  proof (rule ccontr)
    assume holder: "held (threads s j) \<noteq> []"
    have in_L: "\<exists>k. (k, j) \<in> ?L \<and> (\<forall>l \<in> set (held (threads s j)). lock_key l < k)"
      if "held (threads s j) \<noteq> []" for j
      using assms(2) [of j]
    proof (cases rule: no_step_cases)
      case (locking v tx k l rs rv wv wr)
      have "lock_key l' < k" if "l' \<in> set (held (threads s j))" for l'
        using held_below [of cfg v tx "(k, l) # rs" rv wv wr l' k] wf [of j] that locking(1) by simp
      moreover have "(k, j) \<in> ?L" using locking(1) by simp
      ultimately show ?thesis by blast
    qed (use that in auto)
    define K where "K = fst ` ?L"
    have "K \<subseteq> (\<lambda>i. case threads s i of Locking v tx (e # rs) rv wv wr \<Rightarrow> fst e | _ \<Rightarrow> undefined) `
        {i. \<nexists>v. threads s i = Finished v}"
    proof
      fix k
      assume "k \<in> K"
      then obtain i v tx l rs rv wv wr where "threads s i = Locking v tx ((k, l) # rs) rv wv wr"
        by (auto simp: K_def)
      then show "k \<in> (\<lambda>i. case threads s i of Locking v tx (e # rs) rv wv wr \<Rightarrow> fst e | _ \<Rightarrow> undefined) `
          {i. \<nexists>v. threads s i = Finished v}"
        by (intro image_eqI [of _ _ i]) simp_all
    qed
    then have "finite K" using reachable_finite [OF assms(1)] by (meson finite_imageI finite_subset)
    moreover have "K \<noteq> {}"
    proof -
      from in_L [OF holder] obtain k where "(k, j) \<in> ?L" by blast
      then have "k \<in> K" unfolding K_def by (rule image_eqI [rotated]) simp
      then show ?thesis by blast
    qed
    ultimately obtain m where m: "m \<in> K" "\<And>k'. k' \<in> K \<Longrightarrow> k' \<le> m" by (meson Max_ge Max_in)
    from m(1) obtain e where e: "m = fst e" "e \<in> ?L" unfolding K_def by (rule imageE)
    define i where "i = snd e"
    have max: "(m, i) \<in> ?L" using e by (simp add: i_def)
    from assms(2) [of i] have "\<not> can_read m s \<or> \<not> can_write m s"
      using max by (cases rule: no_step_cases) auto
    from not_grantable_held [OF inv this] obtain j' l where
      l: "l \<in> set (held (threads s j'))" "lock_key l = m" by blast
    then have "held (threads s j') \<noteq> []" by auto
    from in_L [OF this] obtain k where k: "(k, j') \<in> ?L" "lock_key l < k" using l(1) by blast
    from k(1) have "k \<in> K" unfolding K_def by (rule image_eqI [rotated]) simp
    with m(2) k(2) l(2) show False by fastforce
  qed
  have free: "can_read k s \<and> can_write k s" for k
    using not_grantable_held [OF inv, of k] no_holder by force
  from assms(2) [of i] show ?thesis
    by (cases rule: no_step_cases) (use free in auto)
qed

text \<open>C6: the locks cannot deadlock, since every commit takes them in address order: if no thread has a
  step, every thread has returned, after its commit or without one, has panicked, or is parked with
  its flag still set.\<close>

theorem no_deadlock:
  assumes "reachable cfg p s" and "\<And>i. thread_step cfg p i s = None"
  shows "(\<exists>v. threads s i = Finished v) \<or> (\<exists>r. threads s i = Stopped r) \<or> (\<exists>flt. threads s i = Panicked flt) \<or>
    (\<exists>tx c reads. threads s i = Parked tx c reads \<and> ctrl_blocked c (shared s))"
  using assms by (rule quiet_threads)

text \<open>A thread that reads a variable and retries; it parks, and then no thread has a step.\<close>

definition retry_prog :: "nat \<Rightarrow> int prog" where
  "retry_prog i = Perform (ReadOp (demo_var 2)) (\<lambda>_. Raise Retry)"

definition parked_system :: "int system" where
  "parked_system = the (run_schedule default_config retry_prog [0, 0, 0, 0, 0] (demo_system retry_prog 1))"

lemma parked_system_run:
  "run_schedule default_config retry_prog [0, 0, 0, 0, 0] (demo_system retry_prog 1) = Some parked_system"
  "threads parked_system i = (if i = 0
     then Parked \<lparr>vars = [], tallies_of = tallies_default\<rparr> 0 [(Block 2, Arc 2 (Dyn 0 20))] else Finished 0)"
  "ctrl_blocked 0 (shared parked_system)"
  by (simp_all add: parked_system_def thread_step_def retry_prog_def TVar_ops Transaction_read_def and_then_def
      lift_result_def loads_def Let_def count_def reg_insert_def can_read_def transaction_default_def
      TVar_read_ref_atomic_def downcast_def read_values_def List.map_filter_def ptr_eq_def
      VarControlBlock_wait_def ctrl_blocked_def ControlBlock_new_def)

lemma run_schedule_calls: "run_schedule cfg p is s = Some s' \<Longrightarrow> calls s' = calls s"
  by (induction "is" arbitrary: s) (auto dest: thread_step_calls split: option.splits)

lemma parked_system_calls: "calls parked_system i = With"
  using run_schedule_calls [OF parked_system_run(1)] by simp

theorem no_deadlock_witness:
  "reachable default_config retry_prog parked_system \<and> (\<forall>i. thread_step default_config retry_prog i parked_system = None) \<and>
   (\<exists>tx c reads. threads parked_system 0 = Parked tx c reads \<and> ctrl_blocked c (shared parked_system))"
proof (intro conjI)
  show reach: "reachable default_config retry_prog parked_system"
    by (rule run_schedule_reachable [OF parked_system_run(1)]) (intro reachable.start initial_demo)
  show stuck: "\<forall>i. thread_step default_config retry_prog i parked_system = None"
    by (simp add: thread_step_def parked_system_run(2,3))
  show "\<exists>tx c reads. threads parked_system 0 = Parked tx c reads \<and> ctrl_blocked c (shared parked_system)"
    using no_deadlock [OF reach stuck [rule_format], of 0] parked_system_run(2) by auto
qed

end
