(* ===== verification/Atomicity.thy ===== *)
theory Atomicity
  imports Progress_Properties
begin

text \<open>
  Commits are atomic.  The abstract memory gives each variable the value that a commit past its first
  phase is about to store there, and otherwise the value it holds.  No step of a thread changes the
  abstract memory but the end of the first phase of a commit, which does to it what the atomic commit
  of \<open>Commit_Wait\<close> does; so the order of these points is an order in which the commits could have run
  one after another.
\<close>

section \<open>The abstract memory\<close>

fun pending :: "'v thread_state \<Rightarrow> block \<Rightarrow> 'v arc option" where
  "pending (Releasing v rv wv wr) = map_of wv"
| "pending (Writing v wv wr) = map_of wv"
| "pending _ = (\<lambda>_. None)"

definition pending_value :: "'v system \<Rightarrow> block \<Rightarrow> 'v arc option" where
  "pending_value s k = (case writer s k of Some i \<Rightarrow> pending (threads s i) k | None \<Rightarrow> None)"

definition abs_mem :: "'v system \<Rightarrow> block \<Rightarrow> 'v arc" where
  "abs_mem s k = (case pending_value s k of Some x \<Rightarrow> x | None \<Rightarrow> value_of s k)"

text \<open>The shared state in which all pending values are stored.\<close>

definition abs_world :: "'v system \<Rightarrow> 'v world" where
  "abs_world s = (shared s)\<lparr>blocks := (\<lambda>k. (blocks (shared s) k)\<lparr>vcb_value := abs_mem s k\<rparr>)\<rparr>"

lemma abs_world_sel [simp]:
  "mem (abs_world s) k = abs_mem s k" "live (abs_world s) = live (shared s)"
  by (simp_all add: abs_world_def)

lemma pending_held: "pending st k = Some x \<Longrightarrow> WriteLock k \<in> set (held st)"
  by (cases st) (auto dest: map_of_SomeD intro: rev_image_eqI)

lemma pending_value_iff:
  assumes "lock_inv s"
  shows "pending_value s k = Some x \<longleftrightarrow> (\<exists>i. pending (threads s i) k = Some x)"
proof
  assume "pending_value s k = Some x"
  then show "\<exists>i. pending (threads s i) k = Some x"
    by (auto simp: pending_value_def split: option.splits)
next
  assume "\<exists>i. pending (threads s i) k = Some x"
  then obtain i where i: "pending (threads s i) k = Some x" by blast
  with pending_held [OF i] assms have "writer s k = Some i" by (simp add: lock_inv_def)
  with i show "pending_value s k = Some x" by (simp add: pending_value_def)
qed

lemma abs_mem_idle:
  assumes "pending (threads s i) = (\<lambda>_. None)" and "pending st = (\<lambda>_. None)"
  shows "abs_mem (set_thread i st s) = abs_mem s"
proof -
  have "pending_value (set_thread i st s) k = pending_value s k" for k
    using assms by (auto simp: pending_value_def split: option.split)
  then show ?thesis by (simp add: abs_mem_def fun_eq_iff split: option.split)
qed

text \<open>A variable that a thread has locked before the end of its first phase has no pending value.\<close>

lemma locked_not_pending:
  assumes "lock_inv s" and "l \<in> set (held (threads s i))" and "lock_key l = k"
    and "\<And>j. pending (threads s i) j = None"
  shows "pending_value s k = None"
proof (rule ccontr)
  assume "pending_value s k \<noteq> None"
  then obtain j x where j: "pending (threads s j) k = Some x"
    using pending_value_iff [OF assms(1)] by auto
  from held_apart [OF assms(1) pending_held [OF j] assms(2,3)] j assms(4) show False by simp
qed

section \<open>The checks of a commit stay valid\<close>

definition checks_hold :: "config \<Rightarrow> 'v system \<Rightarrow> 'v thread_state \<Rightarrow> bool" where
  "checks_hold cfg s st \<longleftrightarrow> (\<forall>v tx rs rv wv wr k l u. st = Locking v tx rs rv wv wr \<longrightarrow>
     (k, l) \<in> set (reg_records cfg (vars tx)) - set rs \<longrightarrow> LogVar_checked l = Some u \<longrightarrow> ptr_eq (value_of s k) u)"

lemma checks_holdI:
  "(\<And>v tx rs rv wv wr. st \<noteq> Locking v tx rs rv wv wr) \<Longrightarrow> checks_hold cfg s st"
  by (simp add: checks_hold_def)

lemma checked_held:
  assumes "wf_thread cfg (Locking v tx rs rv wv wr)"
    and "(k, l) \<in> set (reg_records cfg (vars tx)) - set rs" and "LogVar_checked l = Some u"
  shows "\<exists>h \<in> set (held (Locking v tx rs rv wv wr)). lock_key h = k"
proof -
  from assms(1) obtain ps where ps: "reg_records cfg (vars tx) = ps @ rs"
    and eqs: "rv = read_keys ps" "wv = written_pairs ps" by auto
  with assms(2) have "(k, l) \<in> set ps" by auto
  then show ?thesis
    using assms(3) set_read_keys [of k ps] set_written_pairs [of k _ ps]
    by (cases l) (force simp: eqs)+
qed

text \<open>The value of a variable changes only under the write lock.\<close>

lemma memory_change_locked:
  assumes "thread_step cfg p i s = Some s'" and "value_of s' k \<noteq> value_of s k"
  shows "WriteLock k \<in> set (held (threads s i))"
  using assms(1)
proof (cases rule: thread_step_memory)
  case same
  with assms(2) show ?thesis by simp
next
  case (stored v j x wv wr)
  with assms(2) show ?thesis by (auto split: if_splits)
qed

lemma checks_lock_step:
  assumes "lock_step i v tx k l rs rv wv wr s = Some s'" and "reg_wf cfg (vars tx)"
    and "reg_records cfg (vars tx) = ps @ (k, l) # rs"
    and "checks_hold cfg s (Locking v tx ((k, l) # rs) rv wv wr)"
  shows "checks_hold cfg s' (threads s' i)"
proof -
  from assms(1) show ?thesis
  proof (cases rule: lock_step_cases)
    case (stored x)
    then show ?thesis
      using assms(4) lock_value [OF assms(1)] by (fastforce simp: checks_hold_def)
  next
    case (obsolete u)
    then show ?thesis
      using assms(4) lock_value [OF assms(1)] by (fastforce simp: checks_hold_def)
  next
    case (checked u)
    then show ?thesis
      using assms(4) lock_value [OF assms(1)] by (fastforce simp: checks_hold_def)
  qed (auto intro!: checks_holdI)
qed

lemma checks_thread_step:
  assumes step: "thread_step cfg p i s = Some s'" and wf: "wf_thread cfg (threads s i)"
    and "checks_hold cfg s (threads s i)"
  shows "checks_hold cfg s' (threads s' i)"
proof (cases "threads s i")
  case (Running tx fs q)
  with step have b: "body_step cfg p i tx fs q s = Some s'" by (simp add: thread_step_def)
  have ends: "checks_hold cfg s1 (threads (body_ends cfg p i tx fs r s) i)" for s1 r
    by (cases rule: body_ends_cases [of fs r])
      (auto simp: Let_def restart_def checks_hold_def)
  show ?thesis
  proof (cases q)
    case (Perform op k)
    with b have "body_step cfg p i tx fs (Perform op k) s = Some s'" by simp
    then show ?thesis by (cases rule: perform_cases) (auto intro!: checks_holdI)
  next
    case (Return x)
    with b have "s' = body_ends cfg p i tx fs (Inr x) s" by simp
    with ends show ?thesis by (simp only:)
  next
    case (Raise e)
    with b have "s' = body_ends cfg p i tx fs (Inl e) s" by simp
    with ends show ?thesis by (simp only:)
  qed (use b in \<open>auto intro!: checks_holdI\<close>)
next
  case (Locking v tx rs rv wv wr)
  show ?thesis
  proof (cases rs)
    case Nil
    with step Locking show ?thesis by (auto simp: thread_step_def intro!: checks_holdI)
  next
    case (Cons r rs')
    obtain k l where r: "r = (k, l)" by (cases r)
    with step Locking Cons have "lock_step i v tx k l rs' rv wv wr s = Some s'" by (simp add: thread_step_def)
    with wf assms(3) show ?thesis unfolding Locking Cons r by (auto intro: checks_lock_step)
  qed
qed (use step in \<open>auto simp: thread_step_defs restart_def finish_def split: list.splits if_splits intro!: checks_holdI\<close>)

lemma checks_other:
  assumes "wf_thread cfg (threads s j)" and "checks_hold cfg s (threads s j)"
    and "\<And>k h. h \<in> set (held (threads s j)) \<Longrightarrow> lock_key h = k \<Longrightarrow> value_of s' k = value_of s k"
  shows "checks_hold cfg s' (threads s j)"
  unfolding checks_hold_def
proof (intro allI impI)
  fix v tx rs rv wv wr k l u
  assume st: "threads s j = Locking v tx rs rv wv wr"
    and kl: "(k, l) \<in> set (reg_records cfg (vars tx)) - set rs" and u: "LogVar_checked l = Some u"
  from checked_held [OF assms(1) [unfolded st] kl u] assms(3) st have "value_of s' k = value_of s k" by auto
  with assms(2) st kl u show "ptr_eq (value_of s' k) u" by (auto simp: checks_hold_def)
qed

interpretation checks: system_invariant cfg p "\<lambda>s. \<forall>i. checks_hold cfg s (threads s i)" for cfg p
proof
  fix s :: "'a system"
  assume start: "initial p s"
  show "\<forall>i. checks_hold cfg s (threads s i)"
  proof
    fix i
    from start show "checks_hold cfg s (threads s i)"
      by (cases rule: initial_threads [where i = i]) (auto intro!: checks_holdI)
  qed
next
  fix s s' :: "'a system" and j
  assume reach: "reachable cfg p s" and inv: "\<forall>i. checks_hold cfg s (threads s i)"
    and step: "thread_step cfg p j s = Some s'"
  show "\<forall>i. checks_hold cfg s' (threads s' i)"
  proof
    fix i
    show "checks_hold cfg s' (threads s' i)"
    proof (cases "i = j")
      case True
      with checks_thread_step [OF step reachable_wf [OF reach]] inv show ?thesis by simp
    next
      case False
      have "value_of s' k = value_of s k" if "h \<in> set (held (threads s i))" "lock_key h = k" for k h
        using held_apart [OF reachable_locks [OF reach] memory_change_locked [OF step] that] False by fastforce
      with checks_other [OF reachable_wf [OF reach]] inv thread_step_others [OF step False] show ?thesis by metis
    qed
  qed
next
  fix s :: "'a system" and i
  assume "\<forall>i. checks_hold cfg s (threads s i)"
  then show "\<forall>j. checks_hold cfg (set_thread i (Stopped Abandoned) s) (threads (set_thread i (Stopped Abandoned) s) j)"
    by (auto simp: checks_hold_def)
next
  fix s :: "'a system" and var :: tvar and v
  assume reach: "reachable cfg p s" and inv: "\<forall>i. checks_hold cfg s (threads s i)"
    and free: "can_write (control_block_of var) s"
  let ?s = "s\<lparr>shared := TVar_write_atomic var v (shared s)\<rparr>"
  show "\<forall>i. checks_hold cfg ?s (threads ?s i)"
  proof
    fix i
    have "value_of ?s k = value_of s k" if "h \<in> set (held (threads s i))" "lock_key h = k" for k h
    proof -
      have "k \<noteq> control_block_of var"
        using locked_not_writable [OF reachable_locks [OF reach] that(1)] that(2) free by auto
      then show ?thesis by (simp add: TVar_write_atomic_def Arc_new_def)
    qed
    with checks_other [OF reachable_wf [OF reach]] inv show "checks_hold cfg ?s (threads ?s i)" by simp
  qed
qed

lemmas reachable_checks = checks.invariant [rule_format]

end
