(* ===== verification/Atomicity_Properties.thy ===== *)
theory Atomicity_Properties
  imports Atomicity Commit_Properties
begin

text \<open>
  The linearisation of the commits: which steps change the abstract memory, and how.
\<close>

section \<open>Pending values\<close>

text \<open>The end of the first phase of a commit.\<close>

definition commits :: "'v system \<Rightarrow> nat \<Rightarrow> bool" where
  "commits s i \<longleftrightarrow> (\<exists>v tx rv wv wr. threads s i = Locking v tx [] rv wv wr)"

lemma pending_body_ends: "pending (threads (body_ends cfg p i tx fs r s) i) = (\<lambda>_. None)"
  by (cases rule: body_ends_cases [of fs r]) (auto simp: Let_def restart_def)

lemma pending_step:
  assumes "thread_step cfg p i s = Some s'" and "\<not> commits s i"
    and "\<And>v k x wv wr. threads s i \<noteq> Writing v ((k, x) # wv) wr"
  shows "pending (threads s' i) = pending (threads s i)"
proof (cases "threads s i")
  case (Running tx fs q)
  with assms(1) have b: "body_step cfg p i tx fs q s = Some s'" by (simp add: thread_step_def)
  show ?thesis
  proof (cases q)
    case (Perform op k)
    with b have "body_step cfg p i tx fs (Perform op k) s = Some s'" by simp
    then show ?thesis by (cases rule: perform_cases) (simp_all add: Running)
  next
    case (Return x)
    with b have "s' = body_ends cfg p i tx fs (Inr x) s" by simp
    with pending_body_ends show ?thesis by (simp add: Running)
  next
    case (Raise e)
    with b have "s' = body_ends cfg p i tx fs (Inl e) s" by simp
    with pending_body_ends show ?thesis by (simp add: Running)
  qed (use b Running in auto)
next
  case (Locking v tx rs rv wv wr)
  with assms(2) obtain k l rs' where "rs = (k, l) # rs'" by (cases rs) (auto simp: commits_def)
  with assms(1) Locking have "lock_step i v tx k l rs' rv wv wr s = Some s'" by (simp add: thread_step_def)
  then show ?thesis by (cases rule: lock_step_cases) (simp_all add: Locking)
next
  case (Writing v wv wr)
  have "wv = []"
  proof (cases wv)
    case (Cons e wv')
    obtain k x where "e = (k, x)" by (cases e)
    with assms(3) [of v k x wv' wr] Writing Cons show ?thesis by simp
  qed
  with assms(1) Writing show ?thesis by (auto simp: thread_step_def finish_def)
qed (use assms(1) in \<open>auto simp: thread_step_defs restart_def finish_def split: list.splits if_splits\<close>)

lemma abs_mem_other_step:
  assumes reach: "reachable cfg p s" and step: "thread_step cfg p i s = Some s'" and "\<not> commits s i"
  shows "abs_mem s' k = abs_mem s k"
proof -
  note inv = reachable_locks [OF reach] and wf = reachable_wf [OF reach]
  note inv' = lock_inv_step [OF step wf inv]
  have others: "pending (threads s' j) = pending (threads s j)" if "j \<noteq> i" for j
    using thread_step_others [OF step that] by simp
  from step show ?thesis
  proof (cases rule: thread_step_memory)
    case same
    then have "pending (threads s' j) = pending (threads s j)" for j
      using others pending_step [OF step assms(3)] by (cases "j = i") auto
    then have "pending_value s' k = Some x \<longleftrightarrow> pending_value s k = Some x" for x
      by (simp add: pending_value_iff [OF inv] pending_value_iff [OF inv'])
    then have "pending_value s' k = pending_value s k" by (metis not_None_eq)
    with same show ?thesis by (simp add: abs_mem_def split: option.split)
  next
    case (stored v j x wv wr)
    have "writer s j = Some i" using inv stored(1) by (simp add: lock_inv_def)
    have fresh: "j \<notin> fst ` set wv" using wf [of i] stored(1) by simp
    show ?thesis
    proof (cases "k = j")
      case True
      have "pending_value s k = Some x" using True \<open>writer s j = Some i\<close> stored(1) by (simp add: pending_value_def)
      moreover have "pending_value s' k = None" using True stored(3) by (simp add: pending_value_def)
      ultimately show ?thesis using stored(5) [of k] True by (simp add: abs_mem_def)
    next
      case False
      have "pending (threads s' m) k = pending (threads s m) k" for m
        using others [of m] stored(1,2) False by (cases "m = i") auto
      then have "pending_value s' k = Some y \<longleftrightarrow> pending_value s k = Some y" for y
        by (simp add: pending_value_iff [OF inv] pending_value_iff [OF inv'])
      then have "pending_value s' k = pending_value s k" by (metis not_None_eq)
      with stored(5) [of k] False show ?thesis by (simp add: abs_mem_def split: option.split)
    qed
  qed
qed

lemma commit_point:
  assumes reach: "reachable cfg p s" and st: "threads s i = Locking v tx [] rv wv wr"
    and step: "thread_step cfg p i s = Some s'"
  shows "reg_wf cfg (vars tx)" and "log_valid (abs_world s) (vars tx)"
    and "abs_mem s' k = (case log_writes (vars tx) k of Some x \<Rightarrow> x | None \<Rightarrow> abs_mem s k)"
    and "threads s' i = Releasing v rv wv wr"
proof -
  note inv = reachable_locks [OF reach] and wf = reachable_wf [OF reach]
  note inv' = lock_inv_step [OF step wf inv]
  from wf [of i] st have reg: "reg_wf cfg (vars tx)" and wv: "wv = written_pairs (reg_records cfg (vars tx))"
    by auto
  show "reg_wf cfg (vars tx)" by (rule reg)
  from step st have s': "s' = set_thread i (Releasing v rv wv wr) s" by (simp add: thread_step_def)
  then show "threads s' i = Releasing v rv wv wr" by simp
  show "log_valid (abs_world s) (vars tx)"
    unfolding log_valid_def
  proof (intro allI impI)
    fix k l u
    assume l: "map_of (vars tx) k = Some l" and u: "LogVar_checked l = Some u"
    then have kl: "(k, l) \<in> set (reg_records cfg (vars tx)) - set []" by (simp add: map_of_SomeD)
    with reachable_checks [OF reach, of i] st u have "ptr_eq (value_of s k) u"
      by (fastforce simp: checks_hold_def)
    moreover obtain h where "h \<in> set (held (threads s i))" "lock_key h = k"
      using checked_held [OF _ kl u] wf [of i] st by auto
    then have "pending_value s k = None" by (rule locked_not_pending [OF inv]) (simp add: st)
    ultimately show "ptr_eq (mem (abs_world s) k) u" by (simp add: abs_mem_def)
  qed
  have wmap: "map_of wv k = log_writes (vars tx) k" for k
    using written_pairs_records(2) [OF reg] by (simp add: wv)
  show "abs_mem s' k = (case log_writes (vars tx) k of Some x \<Rightarrow> x | None \<Rightarrow> abs_mem s k)"
  proof (cases "log_writes (vars tx) k")
    case (Some x)
    then have "pending (threads s' i) k = Some x" by (simp add: s' wmap)
    then have "pending_value s' k = Some x" using pending_value_iff [OF inv'] by blast
    with Some show ?thesis by (simp add: abs_mem_def)
  next
    case None
    then have "pending (threads s' j) k = pending (threads s j) k" for j
      by (cases "j = i") (simp_all add: s' st wmap)
    then have "pending_value s' k = Some y \<longleftrightarrow> pending_value s k = Some y" for y
      by (simp add: pending_value_iff [OF inv] pending_value_iff [OF inv'])
    then have "pending_value s' k = pending_value s k" by (metis not_None_eq)
    with None s' show ?thesis by (simp add: abs_mem_def split: option.split)
  qed
qed

lemma abs_mem_write_atomic:
  assumes "can_write (control_block_of var) s"
  shows "abs_mem (s\<lparr>shared := TVar_write_atomic var v (shared s)\<rparr>) k =
    (if k = control_block_of var then Arc (next_arc (shared s)) (Dyn (marker var) v) else abs_mem s k)"
  using assms
  by (simp add: abs_mem_def pending_value_def can_write_def TVar_write_atomic_def Arc_new_def
      split: option.split)

section \<open>Commits are atomic\<close>

text \<open>C3: in every interleaving, the commits take effect one at a time: at the end of its first phase a
  commit does to the abstract memory what the atomic commit of the whole log does, and succeeds there;
  no other step of any thread changes the abstract memory, so a commit that fails, a body that runs,
  a thread that waits and a transaction that is cancelled or abandoned are invisible; and \<open>write_atomic\<close> stores one value.\<close>

theorem commits_are_atomic:
  assumes "reachable cfg p s" and "step cfg p s l s'"
  shows "case l of
      ThreadStep i \<Rightarrow>
        (if commits s i
         then \<exists>v tx rv wv wr w'. threads s i = Locking v tx [] rv wv wr \<and>
           (keys_live cfg (abs_world s) (vars tx) \<longrightarrow>
             Transaction_commit cfg tx (abs_world s) = (Inr True, w') \<and> (\<forall>k. mem w' k = abs_mem s' k))
         else abs_mem s' = abs_mem s)
    | GiveUp i \<Rightarrow> abs_mem s' = abs_mem s
    | AtomicWrite var v \<Rightarrow>
        abs_mem s' = (abs_mem s)(control_block_of var := Arc (next_arc (shared s)) (Dyn (marker var) v))"
  using assms(2)
proof (cases rule: step.cases)
  case (thread i)
  show ?thesis
  proof (cases "commits s i")
    case True
    then obtain v tx rv wv wr where st: "threads s i = Locking v tx [] rv wv wr" by (auto simp: commits_def)
    note cp = commit_point [OF assms(1) st thread(2)]
    let ?w = "commit_world cfg (reg_records cfg (vars tx)) (abs_world s)"
    have "mem ?w k = abs_mem s' k" for k
      by (simp add: commit_world_blocks [OF cp(1)] cp(3) split: option.split)
    moreover have "Transaction_commit cfg tx (abs_world s) = (Inr True, ?w)"
      if "keys_live cfg (abs_world s) (vars tx)"
      using that cp(1,2) by (simp add: Transaction_commit_eq)
    ultimately show ?thesis using True st thread(1) by auto
  next
    case False
    with abs_mem_other_step [OF assms(1) thread(2)] thread(1) show ?thesis by (simp add: fun_eq_iff)
  qed
next
  case (give_up i tx e)
  then show ?thesis by (simp add: abs_mem_idle)
next
  case (atomic var v)
  then show ?thesis by (simp add: abs_mem_write_atomic fun_eq_iff)
qed

lemma locked_system_reachable: "reachable default_config (write_prog 2) locked_system"
  by (rule run_schedule_reachable [OF locked_system_run(1)]) (intro reachable.start initial_demo)

theorem commits_are_atomic_witness:
  "\<exists>s' w'. thread_step default_config (write_prog 2) 0 locked_system = Some s' \<and>
     Transaction_commit default_config \<lparr>vars = [(Block 2, Write (Arc 100 (Dyn 0 0)))], tallies_of = tallies_default\<rparr>
       (abs_world locked_system) = (Inr True, w') \<and> abs_mem s' (Block 2) = mem w' (Block 2)"
proof -
  obtain s' where s': "thread_step default_config (write_prog 2) 0 locked_system = Some s'"
    using locked_system_run(2) by (simp add: thread_step_def)
  have "commits locked_system 0" using locked_system_run(2) by (simp add: commits_def)
  with commits_are_atomic [OF locked_system_reachable step.thread [OF s']] locked_system_run(2) s' show ?thesis
    by auto
qed

end
