(* ===== verification/Replay.thy ===== *)
theory Replay
  imports Atomicity_Properties
begin

text \<open>
  Replaying a running transaction.  The log of a thread determines its run: whatever the other
  threads did in between, the body would have performed the operations it has performed on every
  store that agrees with the reads in the log, and from there it would see what the log says.  This
  theory proves it operation by operation; \<open>Histories\<close> carries it through the interleavings.
\<close>

section \<open>Logs and stores\<close>

text \<open>The store has the values that a commit of the log checks.\<close>

definition agrees :: "'v store \<Rightarrow> 'v arc register \<Rightarrow> bool" where
  "agrees s r \<longleftrightarrow>
     (\<forall>k l u. map_of r k = Some l \<longrightarrow> LogVar_checked l = Some u \<longrightarrow> s k = payload (arc_dyn u))"

text \<open>The store with the writes of the log.\<close>

definition overlay :: "'v store \<Rightarrow> 'v arc register \<Rightarrow> 'v store" where
  "overlay s r k = (case log_writes r k of Some x \<Rightarrow> payload (arc_dyn x) | None \<Rightarrow> s k)"

lemma agrees_Nil [simp]: "agrees s []"
  by (simp add: agrees_def)

lemma overlay_Nil [simp]: "overlay s [] = s"
  by (simp add: overlay_def log_writes_def fun_eq_iff)

lemma overlay_set:
  assumes "reg_wf cfg r"
  shows "overlay s (reg_set cfg k l r) =
    (overlay s r)(k := case LogVar_written l of Some x \<Rightarrow> payload (arc_dyn x) | None \<Rightarrow> s k)"
  using assms by (auto simp: overlay_def log_writes_def fun_eq_iff)

lemma agrees_set:
  assumes "reg_wf cfg r" and "agrees s (reg_set cfg k l r)"
    and "\<And>l0 u. map_of r k = Some l0 \<Longrightarrow> LogVar_checked l0 = Some u \<Longrightarrow> LogVar_checked l = Some u"
  shows "agrees s r" and "LogVar_checked l = Some u \<Longrightarrow> s k = payload (arc_dyn u)"
proof -
  show "agrees s r"
    unfolding agrees_def
  proof (intro allI impI)
    fix j l0 u
    assume "map_of r j = Some l0" and "LogVar_checked l0 = Some u"
    with assms show "s j = payload (arc_dyn u)"
      by (cases "j = k") (fastforce simp: agrees_def)+
  qed
  show "s k = payload (arc_dyn u)" if "LogVar_checked l = Some u"
    using assms(1,2) that by (simp add: agrees_def)
qed

text \<open>Obsolete entries count for neither.\<close>

lemma agrees_combine:
  assumes "reg_wf cfg r" and "distinct (map fst vs)" and "agrees s (combine_vars cfg vs r)"
  shows "agrees s r"
  using assms by (auto simp: agrees_def map_of_combine_vars split: option.splits)

lemma obsolete_unwritten: "Option.bind (LogVar_obsolete l) LogVar_written = None"
  by (cases l) (simp_all add: LogVar_obsolete_def)

lemma overlay_combine:
  assumes "reg_wf cfg r" and "distinct (map fst vs)"
  shows "overlay s (combine_vars cfg vs r) = overlay s r"
proof
  fix k
  have "log_writes (combine_vars cfg vs r) k = log_writes r k"
    using assms by (cases "map_of r k"; cases "map_of vs k")
      (simp_all add: log_writes_def map_of_combine_vars obsolete_unwritten)
  then show "overlay s (combine_vars cfg vs r) k = overlay s r k" by (simp add: overlay_def)
qed

text \<open>The entry of a variable that was just read shows its value in the store.\<close>

lemma current_overlay:
  assumes "\<And>u. LogVar_into_read_value (entry_of var tx w) = Some u \<Longrightarrow>
      s (control_block_of var) = payload (arc_dyn u)"
  shows "payload (arc_dyn (LogVar_current (entry_of var tx w))) = overlay s (vars tx) (control_block_of var)"
proof (cases "LogVar_written (entry_of var tx w)")
  case (Some x)
  then have "log_writes (vars tx) (control_block_of var) = Some x"
    by (auto simp: entry_of_def log_writes_def split: option.splits)
  with Some LogVar_current_written [OF Some] show ?thesis by (simp add: overlay_def)
next
  case None
  then have "log_writes (vars tx) (control_block_of var) = None"
    by (auto simp: entry_of_def log_writes_def split: option.splits)
  with assms [OF LogVar_current_unwritten [OF None]] show ?thesis by (simp add: overlay_def)
qed

section \<open>Replaying an operation\<close>

lemma downcast_Inr: "downcast ty x = Inr v \<Longrightarrow> payload (arc_dyn x) = v"
  by (simp add: downcast_def split: if_splits)

text \<open>An operation that reads the variable: the entry it leaves keeps the original value and checks it.\<close>

lemma replay_entry:
  assumes wf: "reg_wf cfg (vars tx)" and tx1: "vars tx1 = vars tx"
    and agr: "agrees s (vars (set_entry cfg var l tx1))"
    and chk: "LogVar_checked l = LogVar_into_read_value (entry_of var tx w)"
  shows "agrees s (vars tx)"
    and "payload (arc_dyn (LogVar_current (entry_of var tx w))) = overlay s (vars tx) (control_block_of var)"
    and "overlay s (vars (set_entry cfg var l tx1)) = (overlay s (vars tx))(control_block_of var :=
      (case LogVar_written l of Some x \<Rightarrow> payload (arc_dyn x) | None \<Rightarrow> s (control_block_of var)))"
proof -
  let ?k = "control_block_of var"
  have agr': "agrees s (reg_set cfg ?k l (vars tx))" using agr tx1 by simp
  have "LogVar_checked l = Some u" if "map_of (vars tx) ?k = Some l0" "LogVar_checked l0 = Some u" for l0 u
    using that LogVar_checked_orig by (auto simp: chk entry_of_def)
  note set = agrees_set [OF wf agr' this]
  show "agrees s (vars tx)" by (rule set(1))
  show "payload (arc_dyn (LogVar_current (entry_of var tx w))) = overlay s (vars tx) ?k"
    by (rule current_overlay) (use set(2) chk in simp)
  show "overlay s (vars (set_entry cfg var l tx1)) = (overlay s (vars tx))(?k :=
      (case LogVar_written l of Some x \<Rightarrow> payload (arc_dyn x) | None \<Rightarrow> s ?k))"
    using wf tx1 by (simp add: overlay_set)
qed

lemma replay_op:
  assumes wf: "reg_wf cfg (vars tx)" and run: "op_body cfg b tx w = (Inr (Inr r, tx'), w')"
    and agr: "agrees s (vars tx')"
  shows "agrees s (vars tx)" and "op_spec b (overlay s (vars tx)) = Inr (r, overlay s (vars tx'))"
proof -
  have "agrees s (vars tx) \<and> op_spec b (overlay s (vars tx)) = Inr (r, overlay s (vars tx'))"
  proof (cases b)
    case (ReadOp var)
    let ?l = "entry_of var tx w"
    from run ReadOp obtain v tx1 where tx': "tx' = set_entry cfg var (snd (LogVar_read ?l)) tx1" "vars tx1 = vars tx"
      and v: "r = Some v" "downcast (marker var) (LogVar_current ?l) = Inr v"
      by (auto simp: TVar_ops and_then_def lift_result_def Transaction_read_eq Let_def split: if_splits sum.splits)
    note re = replay_entry [OF wf tx'(2), of s var "snd (LogVar_read ?l)" w]
    have same: "(overlay s (vars tx)) (control_block_of var) =
        (case LogVar_written ?l of Some x \<Rightarrow> payload (arc_dyn x) | None \<Rightarrow> s (control_block_of var))"
      by (auto simp: overlay_def entry_of_def log_writes_def split: option.splits)
    show ?thesis
      using re agr downcast_Inr [OF v(2)] ReadOp v(1) by (simp add: tx'(1) flip: same)
  next
    case (WriteOp var v)
    let ?b = "Arc (next_arc w) (Dyn (marker var) v)"
    let ?l = "case map_of (vars tx) (control_block_of var) of Some l \<Rightarrow> LogVar_write ?b l | None \<Rightarrow> Write ?b"
    from run WriteOp obtain tx1 where tx': "tx' = set_entry cfg var ?l tx1" "vars tx1 = vars tx" and r: "r = None"
      by (auto simp: TVar_ops and_then_def lift_result_def Transaction_write_eq Let_def)
    have "agrees s (reg_set cfg (control_block_of var) ?l (vars tx))" using agr tx' by simp
    from agrees_set(1) [OF wf this] have "agrees s (vars tx)" by (auto split: option.splits)
    moreover have "LogVar_written ?l = Some ?b" by (auto split: option.split)
    ultimately show ?thesis using wf tx' r WriteOp by (simp add: overlay_set)
  next
    case (ModifyOp var f)
    let ?l = "entry_of var tx w"
    from run ModifyOp obtain v tx1 where r: "r = None"
      and tx': "tx' = set_entry cfg var (LogVar_write (Arc (next_arc w) (Dyn (marker var) (f v)))
        (snd (LogVar_read ?l))) tx1" "vars tx1 = vars tx"
      and v: "downcast (marker var) (LogVar_current ?l) = Inr v"
      by (auto simp: TVar_ops and_then_def lift_result_def Transaction_modify_eq Let_def split: if_splits sum.splits)
    note re = replay_entry [OF wf tx'(2), of s var "LogVar_write (Arc (next_arc w) (Dyn (marker var) (f v)))
        (snd (LogVar_read ?l))" w]
    show ?thesis
      using re agr downcast_Inr [OF v] ModifyOp r by (simp add: tx'(1))
  next
    case (ExchangeOp var x)
    let ?l = "entry_of var tx w"
    from run ExchangeOp obtain v tx1 where r: "r = Some v"
      and tx': "tx' = set_entry cfg var (LogVar_write (Arc (next_arc w) (Dyn (marker var) x))
        (snd (LogVar_read ?l))) tx1" "vars tx1 = vars tx"
      and v: "downcast (marker var) (LogVar_current ?l) = Inr v"
      by (auto simp: TVar_ops and_then_def lift_result_def Transaction_exchange_eq Let_def split: if_splits sum.splits)
    note re = replay_entry [OF wf tx'(2), of s var "LogVar_write (Arc (next_arc w) (Dyn (marker var) x))
        (snd (LogVar_read ?l))" w]
    show ?thesis
      using re agr downcast_Inr [OF v] ExchangeOp r by (simp add: tx'(1))
  qed
  then show "agrees s (vars tx)" and "op_spec b (overlay s (vars tx)) = Inr (r, overlay s (vars tx'))"
    by simp_all
qed

section \<open>What a program may return\<close>

text \<open>
  The results of a program on a store, when the second alternative of an \<open>or\<close> may be taken although
  the first would not retry there; for programs without \<open>or\<close> they are those of \<open>spec\<close>.
\<close>

primrec may_return :: "'v prog \<Rightarrow> 'v store \<Rightarrow> ('v \<times> 'v store) set" where
  "may_return (Return v) s = {(v, s)}"
| "may_return (Raise e) s = {}"
| "may_return (Perform b k) s = (case op_spec b s of Inl e \<Rightarrow> {} | Inr (r, s') \<Rightarrow> may_return (k r) s')"
| "may_return (OrElse p q k) s = (\<Union>(v, s') \<in> may_return p s \<union> may_return q s. may_return (k v) s')"

primrec or_free :: "'v prog \<Rightarrow> bool" where
  "or_free (Return v) \<longleftrightarrow> True"
| "or_free (Raise e) \<longleftrightarrow> True"
| "or_free (Perform b k) \<longleftrightarrow> (\<forall>r. or_free (k r))"
| "or_free (OrElse p q k) \<longleftrightarrow> False"

lemma may_return_or_free:
  "or_free p \<Longrightarrow> (v, s') \<in> may_return p s \<longleftrightarrow> spec p s = Inr (v, s')"
  by (induction p arbitrary: s) (auto simp: s_result_def s_then_def split: sum.split)

text \<open>The frames of the calls of \<open>or\<close> around the current program.\<close>

fun frame_cont :: "'v frame \<Rightarrow> 'v \<Rightarrow> 'v prog" where
  "frame_cont (InFirst backup q k) = k"
| "frame_cont (InSecond first_vars k) = k"

fun unwind :: "'v frame list \<Rightarrow> 'v \<times> 'v store \<Rightarrow> ('v \<times> 'v store) set" where
  "unwind [] o1 = {o1}"
| "unwind (f # fs) o1 = (\<Union>o2 \<in> may_return (frame_cont f (fst o1)) (snd o1). unwind fs o2)"

text \<open>On a store that agrees with the log, the rest of the run gives results of the whole program.\<close>

definition replays :: "'v prog \<Rightarrow> 'v arc register \<Rightarrow> 'v frame list \<Rightarrow> 'v prog \<Rightarrow> bool" where
  "replays root r fs q \<longleftrightarrow>
     (\<forall>s. agrees s r \<longrightarrow> (\<forall>o1 \<in> may_return q (overlay s r). unwind fs o1 \<subseteq> may_return root s))"

fun frames_replay :: "'v prog \<Rightarrow> 'v frame list \<Rightarrow> bool" where
  "frames_replay root [] \<longleftrightarrow> True"
| "frames_replay root (InFirst backup q k # fs) \<longleftrightarrow>
     replays root backup (InSecond [] k # fs) q \<and> frames_replay root fs"
| "frames_replay root (InSecond first_vars k # fs) \<longleftrightarrow> frames_replay root fs"

lemma replays_start: "replays root [] [] root"
  by (simp add: replays_def)

lemma replays_Raise [simp]: "replays root r fs (Raise e)"
  by (simp add: replays_def)

lemma replays_Perform:
  assumes "replays root (vars tx) fs (Perform b k)" and "reg_wf cfg (vars tx)"
    and "op_body cfg b tx w = (Inr (Inr r, tx'), w')"
  shows "replays root (vars tx') fs (k r)"
  using assms(1) replay_op [OF assms(2,3)] by (auto simp: replays_def)

lemma replays_OrElse:
  assumes "replays root r fs (OrElse p q k)"
  shows "replays root r (InFirst r q k # fs) p" and "replays root r (InSecond first_vars k # fs) q"
  using assms by (simp_all add: replays_def UN_subset_iff ball_Un split_beta)

lemma replays_Return: "replays root r (f # fs) (Return v) \<longleftrightarrow> replays root r fs (frame_cont f v)"
  by (simp add: replays_def UN_subset_iff)

lemma replays_combine:
  assumes "replays root r fs q" and "reg_wf cfg r" and "distinct (map fst vs)"
  shows "replays root (combine_vars cfg vs r) fs q"
  using assms agrees_combine [OF assms(2,3)] by (simp add: replays_def overlay_combine)

end
