(* ===== verification/Coherence.thy ===== *)
theory Coherence
  imports Atomicity_Properties
begin

text \<open>
  The values in use: those that a variable, a log, or a vector of a commit or of a wait holds.  The step
  relation allocates every value at a new address, so that two values in use with the same pointer are
  the same value.  (\<open>Address_Reuse\<close> does without this assumption on the allocator.)
\<close>

section \<open>The values in use\<close>

definition log_arcs :: "'v arc register \<Rightarrow> 'v arc set" where
  "log_arcs r = (\<Union>l \<in> snd ` set r. set_log_var l)"

text \<open>The values that a thread holds a counted reference to; the values beside the variables in the vector
  \<open>reads\<close> of a wait are in the model only.\<close>

fun thread_refs :: "'v thread_state \<Rightarrow> 'v arc set" where
  "thread_refs (Running tx fs q) = log_arcs (vars tx) \<union> (\<Union>f \<in> set fs. log_arcs (frame_log f))"
| "thread_refs (Locking v tx rs rv wv wr) = log_arcs (vars tx) \<union> log_arcs rs \<union> snd ` set wv"
| "thread_refs (BackingOut tx ls) = log_arcs (vars tx)"
| "thread_refs (Releasing v rv wv wr) = snd ` set wv"
| "thread_refs (Writing v wv wr) = snd ` set wv"
| "thread_refs (Registering tx c es reads) = snd ` set es"
| "thread_refs (Comparing tx c k v es reads) = insert v (snd ` set es)"
| "thread_refs _ = {}"

fun thread_ghosts :: "'v thread_state \<Rightarrow> 'v arc set" where
  "thread_ghosts (Registering tx c es reads) = snd ` set reads"
| "thread_ghosts (Comparing tx c k v es reads) = snd ` set reads"
| "thread_ghosts (Parked tx c reads) = snd ` set reads"
| "thread_ghosts (Dying tx c reads) = snd ` set reads"
| "thread_ghosts (Cleaning tx c k reads) = snd ` set reads"
| "thread_ghosts _ = {}"

definition thread_arcs :: "'v thread_state \<Rightarrow> 'v arc set" where
  "thread_arcs st = thread_refs st \<union> thread_ghosts st"

definition refs :: "'v system \<Rightarrow> 'v arc set" where
  "refs s = range (value_of s) \<union> (\<Union>i. thread_refs (threads s i))"

definition arcs :: "'v system \<Rightarrow> 'v arc set" where
  "arcs s = range (value_of s) \<union> (\<Union>i. thread_arcs (threads s i))"

lemma thread_arcs_simps [simp]:
  "thread_arcs (Running tx fs q) = log_arcs (vars tx) \<union> (\<Union>f \<in> set fs. log_arcs (frame_log f))"
  "thread_arcs (Locking v tx rs rv wv wr) = log_arcs (vars tx) \<union> log_arcs rs \<union> snd ` set wv"
  "thread_arcs (BackingOut tx ls) = log_arcs (vars tx)"
  "thread_arcs (Releasing v rv wv wr) = snd ` set wv" "thread_arcs (Writing v wv wr) = snd ` set wv"
  "thread_arcs (Registering tx c es reads) = snd ` set es \<union> snd ` set reads"
  "thread_arcs (Comparing tx c k u es reads) = insert u (snd ` set es \<union> snd ` set reads)"
  "thread_arcs (Parked tx c reads) = snd ` set reads" "thread_arcs (Dying tx c reads) = snd ` set reads"
  "thread_arcs (Cleaning tx c k reads) = snd ` set reads"
  "thread_arcs (Waking v cs wr) = {}" "thread_arcs (Finished v) = {}" "thread_arcs (Stopped r) = {}"
  "thread_arcs (Panicked flt) = {}"
  by (auto simp: thread_arcs_def)

lemma refs_arcs: "refs s \<subseteq> arcs s"
  by (auto simp: refs_def arcs_def thread_arcs_def)

definition coherent :: "'v system \<Rightarrow> bool" where
  "coherent s \<longleftrightarrow> (\<forall>a \<in> arcs s. arc_ptr a < next_arc (shared s)) \<and> inj_on arc_ptr (arcs s)"

text \<open>The only new values are freshly allocated.\<close>

definition fresh :: "nat \<Rightarrow> nat \<Rightarrow> 'v arc set \<Rightarrow> bool" where
  "fresh m n A \<longleftrightarrow> m \<le> n \<and> inj_on arc_ptr A \<and> (\<forall>a \<in> A. m \<le> arc_ptr a \<and> arc_ptr a < n)"

lemma fresh_empty [simp]: "fresh m n {} \<longleftrightarrow> m \<le> n"
  by (simp add: fresh_def)

lemma fresh_single [simp]: "fresh m (Suc m) {Arc m d}"
  by (simp add: fresh_def)

lemma coherent_grows:
  assumes "coherent s" and "arcs s' \<subseteq> arcs s \<union> A" and "fresh (next_arc (shared s)) (next_arc (shared s')) A"
  shows "coherent s'"
proof -
  have below: "arc_ptr a < next_arc (shared s)" if "a \<in> arcs s" for a
    using assms(1) that by (simp add: coherent_def)
  have "inj_on arc_ptr (arcs s \<union> A)"
    using assms(1,3) below by (fastforce simp: coherent_def fresh_def inj_on_Un)
  moreover have "arc_ptr a < next_arc (shared s')" if "a \<in> arcs s \<union> A" for a
    using that below assms(3) by (force simp: fresh_def)
  ultimately show ?thesis using assms(2) unfolding coherent_def by (meson inj_on_subset subsetD)
qed

lemma coherent_ptr_eq: "coherent s \<Longrightarrow> a \<in> arcs s \<Longrightarrow> b \<in> arcs s \<Longrightarrow> ptr_eq a b \<Longrightarrow> a = b"
  by (auto simp: coherent_def ptr_eq_def dest: inj_onD)

lemma value_in_arcs [simp]: "value_of s k \<in> arcs s"
  by (simp add: arcs_def)

lemma thread_in_arcs: "a \<in> thread_arcs (threads s i) \<Longrightarrow> a \<in> arcs s"
  by (auto simp: arcs_def)

lemma value_in_refs [simp]: "value_of s k \<in> refs s"
  by (simp add: refs_def)

lemma thread_in_refs: "a \<in> thread_refs (threads s i) \<Longrightarrow> a \<in> refs s"
  by (auto simp: refs_def)

section \<open>The values in the logs\<close>

lemma log_arcs_simps [simp]:
  "log_arcs [] = {}" "log_arcs ((k, l) # r) = set_log_var l \<union> log_arcs r"
  by (simp_all add: log_arcs_def)

lemma log_arcs_records [simp]: "log_arcs (reg_records cfg r) = log_arcs r"
  by (simp add: log_arcs_def)

lemma log_arcsI: "map_of r k = Some l \<Longrightarrow> a \<in> set_log_var l \<Longrightarrow> a \<in> log_arcs r"
  by (force simp: log_arcs_def dest: map_of_SomeD)

lemma log_arcsE:
  assumes "a \<in> log_arcs r" and "reg_wf cfg r"
  obtains k l where "map_of r k = Some l" "a \<in> set_log_var l"
  using assms by (auto simp: log_arcs_def reg_wf_distinct)

lemma log_arcs_set:
  assumes "reg_wf cfg r"
  shows "log_arcs (reg_set cfg k l r) \<subseteq> log_arcs r \<union> set_log_var l"
proof
  fix a
  assume "a \<in> log_arcs (reg_set cfg k l r)"
  then obtain j l' where "map_of (reg_set cfg k l r) j = Some l'" "a \<in> set_log_var l'"
    using reg_wf_set [OF assms] by (rule log_arcsE)
  with assms show "a \<in> log_arcs r \<union> set_log_var l" by (auto intro: log_arcsI split: if_splits)
qed

lemma log_arcs_combine:
  assumes "reg_wf cfg r" and "distinct (map fst vs)"
  shows "log_arcs (combine_vars cfg vs r) \<subseteq> log_arcs r \<union> log_arcs vs"
proof
  fix a
  assume "a \<in> log_arcs (combine_vars cfg vs r)"
  then obtain k l where l: "map_of (combine_vars cfg vs r) k = Some l" "a \<in> set_log_var l"
    using reg_wf_combine_vars [OF assms(1)] by (rule log_arcsE)
  show "a \<in> log_arcs r \<union> log_arcs vs"
  proof (cases "map_of r k")
    case None
    with l assms obtain l0 where "map_of vs k = Some l0" "LogVar_obsolete l0 = Some l"
      by (auto simp: map_of_combine_vars bind_eq_Some_conv)
    moreover from this l(2) have "a \<in> set_log_var l0"
      using LogVar_into_read_value_in by (fastforce simp: LogVar_obsolete_def)
    ultimately show ?thesis by (simp add: log_arcsI)
  next
    case (Some l0)
    with l assms show ?thesis by (auto simp: map_of_combine_vars intro: log_arcsI)
  qed
qed

lemma entry_arcs: "set_log_var (entry_of var tx w) \<subseteq> log_arcs (vars tx) \<union> {mem w (control_block_of var)}"
  by (auto simp: entry_of_def log_arcs_def split: option.splits dest!: map_of_SomeD)

lemma op_arcs:
  assumes "reg_wf cfg (vars tx)" and "op_body cfg b tx w = (Inr (r, tx'), w')"
  shows "\<exists>A. fresh (next_arc w) (next_arc w') A \<and>
    log_arcs (vars tx') \<subseteq> log_arcs (vars tx) \<union> range (mem w) \<union> A"
proof -
  let ?D = "\<lambda>A. fresh (next_arc w) (next_arc w') A \<and>
    log_arcs (vars tx') \<subseteq> log_arcs (vars tx) \<union> range (mem w) \<union> A"
  have old: "?D {}" if "vars tx' = vars tx" "next_arc w \<le> next_arc w'" using that by auto
  have set: "?D A" if "vars tx' = reg_set cfg k l (vars tx)" "fresh (next_arc w) (next_arc w') A"
    "set_log_var l \<subseteq> log_arcs (vars tx) \<union> range (mem w) \<union> A" for k l A
    using that log_arcs_set [OF assms(1), of k l] by auto
  have entry: "set_log_var (entry_of var tx w) \<subseteq> log_arcs (vars tx) \<union> range (mem w) \<union> A" for var A
    using entry_arcs [of var tx w] by auto
  have write_entry: "set_log_var (LogVar_write a (snd (LogVar_read (entry_of var tx w))))
      \<subseteq> log_arcs (vars tx) \<union> range (mem w) \<union> {a}" for var a
    using set_LogVar_write [of a "snd (LogVar_read (entry_of var tx w))"] entry [of var "{}"] by auto
  show ?thesis
  proof (cases b)
    case (ReadOp var)
    then consider (old) "vars tx' = vars tx" "w' = w" | (new) "w' = w" "vars tx' =
          reg_set cfg (control_block_of var) (snd (LogVar_read (entry_of var tx w))) (vars tx)"
      using assms(2)
      by (auto simp: TVar_ops and_then_def lift_result_def Transaction_read_eq Let_def split: if_splits sum.splits)
    then show ?thesis
    proof cases
      case new
      then have "?D {}" using entry [of var "{}"] by (intro set [OF new(2)]) (simp_all add: new(1))
      then show ?thesis by (rule exI)
    qed (use old in blast)
  next
    case (WriteOp var v)
    let ?a = "Arc (next_arc w) (Dyn (marker var) v)"
    let ?l = "case map_of (vars tx) (control_block_of var) of Some l \<Rightarrow> LogVar_write ?a l | None \<Rightarrow> Write ?a"
    have "set_log_var ?l \<subseteq> log_arcs (vars tx) \<union> range (mem w) \<union> {?a}"
    proof (cases "map_of (vars tx) (control_block_of var)")
      case (Some l)
      with set_LogVar_write [of ?a l] log_arcsI [OF Some] show ?thesis by auto
    qed simp
    note sub = this
    have log: "vars tx' = reg_set cfg (control_block_of var) ?l (vars tx)" and "next_arc w' = Suc (next_arc w)"
      using assms(2) WriteOp by (auto simp: TVar_ops and_then_def lift_result_def Transaction_write_eq Let_def)
    then have "?D {?a}" using set [OF log _ sub] by simp
    then show ?thesis by (rule exI)
  next
    case (ModifyOp var f)
    let ?a = "Arc (next_arc w) (Dyn (marker var) (f (payload (arc_dyn (LogVar_current (entry_of var tx w))))))"
    show ?thesis
    proof (cases "early_conflict cfg var (entry_of var tx w) w")
      case True
      with assms(2) ModifyOp have "?D {}"
        by (intro old) (auto simp: TVar_ops and_then_def Transaction_modify_eq Let_def)
      then show ?thesis by (rule exI)
    next
      case False
      with assms(2) ModifyOp have log: "vars tx' = reg_set cfg (control_block_of var)
          (LogVar_write ?a (snd (LogVar_read (entry_of var tx w)))) (vars tx)"
        and w': "next_arc w' = Suc (next_arc w)"
        by (auto simp: TVar_ops and_then_def lift_result_def Transaction_modify_eq Let_def downcast_def split: if_splits)
      have "?D {?a}" by (rule set [OF log _ write_entry]) (simp add: w')
      then show ?thesis by (rule exI)
    qed
  next
    case (ExchangeOp var v)
    let ?a = "Arc (next_arc w) (Dyn (marker var) (v))"
    show ?thesis
    proof (cases "early_conflict cfg var (entry_of var tx w) w")
      case True
      with assms(2) ExchangeOp have "?D {}"
        by (intro old) (auto simp: TVar_ops and_then_def Transaction_exchange_eq Let_def)
      then show ?thesis by (rule exI)
    next
      case False
      with assms(2) ExchangeOp have log: "vars tx' = reg_set cfg (control_block_of var)
          (LogVar_write ?a (snd (LogVar_read (entry_of var tx w)))) (vars tx)"
        and w': "next_arc w' = Suc (next_arc w)"
        by (auto simp: TVar_ops and_then_def lift_result_def Transaction_exchange_eq Let_def downcast_def split: if_splits)
      have "?D {?a}" by (rule set [OF log _ write_entry]) (simp add: w')
      then show ?thesis by (rule exI)
    qed
  qed
qed

section \<open>Every step keeps the values coherent\<close>

lemma set_read_values: "(k, v) \<in> set (read_values r) \<longleftrightarrow> (\<exists>l. (k, l) \<in> set r \<and> LogVar_into_read_value l = Some v)"
  by (induction r) (auto simp: read_values_def split: option.split)

lemma body_ends_refs:
  assumes "wf_thread cfg (Running tx fs q)"
  shows "thread_refs (threads (body_ends cfg p i tx fs r s) i) \<subseteq> thread_refs (Running tx fs q)"
    and "next_arc (shared (body_ends cfg p i tx fs r s)) = next_arc (shared s)"
proof -
  have combine: "log_arcs (combine_vars cfg vs (vars tx)) \<subseteq> log_arcs (vars tx) \<union> log_arcs vs"
    if "reg_wf cfg vs" for vs
    using that assms by (intro log_arcs_combine) (simp_all add: reg_wf_distinct)
  have "snd ` set (read_values r) \<subseteq> log_arcs r" for r :: "'a arc register"
    using LogVar_into_read_value_in by (force simp: set_read_values log_arcs_def)
  with assms combine show "thread_refs (threads (body_ends cfg p i tx fs r s) i) \<subseteq> thread_refs (Running tx fs q)"
    by (cases rule: body_ends_cases [of fs r])
      (auto simp: Let_def restart_def Transaction_clear_def Transaction_combine_def dest!: subsetD)
  show "next_arc (shared (body_ends cfg p i tx fs r s)) = next_arc (shared s)"
    by (cases rule: body_ends_cases [of fs r]) (simp_all add: Let_def)
qed

lemma thread_step_refs:
  assumes "thread_step cfg p i s = Some s'" and "wf_thread cfg (threads s i)"
  shows "\<exists>A. fresh (next_arc (shared s)) (next_arc (shared s')) A \<and>
    thread_refs (threads s' i) \<subseteq> refs s \<union> A"
proof -
  have idle: ?thesis if "thread_refs (threads s' i) \<subseteq> thread_refs (threads s i)"
    "next_arc (shared s') = next_arc (shared s)"
    using that thread_in_refs [of _ s i] by (intro exI [of _ "{}"]) auto
  show ?thesis
  proof (cases "threads s i")
    case (Running tx fs q)
    with assms(1) have b: "body_step cfg p i tx fs q s = Some s'" by (simp add: thread_step_def)
    have old: "log_arcs (vars tx) \<subseteq> refs s" "(\<Union>f \<in> set fs. log_arcs (frame_log f)) \<subseteq> refs s"
      using thread_in_refs [of _ s i] Running by auto
    have new: ?thesis if run: "op_body cfg op tx (shared s) = (Inr (r, tx'), w)" and w: "shared s' = w"
      and arcs: "thread_refs (threads s' i) = log_arcs (vars tx') \<union> (\<Union>f \<in> set fs. log_arcs (frame_log f))"
      for op r tx' w
    proof -
      obtain A where A: "fresh (next_arc (shared s)) (next_arc w) A"
        "log_arcs (vars tx') \<subseteq> log_arcs (vars tx) \<union> range (value_of s) \<union> A"
        using op_arcs [OF _ run] assms(2) Running by auto
      have "range (value_of s) \<subseteq> refs s" by auto
      with A(2) old have "thread_refs (threads s' i) \<subseteq> refs s \<union> A" unfolding arcs by blast
      with A(1) w show ?thesis by blast
    qed
    show ?thesis
    proof (cases q)
      case (Perform op k)
      with b have "body_step cfg p i tx fs (Perform op k) s = Some s'" by simp
      then show ?thesis
      proof (cases rule: perform_cases)
        case (fault flt w)
        with op_body_allocates [OF fault(1)] show ?thesis
          by (intro exI [of _ "{}"]) (simp add: allocatesD(9))
      next
        case (error e tx' w)
        then show ?thesis by (intro new [OF error(1)]) simp_all
      next
        case (ok r tx' w)
        then show ?thesis by (intro new [OF ok(1)]) simp_all
      qed
    next
      case (Return x)
      with b have "s' = body_ends cfg p i tx fs (Inr x) s" by simp
      with body_ends_refs [OF assms(2) [unfolded Running]] idle Running show ?thesis by simp
    next
      case (Raise e)
      with b have "s' = body_ends cfg p i tx fs (Inl e) s" by simp
      with body_ends_refs [OF assms(2) [unfolded Running]] idle Running show ?thesis by simp
    qed (use b Running idle in auto)
  next
    case (Locking v tx rs rv wv wr)
    show ?thesis
    proof (cases rs)
      case Nil
      with assms(1) Locking show ?thesis by (intro idle) (auto simp: thread_step_def)
    next
      case (Cons r rs')
      obtain k l where r: "r = (k, l)" by (cases r)
      with assms(1) Locking Cons have step: "lock_step i v tx k l rs' rv wv wr s = Some s'"
        by (simp add: thread_step_def)
      then show ?thesis
        using Locking Cons r lock_step_frame(1) [OF step]
        by (intro idle; cases rule: lock_step_cases) (auto dest: LogVar_written_in)
    qed
  qed (rule idle; use assms(1) in \<open>auto simp: thread_step_def restart_def finish_def Transaction_clear_def
      VarControlBlock_wait_def set_dead_count_def set_dead_cleanup_def Let_def split: list.splits if_splits\<close>)+
qed

lemma thread_step_ghosts:
  assumes "thread_step cfg p i s = Some s'"
  shows "thread_ghosts (threads s' i) \<subseteq> thread_arcs (threads s i)"
proof (cases "threads s i")
  case (Running tx fs q)
  with assms have b: "body_step cfg p i tx fs q s = Some s'" by (simp add: thread_step_def)
  have ends: "thread_ghosts (threads (body_ends cfg p i tx fs r s) i) = {}" for r
    by (cases rule: body_ends_cases [of fs r]) (auto simp: Let_def restart_def)
  show ?thesis
  proof (cases q)
    case (Perform op k)
    with b have "body_step cfg p i tx fs (Perform op k) s = Some s'" by simp
    then show ?thesis by (cases rule: perform_cases) simp_all
  qed (use b ends in auto)
next
  case (Locking v tx rs rv wv wr)
  show ?thesis
  proof (cases rs)
    case (Cons r rs')
    obtain k l where "r = (k, l)" by (cases r)
    with assms Locking Cons have "lock_step i v tx k l rs' rv wv wr s = Some s'" by (simp add: thread_step_def)
    then show ?thesis by (cases rule: lock_step_cases) simp_all
  qed (use assms Locking in \<open>auto simp: thread_step_def\<close>)
qed (use assms in \<open>auto simp: thread_step_defs restart_def finish_def split: list.splits if_splits\<close>)

lemma thread_step_arcs:
  assumes "thread_step cfg p i s = Some s'" and "wf_thread cfg (threads s i)"
  shows "\<exists>A. fresh (next_arc (shared s)) (next_arc (shared s')) A \<and> thread_arcs (threads s' i) \<subseteq> arcs s \<union> A"
proof -
  obtain A where A: "fresh (next_arc (shared s)) (next_arc (shared s')) A" "thread_refs (threads s' i) \<subseteq> refs s \<union> A"
    using thread_step_refs [OF assms] by blast
  have "thread_arcs (threads s' i) \<subseteq> arcs s \<union> A"
    unfolding thread_arcs_def [of "threads s' i"]
    using A(2) refs_arcs [of s] thread_step_ghosts [OF assms(1)] thread_in_arcs [of _ s i] by blast
  with A(1) show ?thesis by blast
qed

interpretation coherence: system_invariant cfg p coherent for cfg p
proof
  fix s :: "'a system"
  assume start: "initial p s"
  then have "thread_arcs (threads s i) = {}" for i
    by (cases rule: initial_threads [where i = i]) auto
  with start show "coherent s"
    by (auto simp: coherent_def arcs_def initial_def inj_on_def ptr_eq_def)
next
  fix s s' :: "'a system" and i
  assume reach: "reachable cfg p s" and inv: "coherent s" and step: "thread_step cfg p i s = Some s'"
  obtain A where A: "fresh (next_arc (shared s)) (next_arc (shared s')) A" "thread_arcs (threads s' i) \<subseteq> arcs s \<union> A"
    using thread_step_arcs [OF step reachable_wf [OF reach]] by blast
  have "thread_arcs (threads s' j) \<subseteq> arcs s \<union> A" for j
    using A(2) thread_step_others [OF step, of j] thread_in_arcs [of _ s j] by (cases "j = i") auto
  moreover have "value_of s' k \<in> arcs s" for k
    using step
  proof (cases rule: thread_step_memory)
    case (stored v j x wv wr)
    with thread_in_arcs [of x s i] show ?thesis by simp
  qed simp
  ultimately have "arcs s' \<subseteq> arcs s \<union> A" by (auto simp: arcs_def [of s'])
  from coherent_grows [OF inv this A(1)] show "coherent s'" .
next
  fix s :: "'a system" and i
  assume inv: "coherent s"
  have "arcs (set_thread i (Stopped Abandoned) s) \<subseteq> arcs s \<union> {}" by (auto simp: arcs_def split: if_splits)
  then show "coherent (set_thread i (Stopped Abandoned) s)" by (rule coherent_grows [OF inv]) simp
next
  fix s :: "'a system" and var :: tvar and v
  assume inv: "coherent s"
  let ?s = "s\<lparr>shared := TVar_write_atomic var v (shared s)\<rparr>"
  let ?A = "{Arc (next_arc (shared s)) (Dyn (marker var) v)}"
  have "arcs ?s \<subseteq> arcs s \<union> ?A"
    by (auto simp: arcs_def TVar_write_atomic_def Arc_new_def)
  moreover have "fresh (next_arc (shared s)) (next_arc (shared ?s)) ?A"
    by (simp add: TVar_write_atomic_def Arc_new_def)
  ultimately show "coherent ?s" by (rule coherent_grows [OF inv])
qed

lemmas reachable_coherent = coherence.invariant

text \<open>The abstract memory holds values in use.\<close>

lemma pending_in_arcs: "pending (threads s i) k = Some x \<Longrightarrow> x \<in> thread_arcs (threads s i)"
  by (cases "threads s i") (auto dest: map_of_SomeD intro: rev_image_eqI)

lemma abs_mem_in_arcs: "abs_mem s k \<in> arcs s"
  by (auto simp: abs_mem_def pending_value_def split: option.split
      intro: thread_in_arcs dest!: pending_in_arcs)

end
