(* ===== verification/Histories.thy ===== *)
theory Histories
  imports Replay Coherence
begin

text \<open>
  Executions with their history: the commits and the calls of \<open>write_atomic\<close>, in the order in which
  they take effect.  The replay of \<open>Replay\<close> is an invariant of every thread, so each commit does to
  the abstract store what its program may do to it alone.
\<close>

section \<open>Replaying is an invariant\<close>

fun thread_replays :: "'v prog \<Rightarrow> 'v thread_state \<Rightarrow> bool" where
  "thread_replays root (Running tx fs q) \<longleftrightarrow> replays root (vars tx) fs q \<and> frames_replay root fs"
| "thread_replays root (Locking v tx rs rv wv wr) \<longleftrightarrow> replays root (vars tx) [] (Return v)"
| "thread_replays root _ \<longleftrightarrow> True"

lemma thread_replays_restart [simp]: "thread_replays (p i) (restart p i tx)"
  by (simp add: restart_def Transaction_clear_def replays_start)

lemma body_ends_replays:
  assumes "thread_replays (p i) (Running tx fs (case r of Inr v \<Rightarrow> Return v | Inl e \<Rightarrow> Raise e))"
    and "wf_thread cfg (Running tx fs q)"
  shows "thread_replays (p i) (threads (body_ends cfg p i tx fs r s) i)"
  using assms
proof (cases rule: body_ends_cases [of fs r])
  case (first_error backup q k fs' e)
  with assms show ?thesis by (simp add: replays_def)
next
  case (second_ok first_vars k fs' v)
  with assms show ?thesis
    by (auto simp: replays_Return Transaction_combine_def intro: replays_combine reg_wf_distinct)
qed (auto simp: Let_def replays_Return)

lemma thread_replays_step:
  assumes "thread_step cfg p i s = Some s'" and "wf_thread cfg (threads s i)"
    and "thread_replays (p i) (threads s i)"
  shows "thread_replays (p i) (threads s' i)"
proof (cases "threads s i")
  case (Running tx fs q)
  with assms have b: "body_step cfg p i tx fs q s = Some s'" and wf: "wf_thread cfg (Running tx fs q)"
    and rep: "replays (p i) (vars tx) fs q" "frames_replay (p i) fs"
    by (simp_all add: thread_step_def)
  show ?thesis
  proof (cases q)
    case (Perform op k)
    with b have "body_step cfg p i tx fs (Perform op k) s = Some s'" by simp
    then show ?thesis
    proof (cases rule: perform_cases)
      case (ok r tx' w)
      from replays_Perform [OF rep(1) [unfolded Perform] _ ok(1)] wf rep(2) ok(2) show ?thesis by simp
    qed (use rep in simp_all)
  next
    case (Return x)
    with b have "s' = body_ends cfg p i tx fs (Inr x) s" by simp
    with body_ends_replays [OF _ wf, of p i "Inr x"] rep Return show ?thesis by simp
  next
    case (Raise e)
    with b have "s' = body_ends cfg p i tx fs (Inl e) s" by simp
    with body_ends_replays [OF _ wf, of p i "Inl e"] rep show ?thesis by simp
  next
    case (OrElse q1 q2 k)
    with b have "s' = set_thread i (Running tx (InFirst (vars tx) q2 k # fs) q1) s" by simp
    with rep replays_OrElse [OF rep(1) [unfolded OrElse]] show ?thesis by simp
  qed
next
  case (Locking v tx rs rv wv wr)
  show ?thesis
  proof (cases rs)
    case Nil
    with assms(1) Locking show ?thesis by (auto simp: thread_step_def)
  next
    case (Cons r rs')
    obtain k l where r: "r = (k, l)" by (cases r)
    with assms(1) Locking Cons have "lock_step i v tx k l rs' rv wv wr s = Some s'" by (simp add: thread_step_def)
    then show ?thesis using assms(3) Locking by (cases rule: lock_step_cases) auto
  qed
qed (use assms(1) in \<open>auto simp: thread_step_defs finish_def split: list.splits if_splits\<close>)

interpretation replay: system_invariant cfg p "\<lambda>s. \<forall>i. thread_replays (p i) (threads s i)" for cfg p
proof
  fix s :: "'a system"
  assume "initial p s"
  then show "\<forall>i. thread_replays (p i) (threads s i)"
  proof (intro allI)
    fix i
    assume "initial p s"
    then show "thread_replays (p i) (threads s i)"
      by (cases rule: initial_threads [where i = i]) (simp_all add: replays_start)
  qed
next
  fix s s' :: "'a system" and j
  assume reach: "reachable cfg p s" and inv: "\<forall>i. thread_replays (p i) (threads s i)"
    and step: "thread_step cfg p j s = Some s'"
  show "\<forall>i. thread_replays (p i) (threads s' i)"
  proof
    fix i
    show "thread_replays (p i) (threads s' i)"
      using thread_replays_step [OF step reachable_wf [OF reach]] thread_step_others [OF step, of i] inv
      by (cases "i = j") simp_all
  qed
qed simp_all

section \<open>Commits on the abstract store\<close>

definition abs_store :: "'v system \<Rightarrow> 'v store" where
  "abs_store s k = payload (arc_dyn (abs_mem s k))"

lemma abs_store_settled: "(\<And>i. pending (threads s i) = (\<lambda>_. None)) \<Longrightarrow> abs_store s = store (shared s)"
  by (auto simp: abs_store_def abs_mem_def pending_value_def store_def fun_eq_iff split: option.split)

text \<open>At its commit point a transaction does to the abstract store what its program may do to it.\<close>

lemma commit_may_return:
  assumes reach: "reachable cfg p s" and st: "threads s i = Locking v tx [] rv wv wr"
    and step: "thread_step cfg p i s = Some s'"
  shows "(v, abs_store s') \<in> may_return (p i) (abs_store s)"
proof -
  note cp = commit_point [OF reach st step]
  have "agrees (abs_store s) (vars tx)"
    unfolding agrees_def
  proof (intro allI impI)
    fix k l u
    assume l: "map_of (vars tx) k = Some l" and u: "LogVar_checked l = Some u"
    then have "ptr_eq (abs_mem s k) u" using cp(2) by (auto simp: log_valid_def)
    moreover have "u \<in> set_log_var l" using u by (intro LogVar_into_read_value_in LogVar_checked_orig)
    then have "u \<in> arcs s" using thread_in_arcs [of u s i] log_arcsI [OF l] st by simp
    ultimately have "abs_mem s k = u"
      by (rule coherent_ptr_eq [OF reachable_coherent [OF reach] abs_mem_in_arcs, rotated])
    then show "abs_store s k = payload (arc_dyn u)" by (simp add: abs_store_def)
  qed
  moreover have "overlay (abs_store s) (vars tx) = abs_store s'"
    by (auto simp: overlay_def abs_store_def cp(3) fun_eq_iff split: option.split)
  moreover have "replays (p i) (vars tx) [] (Return v)"
    using replay.invariant [OF reach] st by (metis thread_replays.simps(2))
  ultimately show ?thesis by (auto simp: replays_def)
qed

section \<open>Histories\<close>

datatype 'v event = Committed nat 'v | Stored tvar 'v

fun events :: "'v system \<Rightarrow> 'v label \<Rightarrow> 'v event list" where
  "events s (ThreadStep i) = (case threads s i of Locking v tx [] rv wv wr \<Rightarrow> [Committed i v] | _ \<Rightarrow> [])"
| "events s (GiveUp i) = []"
| "events s (AtomicWrite var v) = [Stored var v]"

text \<open>An execution from an initial state, with its history.\<close>

inductive execution :: "config \<Rightarrow> (nat \<Rightarrow> 'v prog) \<Rightarrow> 'v system \<Rightarrow> 'v event list \<Rightarrow> 'v system \<Rightarrow> bool"
  for cfg :: config and p :: "nat \<Rightarrow> 'v prog" and s0 :: "'v system" where
  at_start: "initial p s0 \<Longrightarrow> execution cfg p s0 [] s0"
| continue: "execution cfg p s0 h s \<Longrightarrow> step cfg p s l s' \<Longrightarrow> execution cfg p s0 (h @ events s l) s'"

lemma execution_reachable: "execution cfg p s0 h s \<Longrightarrow> reachable cfg p s"
  by (induction rule: execution.induct) (auto intro: reachable.intros)

lemma reachable_execution: "reachable cfg p s \<Longrightarrow> \<exists>s0 h. execution cfg p s0 h s"
  by (induction rule: reachable.induct) (blast intro: execution.intros)+

text \<open>The transactions of a history run one after another: the store they leave, if each of them returns
  on the store of its predecessors what the history says.\<close>

fun serial_run :: "(nat \<Rightarrow> 'v prog) \<Rightarrow> 'v event list \<Rightarrow> 'v store \<Rightarrow> 'v store option" where
  "serial_run p [] s = Some s"
| "serial_run p (Committed i v # h) s = (case spec (p i) s of
      Inl e \<Rightarrow> None
    | Inr (v', s') \<Rightarrow> if v' = v then serial_run p h s' else None)"
| "serial_run p (Stored var v # h) s = serial_run p h (s(control_block_of var := v))"

text \<open>The same with the results of \<open>may_return\<close>.\<close>

fun serial :: "(nat \<Rightarrow> 'v prog) \<Rightarrow> 'v event list \<Rightarrow> 'v store \<Rightarrow> 'v store \<Rightarrow> bool" where
  "serial p [] s s' \<longleftrightarrow> s' = s"
| "serial p (Committed i v # h) s s' \<longleftrightarrow> (\<exists>s1. (v, s1) \<in> may_return (p i) s \<and> serial p h s1 s')"
| "serial p (Stored var v # h) s s' \<longleftrightarrow> serial p h (s(control_block_of var := v)) s'"

lemma serial_append: "serial p (h @ h') s s' \<longleftrightarrow> (\<exists>s1. serial p h s s1 \<and> serial p h' s1 s')"
  by (induction p h s s' arbitrary: s' rule: serial.induct) auto

lemma serial_or_free: "(\<And>i. or_free (p i)) \<Longrightarrow> serial p h s s' \<longleftrightarrow> serial_run p h s = Some s'"
  by (induction p h s s' rule: serial.induct) (auto simp: may_return_or_free split: sum.split)

lemma step_serial:
  assumes reach: "reachable cfg p s" and step: "step cfg p s l s'"
  shows "serial p (events s l) (abs_store s) (abs_store s')"
  using step
proof (cases rule: step.cases)
  case (thread i)
  show ?thesis
  proof (cases "commits s i")
    case True
    then obtain v tx rv wv wr where st: "threads s i = Locking v tx [] rv wv wr" by (auto simp: commits_def)
    with commit_may_return [OF reach st thread(2)] thread(1) show ?thesis by simp
  next
    case False
    then have "events s l = []"
      using thread(1) by (auto simp: commits_def split: thread_state.split list.split)
    with abs_mem_other_step [OF reach thread(2) False] show ?thesis
      by (simp add: abs_store_def fun_eq_iff)
  qed
next
  case (give_up i tx e)
  then show ?thesis by (simp add: abs_store_def abs_mem_idle fun_eq_iff)
next
  case (atomic var v)
  then show ?thesis
    by (auto simp: abs_store_def abs_mem_write_atomic fun_eq_iff)
qed

lemma execution_serial: "execution cfg p s0 h s \<Longrightarrow> serial p h (abs_store s0) (abs_store s)"
proof (induction rule: execution.induct)
  case (continue h s l s')
  then show ?case
    using step_serial [OF execution_reachable] by (fastforce simp: serial_append)
qed simp

lemma execution_initial: "execution cfg p s0 h s \<Longrightarrow> initial p s0"
  by (induction rule: execution.induct)

lemma execution_start: "execution cfg p s0 h s \<Longrightarrow> abs_store s0 = store (shared s0)"
proof (rule abs_store_settled)
  assume "execution cfg p s0 h s"
  then show "pending (threads s0 i) = (\<lambda>_. None)" for i
    by (rule execution_initial [THEN initial_threads [where i = i]]) simp_all
qed

section \<open>Every transaction commits once\<close>

text \<open>The value a thread has committed to return.\<close>

fun committed_value :: "'v thread_state \<Rightarrow> 'v option" where
  "committed_value (Releasing v rv wv wr) = Some v"
| "committed_value (Writing v wv wr) = Some v"
| "committed_value (Waking v cs wr) = Some v"
| "committed_value (Finished v) = Some v"
| "committed_value _ = None"

fun event_value :: "nat \<Rightarrow> 'v event \<Rightarrow> 'v option" where
  "event_value i (Committed j v) = (if j = i then Some v else None)"
| "event_value i (Stored var v) = None"

definition commits_of :: "nat \<Rightarrow> 'v event list \<Rightarrow> 'v list" where
  "commits_of i h = List.map_filter (event_value i) h"

lemma commits_of_simps [simp]:
  "commits_of i [] = []" "commits_of i (h @ h') = commits_of i h @ commits_of i h'"
  by (simp_all add: commits_of_def map_filter_def)

lemma committed_body_ends: "committed_value (threads (body_ends cfg p i tx fs r s) i) = None"
  by (cases rule: body_ends_cases [of fs r]) (auto simp: Let_def restart_def)

lemma committed_step:
  assumes "thread_step cfg p i s = Some s'" and "committed_value (threads s i) \<noteq> None \<or> \<not> commits s i"
  shows "committed_value (threads s' i) = committed_value (threads s i)"
proof (cases "threads s i")
  case (Running tx fs q)
  with assms(1) have b: "body_step cfg p i tx fs q s = Some s'" by (simp add: thread_step_def)
  show ?thesis
  proof (cases q)
    case (Perform op k)
    with b have "body_step cfg p i tx fs (Perform op k) s = Some s'" by simp
    then show ?thesis using Running by (cases rule: perform_cases) simp_all
  next
    case (Return x)
    with b have "s' = body_ends cfg p i tx fs (Inr x) s" by simp
    with committed_body_ends Running show ?thesis by simp
  next
    case (Raise e)
    with b have "s' = body_ends cfg p i tx fs (Inl e) s" by simp
    with committed_body_ends Running show ?thesis by simp
  qed (use b Running in auto)
next
  case (Locking v tx rs rv wv wr)
  with assms(2) obtain k l rs' where "rs = (k, l) # rs'" by (cases rs) (auto simp: commits_def)
  with assms(1) Locking have "lock_step i v tx k l rs' rv wv wr s = Some s'" by (simp add: thread_step_def)
  then show ?thesis using Locking by (cases rule: lock_step_cases) simp_all
qed (use assms(1) in \<open>auto simp: thread_step_defs restart_def finish_def split: list.splits if_splits\<close>)

lemma execution_commits:
  assumes "execution cfg p s0 h s" and "committed_value (threads s0 i) = None"
  shows "commits_of i h = (case committed_value (threads s i) of None \<Rightarrow> [] | Some v \<Rightarrow> [v])"
  using assms
proof (induction rule: execution.induct)
  case (continue h s l s')
  from continue(2) show ?case
  proof (cases rule: step.cases)
    case (thread j)
    show ?thesis
    proof (cases "j = i")
      case False
      then have "commits_of i (events s l) = []"
        using thread(1) by (auto simp: commits_of_def map_filter_def split: thread_state.split list.split)
      then show ?thesis using thread_step_others [OF thread(2), of i] False continue by simp
    next
      case True
      show ?thesis
      proof (cases "commits s i")
        case commit: True
        then obtain v tx rv wv wr where st: "threads s i = Locking v tx [] rv wv wr" by (auto simp: commits_def)
        then have "threads s' i = Releasing v rv wv wr" using thread(2) True by (auto simp: thread_step_def)
        then show ?thesis using st True thread(1) continue by (simp add: commits_of_def map_filter_def)
      next
        case False
        then have "events s l = []"
          using thread(1) True by (auto simp: commits_def split: thread_state.split list.split)
        with committed_step [of cfg p i s s'] thread(2) True False continue show ?thesis by simp
      qed
    qed
  next
    case (give_up j tx e)
    with continue show ?thesis by auto
  next
    case (atomic var v)
    with continue show ?thesis by (simp add: commits_of_def map_filter_def)
  qed
qed simp

end
