(* ===== verification/Serializability_Properties.thy ===== *)
theory Serializability_Properties
  imports Histories
begin

text \<open>
  Serializability: the transactions of any number of threads return what they would return one after
  another, in the order of their commits, and leave the same values.  It holds as it stands for
  programs without \<open>or\<close>; with \<open>or\<close> it holds if the choice of the alternative may be out of date, and
  a concrete execution shows that the choice can really be.
\<close>

section \<open>Running a schedule with its history\<close>

fun run_history :: "config \<Rightarrow> (nat \<Rightarrow> 'v prog) \<Rightarrow> nat list \<Rightarrow> 'v system \<Rightarrow> ('v event list \<times> 'v system) option" where
  "run_history cfg p [] s = Some ([], s)"
| "run_history cfg p (i # is) s = (case thread_step cfg p i s of
      None \<Rightarrow> None
    | Some s' \<Rightarrow> map_option (\<lambda>(h, t). (events s (ThreadStep i) @ h, t)) (run_history cfg p is s'))"

lemma run_history_execution:
  assumes "run_history cfg p is s = Some (h, s')" and "execution cfg p s0 h0 s"
  shows "execution cfg p s0 (h0 @ h) s'"
  using assms
proof (induction "is" arbitrary: s h h0)
  case (Cons i "is")
  from Cons.prems(1) obtain s1 h1 where step: "thread_step cfg p i s = Some s1"
    and run: "run_history cfg p is s1 = Some (h1, s')" and h: "h = events s (ThreadStep i) @ h1"
    by (auto split: option.splits)
  have "execution cfg p s0 (h0 @ events s (ThreadStep i)) s1"
    using Cons.prems(2) step.thread [OF step] by (rule execution.continue)
  from Cons.IH [OF run this] show ?case by (simp add: h)
qed simp

lemmas run_defs = thread_step_def TVar_ops and_then_def lift_result_def loads_def Arc_new_def Let_def
  count_def count_access_def reg_insert_def reg_update_def reg_records_def can_read_def can_write_def acquire_def
  release_def finish_def restart_def Transaction_clear_def Transaction_combine_def transaction_default_def
  TVar_read_ref_atomic_def downcast_def ptr_eq_def early_conflict_def Transaction_read_def
  Transaction_write_def Transaction_modify_def LogVar_obsolete_def combine_one_def

section \<open>Programs without \<open>or\<close>\<close>

text \<open>C2: transactions without \<open>or\<close> are serializable: in every execution of any number of threads, with
  calls of \<open>write_atomic\<close> in between, the committed transactions, run one after another in the order
  of their commits, return the values the threads returned and leave the final values; and each
  thread commits at most once, exactly when it goes on to return.\<close>

theorem serializable:
  assumes "execution cfg p s0 h s" and "\<And>i. or_free (p i)"
  shows "serial_run p h (store (shared s0)) = Some (abs_store s) \<and>
    ((\<forall>i. pending (threads s i) = (\<lambda>_. None)) \<longrightarrow> abs_store s = store (shared s)) \<and>
    (\<forall>i. committed_value (threads s0 i) = None \<longrightarrow>
      commits_of i h = (case committed_value (threads s i) of None \<Rightarrow> [] | Some v \<Rightarrow> [v]))"
proof -
  from execution_serial [OF assms(1)] serial_or_free [of p, OF assms(2)] execution_start [OF assms(1)]
  have "serial_run p h (store (shared s0)) = Some (abs_store s)" by simp
  with abs_store_settled [of s] execution_commits [OF assms(1)] show ?thesis by simp
qed

text \<open>Two threads that increment the same variable: the second one has read it before the first one
  commits, aborts, and starts again.\<close>

definition inc_prog :: "nat \<Rightarrow> int prog" where
  "inc_prog i = Perform (ModifyOp (demo_var 2) (\<lambda>v. v + 1)) (\<lambda>_. Perform (ReadOp (demo_var 2)) (\<lambda>r. Return (the r)))"

definition inc_schedule :: "nat list" where
  "inc_schedule = [0, 1, 1, 0, 0, 0, 1, 0, 0, 0, 0, 0, 0, 1, 1, 1, 1, 1, 1, 1, 1, 1, 1, 1, 1, 1]"

definition inc_end :: "int event list \<times> int system" where
  "inc_end = the (run_history default_config inc_prog inc_schedule (demo_system inc_prog 2))"

lemma inc_end:
  "run_history default_config inc_prog inc_schedule (demo_system inc_prog 2) = Some inc_end"
  "fst inc_end = [Committed 0 21, Committed 1 22]"
  "threads (snd inc_end) 0 = Finished 21" "threads (snd inc_end) 1 = Finished 22"
  "value_of (snd inc_end) (Block 2) = Arc 102 (Dyn 0 22)"
  by (simp_all add: inc_end_def inc_schedule_def inc_prog_def run_defs)

lemma inc_execution: "execution default_config inc_prog (demo_system inc_prog 2) [Committed 0 21, Committed 1 22] (snd inc_end)"
proof -
  have "run_history default_config inc_prog inc_schedule (demo_system inc_prog 2) =
      Some ([Committed 0 21, Committed 1 22], snd inc_end)"
    using inc_end(1,2) by (metis prod.collapse)
  from run_history_execution [OF this execution.at_start [OF initial_demo]] show ?thesis by simp
qed

theorem serializable_witness:
  "serial_run inc_prog [Committed 0 21, Committed 1 22] (store sys_world) = Some (abs_store (snd inc_end)) \<and>
   commits_of 1 [Committed 0 21, Committed 1 (22 :: int)] = [22]"
proof -
  have "or_free (inc_prog i)" for i by (simp add: inc_prog_def)
  from serializable [OF inc_execution this] show ?thesis by (simp add: inc_end(4) [unfolded One_nat_def])
qed

section \<open>Programs with \<open>or\<close>\<close>

text \<open>C27: for programs with \<open>or\<close> every committed transaction still takes effect as one atomic operation:
  it reads the values its predecessors left and stores what the program computes from them, except
  that the second alternative of an \<open>or\<close> may run although the first would not retry on these values.\<close>

theorem or_serializable:
  assumes "execution cfg p s0 h s"
  shows "serial p h (store (shared s0)) (abs_store s)"
  using execution_serial [OF assms] by (simp add: execution_start [OF assms])

text \<open>Thread 0 returns 100, or takes the second alternative and returns the value of variable 3 if it
  sees 20 in variable 2; thread 1 writes 1 to variable 2 and 2 to variable 3.\<close>

definition stale_prog :: "nat \<Rightarrow> int prog" where
  "stale_prog i = (if i = 0
     then OrElse (Perform (ReadOp (demo_var 2)) (\<lambda>r. if r = Some 20 then Raise Retry else Return 100))
       (Perform (ReadOp (demo_var 3)) (\<lambda>r. Return (the r))) Return
     else Perform (WriteOp (demo_var 2) 1) (\<lambda>_. Perform (WriteOp (demo_var 3) 2) (\<lambda>_. Return 0)))"

definition stale_schedule :: "nat list" where
  "stale_schedule = [0, 0, 0, 1, 1, 1, 1, 1, 1, 1, 1, 1, 1, 1, 1, 1, 0, 0, 0, 0, 0, 0, 0, 0, 0, 0]"

definition stale_end :: "int event list \<times> int system" where
  "stale_end = the (run_history default_config stale_prog stale_schedule (demo_system stale_prog 2))"

lemma stale_end:
  "run_history default_config stale_prog stale_schedule (demo_system stale_prog 2) = Some stale_end"
  "fst stale_end = [Committed 1 0, Committed 0 2]"
  "threads (snd stale_end) i = Finished (if i = 0 then 2 else 0)"
  by (simp_all add: stale_end_def stale_schedule_def stale_prog_def run_defs)

lemma stale_execution: "execution default_config stale_prog (demo_system stale_prog 2) [Committed 1 0, Committed 0 2] (snd stale_end)"
proof -
  have "run_history default_config stale_prog stale_schedule (demo_system stale_prog 2) =
      Some ([Committed 1 0, Committed 0 2], snd stale_end)"
    using stale_end(1,2) by (metis prod.collapse)
  from run_history_execution [OF this execution.at_start [OF initial_demo]] show ?thesis by simp
qed

theorem or_serializable_witness:
  "serial stale_prog [Committed 1 0, Committed 0 2] (store sys_world) (abs_store (snd stale_end))"
  using or_serializable [OF stale_execution] by simp

text \<open>C13: with \<open>or\<close> transactions are not serializable (finding): a commit does not check what the first
  alternative read before it retried, so a thread returns the value of the second alternative in a
  state in which the first one would have succeeded.  Here both threads finish, and in neither order do
  their transactions, run one after another, return what the threads returned.\<close>

theorem or_not_serializable:
  "\<exists>s a b. execution default_config stale_prog (demo_system stale_prog 2) [a, b] s \<and>
     (\<forall>i. \<exists>v. threads s i = Finished v) \<and>
     serial_run stale_prog [a, b] (store (shared (demo_system stale_prog 2))) = None \<and>
     serial_run stale_prog [b, a] (store (shared (demo_system stale_prog 2))) = None"
proof (intro exI conjI allI)
  show "execution default_config stale_prog (demo_system stale_prog 2) [Committed 1 0, Committed 0 2] (snd stale_end)"
    by (rule stale_execution)
  show "threads (snd stale_end) i = Finished (if i = 0 then 2 else 0)" for i
    by (rule stale_end)
qed (simp_all add: stale_prog_def s_then_def s_or_def s_result_def store_def)

end
