(* ===== verification/Address_Reuse.thy ===== *)
theory Address_Reuse
  imports Histories
begin

text \<open>
  Allocation that reuses addresses.  The step relation gives every value an address of its own, while
  the allocator of a program hands out again what has been dropped, so that a value may be stored at an
  address at which a transaction has read another one.  Here the threads take the same steps, but the
  next address is any one that no value in use has (\<open>refs\<close>: what the variables, the logs and the
  vectors of commits and waits hold a counted reference to).  Every such run is a run with fresh
  addresses, up to a renaming of the addresses, because the logs keep alive what they compare.
\<close>

section \<open>Renaming of addresses\<close>

definition ren :: "(nat \<Rightarrow> nat) \<Rightarrow> 'v arc \<Rightarrow> 'v arc" where
  "ren g a = Arc (g (arc_ptr a)) (arc_dyn a)"

lemma ren_simps [simp]:
  "arc_ptr (ren g a) = g (arc_ptr a)" "arc_dyn (ren g a) = arc_dyn a" "ren g (Arc n d) = Arc (g n) d"
  "downcast ty (ren g a) = downcast ty a" "ren g (ren h a) = ren (g \<circ> h) a"
  by (simp_all add: ren_def downcast_def)

lemma ren_id [simp]: "ren (\<lambda>n. n) = id" "ren id = id"
  by (simp_all add: ren_def fun_eq_iff)

abbreviation ren_log :: "(nat \<Rightarrow> nat) \<Rightarrow> 'v arc register \<Rightarrow> 'v arc register" where
  "ren_log g \<equiv> map (apsnd (map_log_var (ren g)))"

abbreviation ren_vals :: "(nat \<Rightarrow> nat) \<Rightarrow> (block \<times> 'v arc) list \<Rightarrow> (block \<times> 'v arc) list" where
  "ren_vals g \<equiv> map (apsnd (ren g))"

definition ren_tx :: "(nat \<Rightarrow> nat) \<Rightarrow> 'v transaction \<Rightarrow> 'v transaction" where
  "ren_tx g tx = tx\<lparr>vars := ren_log g (vars tx)\<rparr>"

lemma ren_tx_sel [simp]: "vars (ren_tx g tx) = ren_log g (vars tx)" "tallies_of (ren_tx g tx) = tallies_of tx"
  "ren_tx g (tx\<lparr>vars := r\<rparr>) = tx\<lparr>vars := ren_log g r\<rparr>" "(ren_tx g tx)\<lparr>vars := r\<rparr> = tx\<lparr>vars := r\<rparr>"
  by (simp_all add: ren_tx_def)

fun ren_frame :: "(nat \<Rightarrow> nat) \<Rightarrow> 'v frame \<Rightarrow> 'v frame" where
  "ren_frame g (InFirst backup q k) = InFirst (ren_log g backup) q k"
| "ren_frame g (InSecond first_vars k) = InSecond (ren_log g first_vars) k"

text \<open>The transaction of a thread that waits has an empty log.\<close>

fun ren_thread :: "(nat \<Rightarrow> nat) \<Rightarrow> 'v thread_state \<Rightarrow> 'v thread_state" where
  "ren_thread g (Running tx fs q) = Running (ren_tx g tx) (map (ren_frame g) fs) q"
| "ren_thread g (Locking v tx rs rv wv wr) = Locking v (ren_tx g tx) (ren_log g rs) rv (ren_vals g wv) wr"
| "ren_thread g (BackingOut tx ls) = BackingOut (ren_tx g tx) ls"
| "ren_thread g (Releasing v rv wv wr) = Releasing v rv (ren_vals g wv) wr"
| "ren_thread g (Writing v wv wr) = Writing v (ren_vals g wv) wr"
| "ren_thread g (Waking v cs wr) = Waking v cs wr"
| "ren_thread g (Registering tx c es reads) = Registering tx c (ren_vals g es) (ren_vals g reads)"
| "ren_thread g (Comparing tx c k v es reads) = Comparing tx c k (ren g v) (ren_vals g es) (ren_vals g reads)"
| "ren_thread g (Parked tx c reads) = Parked tx c (ren_vals g reads)"
| "ren_thread g (Dying tx c reads) = Dying tx c (ren_vals g reads)"
| "ren_thread g (Cleaning tx c k reads) = Cleaning tx c k (ren_vals g reads)"
| "ren_thread g (Finished v) = Finished v"
| "ren_thread g (Stopped r) = Stopped r"
| "ren_thread g (Panicked flt) = Panicked flt"

text \<open>The world and the system with renamed addresses, and with the next address \<open>n\<close>.\<close>

definition ren_world :: "(nat \<Rightarrow> nat) \<Rightarrow> nat \<Rightarrow> 'v world \<Rightarrow> 'v world" where
  "ren_world g n w = w\<lparr>blocks := (\<lambda>k. (blocks w k)\<lparr>vcb_value := ren g (mem w k)\<rparr>), next_arc := n\<rparr>"

definition ren_system :: "(nat \<Rightarrow> nat) \<Rightarrow> nat \<Rightarrow> 'v system \<Rightarrow> 'v system" where
  "ren_system g n s = s\<lparr>shared := ren_world g n (shared s), threads := (\<lambda>i. ren_thread g (threads s i))\<rparr>"

lemma ren_world_sel [simp]:
  "mem (ren_world g n w) k = ren g (mem w k)" "next_arc (ren_world g n w) = n"
  "blocks (ren_world g n w) k = (blocks w k)\<lparr>vcb_value := ren g (mem w k)\<rparr>"
  "ctrls (ren_world g n w) = ctrls w" "next_ctrl (ren_world g n w) = next_ctrl w"
  "(ren_world g n w)\<lparr>next_arc := m\<rparr> = ren_world g m w" "ren_world g n (w\<lparr>next_arc := m\<rparr>) = ren_world g n w"
  "ren_world g n (w\<lparr>ctrls := C\<rparr>) = (ren_world g n w)\<lparr>ctrls := C\<rparr>"
  "ren_world g n (w\<lparr>next_ctrl := c\<rparr>) = (ren_world g n w)\<lparr>next_ctrl := c\<rparr>"
  by (simp_all add: ren_world_def)

lemma ren_system_sel [simp]:
  "shared (ren_system g n s) = ren_world g n (shared s)" "threads (ren_system g n s) i = ren_thread g (threads s i)"
  "readers (ren_system g n s) = readers s" "writer (ren_system g n s) = writer s" "calls (ren_system g n s) = calls s"
  by (simp_all add: ren_system_def)

section \<open>The operations do not look at addresses\<close>

lemma map_of_ren [simp]: "map_of (ren_log g r) k = map_option (map_log_var (ren g)) (map_of r k)"
  by (induction r) auto

lemma log_var_ren [simp]:
  "LogVar_current (map_log_var h l) = h (LogVar_current l)"
  "snd (LogVar_read (map_log_var h l)) = map_log_var h (snd (LogVar_read l))"
  "LogVar_write (h x) (map_log_var h l) = map_log_var h (LogVar_write x l)"
  "LogVar_into_read_value (map_log_var h l) = map_option h (LogVar_into_read_value l)"
  "LogVar_obsolete (map_log_var h l) = map_option (map_log_var h) (LogVar_obsolete l)"
  by (cases l; simp add: LogVar_obsolete_def)+

lemma sort_key_apsnd: "sort_key (\<lambda>e. f (fst e)) (map (apsnd h) r) = map (apsnd h) (sort_key (\<lambda>e. f (fst e)) r)"
proof -
  have "insort_key (\<lambda>e. f (fst e)) (apsnd h x) (map (apsnd h) r) = map (apsnd h) (insort_key (\<lambda>e. f (fst e)) x r)" for x r
    by (induction r) auto
  then show ?thesis by (induction r) simp_all
qed

lemma reg_update_ren [simp]: "reg_update k (h v) (map (apsnd h) r) = map (apsnd h) (reg_update k v r)"
  by (induction r) (auto simp: reg_update_def)

lemma reg_insert_ren [simp]: "reg_insert cfg k (h v) (map (apsnd h) r) = map (apsnd h) (reg_insert cfg k v r)"
proof -
  have "btree_insert k (h v) (map (apsnd h) r) = map (apsnd h) (btree_insert k v r)"
    by (induction k v r rule: btree_insert.induct) auto
  moreover have "hash_insert rank k (h v) (map (apsnd h) r) = map (apsnd h) (hash_insert rank k v r)" for rank
    using sort_key_apsnd [of "rank (Suc (length r))" h "(k, v) # r"] by (simp add: hash_insert_def)
  ultimately show ?thesis by (simp add: reg_insert_def)
qed

lemma reg_records_ren [simp]: "reg_records cfg (map (apsnd h) r) = map (apsnd h) (reg_records cfg r)"
  using sort_key_apsnd [of id h r] by (simp add: reg_records_def)

lemma reg_set_ren [simp]: "reg_set cfg k (h l) (map (apsnd h) r) = map (apsnd h) (reg_set cfg k l r)"
  by (simp add: reg_set_def image_image)

lemma combine_one_ren [simp]:
  "combine_one cfg k (map_log_var (ren g) l) (ren_log g r) = ren_log g (combine_one cfg k l r)"
  by (cases "LogVar_obsolete l"; cases "map_of r k") (simp_all add: combine_one_def del: LogVar_obsolete_eq_None)

lemma combine_ren [simp]: "combine_vars cfg (ren_log g vs) (ren_log g r) = ren_log g (combine_vars cfg vs r)"
  by (induction vs arbitrary: r) auto

lemma read_values_ren [simp]: "read_values (ren_log g r) = ren_vals g (read_values r)"
  by (induction r) (auto simp: read_values_def List.map_filter_def split: option.splits)

lemma tx_ren [simp]:
  "entry_of var (ren_tx g tx) (ren_world g n w) = map_log_var (ren g) (entry_of var tx w)"
  "set_entry cfg var (map_log_var (ren g) l) (ren_tx g tx) = ren_tx g (set_entry cfg var l tx)"
  "count cfg f (ren_tx g tx) = ren_tx g (count cfg f tx)"
  "count_access cfg (map_log_var (ren g) l) (ren_tx g tx) = ren_tx g (count_access cfg l tx)"
  "counted cfg f var (ren_tx g tx) = ren_tx g (counted cfg f var tx)"
proof -
  show count: "count cfg f (ren_tx g tx) = ren_tx g (count cfg f tx)" for f tx
    by (simp add: count_def ren_tx_def)
  show access: "count_access cfg (map_log_var (ren g) l) (ren_tx g tx) = ren_tx g (count_access cfg l tx)" for l tx
    by (cases l) (simp_all add: count_access_def count)
  show "counted cfg f var (ren_tx g tx) = ren_tx g (counted cfg f var tx)"
    by (simp add: counted_def count access split: option.split)
qed (simp_all add: entry_of_def set_entry_def split: option.split)

text \<open>What an operation compares is in use, so a renaming that separates the values in use keeps the result.\<close>

lemma ptr_eq_ren: "inj_on g (arc_ptr ` A) \<Longrightarrow> a \<in> A \<Longrightarrow> b \<in> A \<Longrightarrow> ptr_eq (ren g a) (ren g b) = ptr_eq a b"
  by (auto simp: ptr_eq_def inj_on_def)

lemma early_conflict_ren:
  assumes "inj_on g (arc_ptr ` (log_arcs (vars tx) \<union> range (mem w)))"
  shows "early_conflict cfg var (map_log_var (ren g) (entry_of var tx w)) (ren_world g n w) =
    early_conflict cfg var (entry_of var tx w) w"
proof -
  have "v \<in> log_arcs (vars tx) \<union> range (mem w)" if "entry_of var tx w = Read v" for v
    using entry_arcs [of var tx w] that by auto
  then show ?thesis
    using ptr_eq_ren [OF assms] by (cases "entry_of var tx w") (simp_all add: early_conflict_iff)
qed

text \<open>An operation, with the number \<open>m\<close> of the next address that it leaves.\<close>

lemma op_ren:
  assumes "inj_on g (arc_ptr ` (log_arcs (vars tx) \<union> range (mem w)))" and "g (next_arc w) = n"
  shows "\<exists>m. op_body cfg b (ren_tx g tx) (ren_world g n w) =
    map_prod (map_sum id (apsnd (ren_tx g))) (ren_world g m) (op_body cfg b tx w)"
proof -
  note ec = early_conflict_ren [OF assms(1)]
  let ?new = "\<lambda>d. Arc (next_arc w) d"
  have new: "LogVar_write (Arc n d) (map_log_var (ren g) l) = map_log_var (ren g) (LogVar_write (?new d) l)"
    "Write (Arc n d) = map_log_var (ren g) (Write (?new d))" for d l
    using log_var_ren(3) [of "ren g" "?new d" l] by (simp_all add: assms(2))
  note ops = TVar_ops and_then_def lift_result_def Let_def
  have fin: ?thesis if "op_body cfg b (ren_tx g tx) (ren_world g n w) =
    map_prod (map_sum id (apsnd (ren_tx g))) (ren_world g m) (op_body cfg b tx w)" for m
    using that by blast
  show ?thesis
  proof (cases b)
    case (ReadOp x)
    show ?thesis by (rule fin [of n]) (simp add: ReadOp ops Transaction_read_eq ec split: sum.split)
  next
    case (WriteOp x v)
    let ?l = "\<lambda>d. case map_of (vars tx) (control_block_of x) of Some l \<Rightarrow> LogVar_write (?new d) l | None \<Rightarrow> Write (?new d)"
    have "(case map_of (vars (ren_tx g tx)) (control_block_of x) of
        Some l \<Rightarrow> LogVar_write (Arc n d) l | None \<Rightarrow> Write (Arc n d)) = map_log_var (ren g) (?l d)" for d
      by (simp add: new split: option.split del: log_var_ren log_var.map)
    then show ?thesis
      by (intro fin [of "Suc n"]) (simp add: WriteOp ops Transaction_write_eq del: ren_tx_sel)
  next
    case (ModifyOp x f)
    show ?thesis
      by (rule fin [of "if early_conflict cfg x (entry_of x tx w) w \<or> isl (downcast (marker x) (LogVar_current (entry_of x tx w)))
          then n else Suc n"])
        (simp add: ModifyOp ops Transaction_modify_eq ec new split: sum.split)
  next
    case (ExchangeOp x v)
    show ?thesis by (rule fin [of "Suc n"]) (simp add: ExchangeOp ops Transaction_exchange_eq ec new split: sum.split)
  qed
qed

section \<open>The steps do not look at addresses\<close>

lemma ren_world_ops [simp]:
  "VarControlBlock_wait k c (ren_world g n w) = ren_world g n (VarControlBlock_wait k c w)"
  "set_dead_count k (ren_world g n w) = apsnd (ren_world g n) (set_dead_count k w)"
  "set_dead_cleanup k (ren_world g n w) = ren_world g n (set_dead_cleanup k w)"
  "ControlBlock_set_changed c (ren_world g n w) = ren_world g n (ControlBlock_set_changed c w)"
  "ctrl_blocked c (ren_world g n w) = ctrl_blocked c w"
  "(ren_world g n w)\<lparr>blocks := (blocks (ren_world g n w))
      (k := (blocks w k)\<lparr>vcb_value := ren g (mem w k), waiting_threads := ts\<rparr>)\<rparr> =
    ren_world g n (update_block k (\<lambda>b. b\<lparr>waiting_threads := ts\<rparr>) w)"
  "(ren_world g n w)\<lparr>blocks := (blocks (ren_world g n w))(k := (blocks w k)\<lparr>vcb_value := ren g x\<rparr>)\<rparr> =
    ren_world g n (update_block k (\<lambda>b. b\<lparr>vcb_value := x\<rparr>) w)"
  by (simp_all add: ren_world_def VarControlBlock_wait_def set_dead_count_def set_dead_cleanup_def Let_def
      ControlBlock_set_changed_def ctrl_blocked_def fun_eq_iff split: option.split)

lemma ren_system_upd [simp]:
  "(ren_system g n s)\<lparr>shared := ren_world g m w\<rparr> = ren_system g m (s\<lparr>shared := w\<rparr>)"
  "(\<lambda>j. ren_thread g (threads s j))(i := ren_thread g st) = (\<lambda>j. ren_thread g (((threads s)(i := st)) j))"
  "can_read k (ren_system g n s) = can_read k s" "can_write k (ren_system g n s) = can_write k s"
  "acquire i l (ren_system g n s) = ren_system g n (acquire i l s)"
  "release i l (ren_system g n s) = ren_system g n (release i l s)"
  "restart p i (ren_tx g tx) = restart p i tx" "ren_thread g (restart p i tx) = restart p i tx"
  by (auto simp: ren_system_def can_read_def can_write_def acquire_def release_def restart_def
      Transaction_clear_def ren_tx_def fun_eq_iff split: lock.split)

text \<open>Setting a thread, with the new state written as the code does.\<close>

lemma ren_set_thread:
  "st' = ren_thread g st \<Longrightarrow> (\<And>j. T' j = ren_thread g (T j)) \<Longrightarrow>
    (ren_system g n s)\<lparr>threads := T'(i := st')\<rparr> = ren_system g n (s\<lparr>threads := T(i := st)\<rparr>)"
  by (simp add: ren_system_def fun_eq_iff)

lemma body_ends_ren:
  "body_ends cfg p i (ren_tx g tx) (map (ren_frame g) fs) r (ren_system g n s) =
    ren_system g n (body_ends cfg p i tx fs r s)"
  by (cases rule: body_ends_cases [of fs r])
    (auto simp: Let_def Transaction_combine_def simp flip: ren_world_sel(8,9) intro!: ren_set_thread)

lemma lock_step_ren:
  assumes "inj_on g (arc_ptr ` (insert (value_of s k) (set_log_var l)))"
  shows "lock_step i v (ren_tx g tx) k (map_log_var (ren g) l) (ren_log g rs) rv (ren_vals g wv) wr (ren_system g n s) =
    map_option (ren_system g n) (lock_step i v tx k l rs rv wv wr s)"
proof -
  note eq = ptr_eq_ren [OF assms]
  show ?thesis
    by (cases l) (auto simp: Let_def eq comp_def intro!: ren_set_thread)
qed

text \<open>The step of a thread whose comparisons the renaming keeps.\<close>

lemma thread_step_ren:
  assumes inj: "inj_on g (arc_ptr ` refs s)" and n: "g (next_arc (shared s)) = n"
  shows "\<exists>m. thread_step cfg p i (ren_system g n s) = map_option (ren_system g m) (thread_step cfg p i s)"
proof -
  have sub: "inj_on g (arc_ptr ` A)" if "A \<subseteq> refs s" for A
    using inj that by (meson image_mono inj_on_subset)
  have mem: "range (value_of s) \<subseteq> refs s" by auto
  have own: "thread_refs (threads s i) \<subseteq> refs s" using thread_in_refs by auto
  show ?thesis
  proof (cases "threads s i")
    case (Running tx fs q)
    show ?thesis
    proof (cases q)
      case (Perform b k)
      have "log_arcs (vars tx) \<union> range (value_of s) \<subseteq> refs s" using mem own Running by auto
      from op_ren [OF sub [OF this] n, of cfg b] obtain m where
        m: "op_body cfg b (ren_tx g tx) (ren_world g n (shared s)) =
          map_prod (map_sum id (apsnd (ren_tx g))) (ren_world g m) (op_body cfg b tx (shared s))" by blast
      have "loads cfg b (ren_tx g tx) = loads cfg b tx"
        by (auto simp: loads_def split: op.split option.split log_var.split)
      with m Running Perform have "thread_step cfg p i (ren_system g n s) =
          map_option (ren_system g m) (thread_step cfg p i s)"
        by (auto simp: thread_step_def split: prod.splits sum.splits intro!: ren_set_thread)
      then show ?thesis by blast
    qed (use Running in \<open>auto simp: thread_step_def body_ends_ren intro!: exI [of _ n] ren_set_thread\<close>)
  next
    case (Locking v tx rs rv wv wr)
    show ?thesis
    proof (cases rs)
      case Nil
      with Locking show ?thesis by (auto simp: thread_step_def intro!: exI [of _ n] ren_set_thread)
    next
      case (Cons r rs')
      obtain k l where r: "r = (k, l)" by (cases r)
      have "insert (value_of s k) (set_log_var l) \<subseteq> refs s" using mem own Locking Cons r by auto
      from lock_step_ren [OF sub [OF this]] Locking Cons r show ?thesis
        by (auto simp: thread_step_def intro!: exI [of _ n])
    qed
  next
    case (Comparing tx c k v es reads)
    have "{v, value_of s k} \<subseteq> refs s" using mem own Comparing by auto
    from ptr_eq_ren [OF sub [OF this]] Comparing show ?thesis
      by (auto simp: thread_step_def intro!: exI [of _ n] ren_set_thread)
  qed (auto simp: thread_step_def finish_def simp flip: ren_world_sel(8)
      intro!: exI [of _ n] ren_set_thread split: list.split prod.split)
qed

section \<open>The values in use and their addresses\<close>

lemma log_arcs_ren [simp]: "log_arcs (ren_log g r) = ren g ` log_arcs r"
  by (simp add: log_arcs_def log_var.set_map image_UN image_image)

lemma frame_log_ren [simp]: "frame_log (ren_frame g f) = ren_log g (frame_log f)"
  by (cases f) simp_all

lemma thread_refs_ren [simp]: "thread_refs (ren_thread g st) = ren g ` thread_refs st"
  by (cases st) (auto simp: image_Un image_UN image_image)

lemma refs_ren [simp]: "refs (ren_system g n s) = ren g ` refs s"
  by (simp add: refs_def image_Un image_UN image_image)

text \<open>A renaming that agrees on the values of a system does the same to it.\<close>

lemma map_log_var_cong: "(\<And>a. a \<in> set_log_var l \<Longrightarrow> f a = h a) \<Longrightarrow> map_log_var f l = map_log_var h l"
  by (rule log_var.map_cong0)

lemma ren_log_cong:
  assumes "\<And>a. a \<in> log_arcs r \<Longrightarrow> ren f a = ren h a"
  shows "ren_log f r = ren_log h r"
proof -
  have "map_log_var (ren f) l = map_log_var (ren h) l" if "(k, l) \<in> set r" for k l
    using assms that by (intro map_log_var_cong) (force simp: log_arcs_def)
  then show ?thesis by auto
qed

lemma ren_frame_cong:
  assumes "\<And>a. a \<in> log_arcs (frame_log fr) \<Longrightarrow> ren f a = ren h a"
  shows "ren_frame f fr = ren_frame h fr"
  using ren_log_cong [OF assms] by (cases fr) simp_all

lemma ren_vals_cong: "(\<And>a. a \<in> snd ` set r \<Longrightarrow> ren f a = ren h a) \<Longrightarrow> ren_vals f r = ren_vals h r"
  by (auto simp: rev_image_eqI)

lemma ren_tx_cong:
  assumes "\<And>a. a \<in> log_arcs (vars tx) \<Longrightarrow> ren f a = ren h a"
  shows "ren_tx f tx = ren_tx h tx"
  using ren_log_cong [OF assms] by (simp add: ren_tx_def)

lemmas ren_congs = ren_frame_cong ren_tx_cong ren_log_cong ren_vals_cong

lemma ren_thread_cong:
  assumes eq: "\<And>a. a \<in> thread_arcs st \<Longrightarrow> ren f a = ren h a"
  shows "ren_thread f st = ren_thread h st"
proof (cases st)
  case (Running tx fs q)
  have "ren_frame f fr = ren_frame h fr" if "fr \<in> set fs" for fr
    by (rule ren_frame_cong) (use that eq Running in auto)
  moreover have "ren_tx f tx = ren_tx h tx" by (rule ren_tx_cong) (simp add: eq Running)
  ultimately show ?thesis by (simp add: Running)
next
  case (Locking v tx rs rv wv wr)
  have "ren_tx f tx = ren_tx h tx" "ren_log f rs = ren_log h rs" "ren_vals f wv = ren_vals h wv"
    by (intro ren_congs; simp add: eq Locking)+
  then show ?thesis by (simp add: Locking)
next
  case (BackingOut tx ls)
  have "ren_tx f tx = ren_tx h tx" by (rule ren_tx_cong) (simp add: eq BackingOut)
  then show ?thesis by (simp add: BackingOut)
qed (insert eq, force+)

lemma ren_system_cong:
  assumes "\<And>a. a \<in> arcs s \<Longrightarrow> f (arc_ptr a) = h (arc_ptr a)"
  shows "ren_system f n s = ren_system h n s"
proof -
  have eq: "ren f a = ren h a" if "a \<in> arcs s" for a using assms that by (simp add: ren_def)
  then have "ren_thread f (threads s i) = ren_thread h (threads s i)" for i
    by (intro ren_thread_cong) (blast intro: thread_in_arcs)
  with eq show ?thesis by (simp add: ren_system_def ren_world_def)
qed

lemma ren_system_self [simp]: "ren_system (\<lambda>m. m) (next_arc (shared s)) s = s"
proof -
  have log: "map (apsnd (map_log_var id)) r = r" for r :: "'a arc register"
    by (simp add: log_var.map_id0 list.map_id prod.map_id0 apsnd_def)
  have "ren_frame (\<lambda>m. m) f = f" for f :: "'a frame" by (cases f) (simp_all add: log)
  then have "ren_thread (\<lambda>m. m) st = st" for st :: "'a thread_state"
    by (cases st) (simp_all add: ren_tx_def log map_idI)
  then show ?thesis by (simp add: ren_system_def ren_world_def)
qed

section \<open>A step allocates at most once\<close>

lemma op_body_next_arc: "op_body cfg b tx w = (res, w') \<Longrightarrow> next_arc w' \<le> Suc (next_arc w)"
  by (cases b) (auto simp: TVar_ops and_then_def lift_result_def op_eqs Let_def split: if_splits sum.splits)

lemma thread_step_next_arc:
  assumes "thread_step cfg p i s = Some s'"
  shows "next_arc (shared s') \<le> Suc (next_arc (shared s))"
proof (cases "threads s i")
  case (Running tx fs q)
  with assms have b: "body_step cfg p i tx fs q s = Some s'" by (simp add: thread_step_def)
  have ends: "next_arc (shared (body_ends cfg p i tx fs r s)) = next_arc (shared s)" for r
    by (cases rule: body_ends_cases [of fs r]) (simp_all add: Let_def)
  show ?thesis
  proof (cases q)
    case (Perform op k)
    with b have "body_step cfg p i tx fs (Perform op k) s = Some s'" by simp
    then show ?thesis by (cases rule: perform_cases) (use op_body_next_arc in force)+
  qed (use b ends in auto)
next
  case (Locking v tx rs rv wv wr)
  show ?thesis
  proof (cases rs)
    case (Cons r rs')
    obtain k l where "r = (k, l)" by (cases r)
    with assms Locking Cons have "lock_step i v tx k l rs' rv wv wr s = Some s'" by (simp add: thread_step_def)
    from lock_step_frame(1) [OF this] show ?thesis by simp
  qed (use assms Locking in \<open>auto simp: thread_step_def\<close>)
qed (use assms in \<open>auto simp: thread_step_defs restart_def finish_def VarControlBlock_wait_def set_dead_cleanup_def
    split: list.splits if_splits\<close>)

text \<open>The values in use after a step: those before it and at most one at the next address.\<close>

lemma fresh_next: "fresh m n A \<Longrightarrow> n \<le> Suc m \<Longrightarrow> a \<in> A \<Longrightarrow> arc_ptr a = m"
  by (force simp: fresh_def)

lemma step_refs:
  assumes reach: "reachable cfg p s" and step: "step cfg p s l s'"
  shows "arc_ptr ` refs s' \<subseteq> insert (next_arc (shared s)) (arc_ptr ` refs s)"
  using step
proof (cases rule: step.cases)
  case (thread i)
  obtain A where A: "fresh (next_arc (shared s)) (next_arc (shared s')) A" "thread_refs (threads s' i) \<subseteq> refs s \<union> A"
    using thread_step_refs [OF thread(2) reachable_wf [OF reach]] by blast
  have "thread_refs (threads s' j) \<subseteq> refs s \<union> A" for j
    using A(2) thread_step_others [OF thread(2), of j] thread_in_refs [of _ s j] by (cases "j = i") auto
  moreover have "value_of s' k \<in> refs s" for k
    using thread(2)
  proof (cases rule: thread_step_memory)
    case (stored v j x wv wr)
    with thread_in_refs [of x s i] show ?thesis by simp
  qed simp
  ultimately have "refs s' \<subseteq> refs s \<union> A" by (auto simp: refs_def [of s'])
  with fresh_next [OF A(1) thread_step_next_arc [OF thread(2)]] show ?thesis by force
next
  case (give_up i tx e)
  then show ?thesis by (force simp: refs_def split: if_splits)
next
  case (atomic var v)
  then show ?thesis by (force simp: refs_def TVar_write_atomic_def Arc_new_def)
qed

section \<open>Executions with an allocator that reuses addresses\<close>

text \<open>The next value is allocated at \<open>n\<close>.\<close>

definition place :: "nat \<Rightarrow> 'v system \<Rightarrow> 'v system" where
  "place n s = s\<lparr>shared := (shared s)\<lparr>next_arc := n\<rparr>\<rparr>"

definition free_address :: "'v system \<Rightarrow> nat \<Rightarrow> bool" where
  "free_address s n \<longleftrightarrow> n \<notin> arc_ptr ` refs s"

inductive reuse_execution :: "config \<Rightarrow> (nat \<Rightarrow> 'v prog) \<Rightarrow> 'v system \<Rightarrow> 'v event list \<Rightarrow> 'v system \<Rightarrow> bool"
  for cfg :: config and p :: "nat \<Rightarrow> 'v prog" and s0 :: "'v system" where
  reuse_start: "initial p s0 \<Longrightarrow> reuse_execution cfg p s0 [] s0"
| reuse_continue: "reuse_execution cfg p s0 h s \<Longrightarrow> free_address s n \<Longrightarrow> step cfg p (place n s) l s' \<Longrightarrow>
    reuse_execution cfg p s0 (h @ events s l) s'"

lemma place_sel [simp]:
  "threads (place n s) = threads s" "calls (place n s) = calls s" "readers (place n s) = readers s"
  "writer (place n s) = writer s" "next_arc (shared (place n s)) = n" "value_of (place n s) = value_of s"
  "refs (place n s) = refs s" "arcs (place n s) = arcs s" "events (place n s) l = events s l"
  "place n (ren_system g m s) = ren_system g n s"
  by (cases l; simp_all add: place_def refs_def arcs_def ren_system_def ren_world_def)+

text \<open>A run with reused addresses is a run with fresh ones, renamed.\<close>

definition renames :: "(nat \<Rightarrow> nat) \<Rightarrow> nat \<Rightarrow> 'v system \<Rightarrow> 'v system \<Rightarrow> bool" where
  "renames g n t s \<longleftrightarrow> s = ren_system g n t \<and> inj_on g (arc_ptr ` refs t)"

lemma renames_place:
  assumes reach: "reachable cfg p t" and ren: "renames g m t s" and free: "free_address s n"
  obtains g' where "renames g' n t (place n s)" "g' (next_arc (shared t)) = n"
    "inj_on g' (insert (next_arc (shared t)) (arc_ptr ` refs t))"
proof
  let ?g = "g(next_arc (shared t) := n)"
  from ren have s: "s = ren_system g m t" and inj: "inj_on g (arc_ptr ` refs t)" by (simp_all add: renames_def)
  have below: "arc_ptr a < next_arc (shared t)" if "a \<in> arcs t" for a
    using reachable_coherent [OF reach] that by (simp add: coherent_def)
  have same: "?g (arc_ptr a) = g (arc_ptr a)" if "a \<in> arcs t" for a using below [OF that] by simp
  have old: "?g x = g x" if "x \<in> arc_ptr ` refs t" for x
    using that below refs_arcs [of t] by fastforce
  have n: "n \<notin> g ` arc_ptr ` refs t" using free by (simp add: free_address_def s image_image)
  have inj': "inj_on ?g (arc_ptr ` refs t)" using inj old by (simp cong: inj_on_cong)
  show "renames ?g n t (place n s)"
    using inj' ren_system_cong [of t "?g" g n] same by (simp add: renames_def s)
  show "inj_on ?g (insert (next_arc (shared t)) (arc_ptr ` refs t))"
    using inj' n old below refs_arcs [of t] by (auto simp: image_iff)
qed simp

lemma events_ren [simp]: "events (ren_system g n s) l = events s l"
proof (cases l)
  case (ThreadStep i)
  then show ?thesis by (cases "threads s i") (auto split: list.split)
qed simp_all

lemma renames_step:
  assumes reach: "reachable cfg p t" and ren: "renames g n t s" and n: "g (next_arc (shared t)) = n"
    and inj: "inj_on g (insert (next_arc (shared t)) (arc_ptr ` refs t))" and step: "step cfg p s l s'"
  obtains (stepped) t' m where "step cfg p t l t'" "renames g m t' s'" "events s l = events t l"
proof -
  from ren have s: "s = ren_system g n t" and inj': "inj_on g (arc_ptr ` refs t)" by (simp_all add: renames_def)
  have found: thesis if t: "step cfg p t l t'" and s': "s' = ren_system g m t'" for t' m
  proof -
    have "renames g m t' s'" using inj_on_subset [OF inj step_refs [OF reach t]] by (simp add: renames_def s')
    then show thesis by (rule stepped [OF t]) (simp add: s)
  qed
  from step show thesis
  proof (cases rule: step.cases)
    case (thread i)
    obtain m where "thread_step cfg p i s = map_option (ren_system g m) (thread_step cfg p i t)"
      unfolding s using thread_step_ren [OF inj' n] by blast
    with thread(2) obtain t' where "thread_step cfg p i t = Some t'" "s' = ren_system g m t'" by auto
    then show thesis unfolding thread(1) by (intro found) (simp_all add: step.thread thread(1))
  next
    case (give_up i tx e)
    then obtain tx' where "threads t i = Running tx' [] (Raise e)"
      unfolding s by (cases "threads t i") auto
    moreover from this have "s' = ren_system g n (set_thread i (Stopped Abandoned) t)"
      unfolding give_up(2) s by (intro ren_set_thread) simp_all
    ultimately show thesis using give_up(1,4) by (intro found) (auto simp: s intro: step.give_up)
  next
    case (atomic var v)
    have "TVar_write_atomic var v (ren_world g n (shared t)) = ren_world g (Suc n) (TVar_write_atomic var v (shared t))"
      using n by (simp add: TVar_write_atomic_def Arc_new_def ren_world_def fun_eq_iff)
    then have "s' = ren_system g (Suc n) (t\<lparr>shared := TVar_write_atomic var v (shared t)\<rparr>)"
      unfolding atomic(2) s by simp
    with atomic(1,3) show thesis by (intro found) (auto simp: s intro: step.atomic)
  qed
qed

lemma reuse_renamed: "reuse_execution cfg p s0 h s \<Longrightarrow> \<exists>t g n. execution cfg p s0 h t \<and> renames g n t s"
proof (induction rule: reuse_execution.induct)
  case reuse_start
  then have "execution cfg p s0 [] s0 \<and> renames (\<lambda>m. m) (next_arc (shared s0)) s0 s0"
    by (simp add: renames_def execution.at_start)
  then show ?case by blast
next
  case (reuse_continue h s n l s')
  then obtain t g m where t: "execution cfg p s0 h t" and ren: "renames g m t s" by blast
  note reach = execution_reachable [OF t]
  obtain g' where g': "renames g' n t (place n s)" "g' (next_arc (shared t)) = n"
    "inj_on g' (insert (next_arc (shared t)) (arc_ptr ` refs t))"
    by (rule renames_place [OF reach ren reuse_continue(2)])
  obtain t' m' where t': "step cfg p t l t'" "renames g' m' t' s'" "events (place n s) l = events t l"
    by (rule renames_step [OF reach g' reuse_continue(3)])
  from execution.continue [OF t t'(1)] t'(2,3) show ?case by auto
qed

text \<open>The abstract memory, and what is left of a system when the addresses are forgotten.\<close>

definition erase :: "'v system \<Rightarrow> 'v system" where
  "erase s = ren_system (\<lambda>_. 0) 0 s"

lemma ren_compose [simp]: "ren_system f m (ren_system g n s) = ren_system (f \<circ> g) m s"
proof -
  have log: "ren_log f (ren_log g r) = ren_log (f \<circ> g) r" for r :: "'a arc register"
    by (auto simp: log_var.map_comp comp_def)
  have fr: "ren_frame f (ren_frame g x) = ren_frame (f \<circ> g) x" for x :: "'a frame"
    by (cases x) (simp_all only: ren_frame.simps log)
  have frs: "map (ren_frame f) (map (ren_frame g) fs) = map (ren_frame (f \<circ> g)) fs" for fs :: "'a frame list"
    by (simp add: fr [unfolded comp_def] comp_def)
  have vals: "ren_vals f (ren_vals g r) = ren_vals (f \<circ> g) r" for r :: "(block \<times> 'a arc) list"
    by (auto simp: comp_def)
  have tx: "ren_tx f (ren_tx g tx) = ren_tx (f \<circ> g) tx" for tx :: "'a transaction"
    by (simp add: ren_tx_def log del: map_map map_eq_conv)
  have "ren_thread f (ren_thread g st) = ren_thread (f \<circ> g) st" for st :: "'a thread_state"
    by (cases st) (simp_all add: tx log vals frs del: map_map map_eq_conv)
  then show ?thesis by (simp add: ren_system_def ren_world_def)
qed

lemma erase_ren [simp]: "erase (ren_system g n s) = erase s"
  by (simp add: erase_def comp_def)

lemma map_of_vals [simp]: "map_of (ren_vals g r) k = map_option (ren g) (map_of r k)"
  by (induction r) auto

lemma pending_ren: "pending (ren_thread g st) k = map_option (ren g) (pending st k)"
  by (cases st) simp_all

lemma abs_store_ren: "abs_store (ren_system g n s) = abs_store s"
  by (auto simp: abs_store_def abs_mem_def pending_value_def pending_ren fun_eq_iff split: option.split)

end
