(* ===== verification/Reuse_Properties.thy ===== *)
theory Reuse_Properties
  imports Address_Reuse Serializability_Properties
begin

text \<open>
  What holds with an allocator that reuses addresses: nothing that the threads do depends on it, and
  the transactions stay serializable, although a variable may hold another value at the address at
  which a transaction has read it (ABA).
\<close>

section \<open>Executions that reuse no address\<close>

lemma execution_reuses: "execution cfg p s0 h s \<Longrightarrow> reuse_execution cfg p s0 h s"
proof (induction rule: execution.induct)
  case at_start
  then show ?case by (rule reuse_execution.reuse_start)
next
  case (continue h s l s')
  have "coherent s" using reachable_coherent [OF execution_reachable [OF continue(1)]] .
  then have "free_address s (next_arc (shared s))"
    using refs_arcs [of s] by (force simp: coherent_def free_address_def)
  moreover have "place (next_arc (shared s)) s = s" by (simp add: place_def)
  ultimately show ?case using continue(2) reuse_continue [OF continue(3)] by metis
qed

text \<open>A run that allocates above all addresses in use.\<close>

fun run_above :: "config \<Rightarrow> (nat \<Rightarrow> 'v prog) \<Rightarrow> nat \<Rightarrow> nat list \<Rightarrow> 'v system \<Rightarrow> ('v event list \<times> 'v system) option" where
  "run_above cfg p n [] s = Some ([], s)"
| "run_above cfg p n (i # is) s = (case thread_step cfg p i (place n s) of
      None \<Rightarrow> None
    | Some s' \<Rightarrow> map_option (\<lambda>(h, t). (events s (ThreadStep i) @ h, t)) (run_above cfg p (Suc n) is s'))"

lemma reuse_step_refs:
  assumes "reuse_execution cfg p s0 h s" and "free_address s n" and "step cfg p (place n s) l s'"
  shows "arc_ptr ` refs s' \<subseteq> insert n (arc_ptr ` refs s)"
proof -
  from reuse_renamed [OF assms(1)] obtain t g m where t: "execution cfg p s0 h t" and ren: "renames g m t s" by blast
  note reach = execution_reachable [OF t]
  obtain g' where g': "renames g' n t (place n s)" "g' (next_arc (shared t)) = n"
    "inj_on g' (insert (next_arc (shared t)) (arc_ptr ` refs t))"
    by (rule renames_place [OF reach ren assms(2)])
  obtain t' m' where t': "step cfg p t l t'" "renames g' m' t' s'"
    by (rule renames_step [OF reach g' assms(3)])
  have refs: "arc_ptr ` refs s = g' ` arc_ptr ` refs t" "arc_ptr ` refs s' = g' ` arc_ptr ` refs t'"
    using g'(1) t'(2) place_sel(7) [of n s, symmetric] by (simp_all add: renames_def image_image)
  have "g' ` arc_ptr ` refs t' \<subseteq> g' ` insert (next_arc (shared t)) (arc_ptr ` refs t)"
    using step_refs [OF reach t'(1)] by (rule image_mono)
  then show ?thesis using g'(2) refs by simp
qed

lemma run_above_reuses:
  assumes "run_above cfg p n is s = Some (h, s')" and "reuse_execution cfg p s0 h0 s" and "\<forall>a \<in> refs s. arc_ptr a < n"
  shows "reuse_execution cfg p s0 (h0 @ h) s'"
  using assms
proof (induction "is" arbitrary: n s h h0)
  case (Cons i "is")
  from Cons.prems(1) obtain s1 h1 where step: "thread_step cfg p i (place n s) = Some s1"
    and run: "run_above cfg p (Suc n) is s1 = Some (h1, s')" and h: "h = events s (ThreadStep i) @ h1"
    by (auto split: option.splits)
  have free: "free_address s n" using Cons.prems(3) by (force simp: free_address_def)
  have "\<forall>a \<in> refs s1. arc_ptr a < Suc n"
    using reuse_step_refs [OF Cons.prems(2) free step.thread [OF step]] Cons.prems(3) by fastforce
  from Cons.IH [OF run reuse_continue [OF Cons.prems(2) free step.thread [OF step]] this]
  show ?case by (simp only: h append_assoc)
qed simp

section \<open>Reuse is invisible\<close>

text \<open>C26: it makes no difference to the threads that addresses are reused: whatever happens with an
  allocator that hands out any address that no value in use has, the same history can happen with one
  that never reuses an address, and the two systems then differ in nothing but addresses
  (\<open>erase\<close>: the values, the logs, the locks, the waiting threads and the results are the same), and
  the same threads can take a step.\<close>

theorem address_reuse_is_invisible:
  assumes "reuse_execution cfg p s0 h s"
  shows "\<exists>t. execution cfg p s0 h t \<and> erase t = erase s \<and>
    (\<forall>n i. free_address s n \<longrightarrow> (thread_step cfg p i (place n s) = None \<longleftrightarrow> thread_step cfg p i t = None))"
proof -
  from reuse_renamed [OF assms] obtain t g m where t: "execution cfg p s0 h t" and ren: "renames g m t s" by blast
  have "thread_step cfg p i (place n s) = None \<longleftrightarrow> thread_step cfg p i t = None" if free: "free_address s n" for n i
  proof -
    obtain g' where g': "renames g' n t (place n s)" "g' (next_arc (shared t)) = n"
      by (rule renames_place [OF execution_reachable [OF t] ren free])
    then have "place n s = ren_system g' n t" "inj_on g' (arc_ptr ` refs t)" by (simp_all add: renames_def)
    with thread_step_ren [OF this(2) g'(2), of cfg p i] show ?thesis by auto
  qed
  with t ren show ?thesis by (auto simp: renames_def)
qed

section \<open>Serializability\<close>

text \<open>C25: the comparison of pointers is enough for serializability even if the allocator reuses addresses:
  with any allocator that hands out only addresses that no value in use has, the committed
  transactions take effect one after another, in the order of their commits, and without \<open>or\<close> each
  returns what it returns alone on the store of its predecessors.  A log holds a counted reference to what it has
  read; so no other value gets the address before the comparison at commit.\<close>

theorem reuse_serializable:
  assumes "reuse_execution cfg p s0 h s"
  shows "serial p h (store (shared s0)) (abs_store s) \<and>
    ((\<forall>i. or_free (p i)) \<longrightarrow> serial_run p h (store (shared s0)) = Some (abs_store s)) \<and>
    ((\<forall>i. pending (threads s i) = (\<lambda>_. None)) \<longrightarrow> abs_store s = store (shared s))"
proof -
  from reuse_renamed [OF assms] obtain t g m where t: "execution cfg p s0 h t" and ren: "renames g m t s" by blast
  from ren have "abs_store s = abs_store t" by (simp add: renames_def abs_store_ren)
  with execution_serial [OF t] execution_start [OF t] have "serial p h (store (shared s0)) (abs_store s)" by simp
  with serial_or_free [of p h] abs_store_settled [of s] show ?thesis by auto
qed

text \<open>Two threads that increment the same variable, first with the value at address 2 and
  allocating at 100 and 101.  Thread 1 aborts because thread 0 has stored its value, and drops its log;
  then address 2 is free, and thread 1 allocates there the value that it stores at last.\<close>

definition reuse_begin :: "int event list \<times> int system" where
  "reuse_begin = the (run_history default_config inc_prog (take 16 inc_schedule) (demo_system inc_prog 2))"

definition reuse_middle :: "int system" where
  "reuse_middle = the (thread_step default_config inc_prog 1 (place 2 (snd reuse_begin)))"

definition reuse_end :: "int event list \<times> int system" where
  "reuse_end = the (run_above default_config inc_prog 103 (drop 17 inc_schedule) reuse_middle)"

lemma reuse_begin:
  "run_history default_config inc_prog (take 16 inc_schedule) (demo_system inc_prog 2) = Some reuse_begin"
  "fst reuse_begin = [Committed 0 21]"
  "value_of (snd reuse_begin) k = (if k = Block 2 then Arc 100 (Dyn 0 21) else mem sys_world k)"
  "thread_refs (threads (snd reuse_begin) i) = {}" "events (snd reuse_begin) (ThreadStep 1) = []"
  by (simp_all add: reuse_begin_def inc_schedule_def inc_prog_def run_defs)

lemma reuse_middle:
  "thread_step default_config inc_prog 1 (place 2 (snd reuse_begin)) = Some reuse_middle"
  by (simp_all add: reuse_middle_def reuse_begin_def inc_schedule_def inc_prog_def run_defs place_def)

lemma reuse_end:
  "run_above default_config inc_prog 103 (drop 17 inc_schedule) reuse_middle = Some reuse_end"
  "fst reuse_end = [Committed 1 22]" "value_of (snd reuse_end) (Block 2) = Arc 2 (Dyn 0 22)"
  by (simp_all add: reuse_end_def reuse_middle_def reuse_begin_def inc_schedule_def inc_prog_def run_defs place_def)

lemma reuse_end_execution:
  "reuse_execution default_config inc_prog (demo_system inc_prog 2) [Committed 0 21, Committed 1 22] (snd reuse_end)"
proof -
  let ?s = "snd reuse_begin"
  have "run_history default_config inc_prog (take 16 inc_schedule) (demo_system inc_prog 2) =
      Some ([Committed 0 21], ?s)"
    using reuse_begin(1,2) by (metis prod.collapse)
  from run_history_execution [OF this execution.at_start [OF initial_demo]]
  have start: "reuse_execution default_config inc_prog (demo_system inc_prog 2) [Committed 0 21] ?s"
    by (simp add: execution_reuses)
  have refs: "refs ?s = range (value_of ?s)" by (simp add: refs_def reuse_begin(4))
  have ptr: "arc_ptr (value_of ?s k) = (if k = Block 2 then 100 else min 50 (get_address k))" for k
    by (simp add: reuse_begin(3) sys_world_def Let_def)
  have free: "free_address ?s 2" unfolding free_address_def refs
  proof
    assume "2 \<in> arc_ptr ` range (value_of ?s)"
    then obtain k where "arc_ptr (value_of ?s k) = 2" by auto
    then show False by (cases k) (auto simp: ptr split: if_splits)
  qed
  have step: "step default_config inc_prog (place 2 ?s) (ThreadStep 1) reuse_middle"
    by (rule step.thread [OF reuse_middle])
  have mid: "reuse_execution default_config inc_prog (demo_system inc_prog 2) [Committed 0 21] reuse_middle"
    using reuse_continue [OF start free step] by (simp only: reuse_begin(5) append_Nil2)
  have "arc_ptr a < 103" if "a \<in> refs reuse_middle" for a
    using reuse_step_refs [OF start free step] that by (fastforce simp: refs ptr)
  moreover have "run_above default_config inc_prog 103 (drop 17 inc_schedule) reuse_middle =
      Some ([Committed 1 22], snd reuse_end)"
    using reuse_end(1,2) by (metis prod.collapse)
  ultimately show ?thesis using run_above_reuses [OF _ mid] by fastforce
qed

theorem address_reuse_is_invisible_witness:
  "\<exists>t. execution default_config inc_prog (demo_system inc_prog 2) [Committed 0 21, Committed 1 22] t \<and>
     erase t = erase (snd reuse_end) \<and> value_of (snd reuse_end) (Block 2) = Arc 2 (Dyn 0 (22 :: int))"
  using address_reuse_is_invisible [OF reuse_end_execution] reuse_end(3) by blast

theorem reuse_serializable_witness:
  "serial_run inc_prog [Committed 0 21, Committed 1 22] (store sys_world) = Some (abs_store (snd reuse_end)) \<and>
   arc_ptr (mem sys_world (Block 2)) = 2 \<and> value_of (snd reuse_end) (Block 2) = Arc 2 (Dyn 0 (22 :: int))"
proof -
  have "or_free (inc_prog i)" for i by (simp add: inc_prog_def)
  with reuse_serializable [OF reuse_end_execution] reuse_end(3) show ?thesis by (simp add: sys_world_def)
qed

end
