(* ===== verification/Wakeups.thy ===== *)
theory Wakeups
  imports Histories
begin

text \<open>
  The invariant of the waiting threads.  A thread in \<open>wait_for_change\<close> whose flag is still set is
  registered at every variable it has compared, and the variable holds the value read, unless a thread
  that has committed another value is still to treat the waiting threads of the variable; or some
  thread has taken the registration from the variable and is about to clear the flag.
\<close>

section \<open>Registrations and wake-ups\<close>

fun wakes :: "'v thread_state \<Rightarrow> block list" where
  "wakes (Releasing v rv wv wr) = wr"
| "wakes (Writing v wv wr) = wr"
| "wakes (Waking v cs wr) = wr"
| "wakes _ = []"

fun waking :: "'v thread_state \<Rightarrow> nat list" where
  "waking (Waking v cs wr) = cs"
| "waking _ = []"

fun waiting_ctrl :: "'v thread_state \<Rightarrow> nat option" where
  "waiting_ctrl (Registering tx c es reads) = Some c"
| "waiting_ctrl (Comparing tx c k v es reads) = Some c"
| "waiting_ctrl (Parked tx c reads) = Some c"
| "waiting_ctrl _ = None"

text \<open>The values compared already, and the variable whose comparison is next.\<close>

fun compared :: "'v thread_state \<Rightarrow> (block \<times> 'v arc) list" where
  "compared (Registering tx c es reads) = reads"
| "compared (Comparing tx c k v es reads) = reads"
| "compared (Parked tx c reads) = reads"
| "compared _ = []"

fun comparing :: "'v thread_state \<Rightarrow> block option" where
  "comparing (Comparing tx c k v es reads) = Some k"
| "comparing _ = None"

definition registered :: "nat \<Rightarrow> block \<Rightarrow> 'v system \<Rightarrow> bool" where
  "registered c k s \<longleftrightarrow> c \<in> set (waiting_threads (blocks (shared s) k))"

definition will_wake :: "block \<Rightarrow> 'v system \<Rightarrow> bool" where
  "will_wake k s \<longleftrightarrow> (\<exists>i. k \<in> set (wakes (threads s i)))"

definition being_woken :: "nat \<Rightarrow> 'v system \<Rightarrow> bool" where
  "being_woken c s \<longleftrightarrow> (\<exists>i. c \<in> set (waking (threads s i)))"

lemma will_wakeI: "k \<in> set (wakes (threads s i)) \<Longrightarrow> will_wake k s"
  by (auto simp: will_wake_def)

lemma being_wokenI: "c \<in> set (waking (threads s i)) \<Longrightarrow> being_woken c s"
  by (auto simp: being_woken_def)

text \<open>The invariant for the variable \<open>k\<close> and one thread.\<close>

definition watches :: "block \<Rightarrow> 'v system \<Rightarrow> 'v thread_state \<Rightarrow> bool" where
  "watches k s st \<longleftrightarrow> (\<forall>c. waiting_ctrl st = Some c \<longrightarrow> c < next_ctrl (shared s) \<and>
     (ctrl_blocked c (shared s) \<longrightarrow>
       (\<forall>v. (k, v) \<in> set (compared st) \<longrightarrow>
         registered c k s \<and> (ptr_eq v (abs_mem s k) \<or> will_wake k s) \<or> being_woken c s) \<and>
       (comparing st = Some k \<longrightarrow> registered c k s \<or> being_woken c s)))"

lemma watches_idle: "waiting_ctrl st = None \<Longrightarrow> watches k s st"
  by (simp add: watches_def)

section \<open>What a step does to registrations\<close>

lemma body_ends_waiting:
  "waiting_threads (blocks (shared (body_ends cfg p i tx fs r s)) k) = waiting_threads (blocks (shared s) k)"
  "wakes (threads (body_ends cfg p i tx fs r s) i) = []" "waking (threads (body_ends cfg p i tx fs r s) i) = []"
  "ctrls (shared (body_ends cfg p i tx fs r s)) = ctrls (shared s) \<and>
     next_ctrl (shared (body_ends cfg p i tx fs r s)) = next_ctrl (shared s) \<or>
   ctrls (shared (body_ends cfg p i tx fs r s)) = (ctrls (shared s))(next_ctrl (shared s) \<mapsto> ControlBlock_new i) \<and>
     next_ctrl (shared (body_ends cfg p i tx fs r s)) = Suc (next_ctrl (shared s))"
  by (cases rule: body_ends_cases [of fs r]; simp add: Let_def restart_def)+

lemma running_step_waiting:
  assumes "thread_step cfg p i s = Some s'" and "threads s i = Running tx fs q"
  shows "waiting_threads (blocks (shared s') k) = waiting_threads (blocks (shared s) k)"
    and "ctrls (shared s') = ctrls (shared s) \<and> next_ctrl (shared s') = next_ctrl (shared s) \<or>
     ctrls (shared s') = (ctrls (shared s))(next_ctrl (shared s) \<mapsto> ControlBlock_new i) \<and>
       next_ctrl (shared s') = Suc (next_ctrl (shared s))" (is ?C)
proof -
  have "waiting_threads (blocks (shared s') k) = waiting_threads (blocks (shared s) k) \<and> ?C"
  proof -
    from assms have b: "body_step cfg p i tx fs q s = Some s'" by (simp add: thread_step_def)
    show ?thesis
    proof (cases q)
      case (Perform op k)
      with b have "body_step cfg p i tx fs (Perform op k) s = Some s'" by simp
      then show ?thesis
        by (cases rule: perform_cases) (simp_all add: allocatesD [OF op_body_allocates])
    next
      case (Return x)
      with b have "s' = body_ends cfg p i tx fs (Inr x) s" by simp
      with body_ends_waiting show ?thesis by metis
    next
      case (Raise e)
      with b have "s' = body_ends cfg p i tx fs (Inl e) s" by simp
      with body_ends_waiting show ?thesis by metis
    qed (use b in auto)
  qed
  then show "waiting_threads (blocks (shared s') k) = waiting_threads (blocks (shared s) k)" and ?C by simp_all
qed

lemma locking_step_waiting:
  assumes "thread_step cfg p i s = Some s'" and "threads s i = Locking v tx rs rv wv wr"
  shows "shared s' = shared s \<and> waking (threads s' i) = []"
proof (cases rs)
  case Nil
  with assms show ?thesis by (auto simp: thread_step_def)
next
  case (Cons r rs')
  obtain k l where r: "r = (k, l)" by (cases r)
  with assms Cons have "lock_step i v tx k l rs' rv wv wr s = Some s'" by (simp add: thread_step_def)
  then show ?thesis by (cases rule: lock_step_cases) simp_all
qed

lemmas step_split_simps = thread_step_def restart_def finish_def VarControlBlock_wait_def
  set_dead_count_def set_dead_cleanup_def ctrl_blocked_def Let_def

lemma next_ctrl_grows:
  assumes "thread_step cfg p i s = Some s'"
  shows "next_ctrl (shared s) \<le> next_ctrl (shared s')"
proof (cases "threads s i")
  case (Running tx fs q)
  from running_step_waiting(2) [OF assms this] show ?thesis by auto
next
  case (Locking v tx rs rv wv wr)
  from locking_step_waiting [OF assms this] show ?thesis by simp
qed (use assms in \<open>auto simp: step_split_simps split: list.splits if_splits\<close>)

text \<open>A flag once cleared stays cleared.\<close>

lemma blocked_before:
  assumes "thread_step cfg p i s = Some s'" and "c < next_ctrl (shared s)" and "ctrl_blocked c (shared s')"
  shows "ctrl_blocked c (shared s)"
proof (cases "threads s i")
  case (Running tx fs q)
  from running_step_waiting(2) [OF assms(1) this] assms(2,3) show ?thesis by (auto simp: ctrl_blocked_def)
next
  case (Locking v tx rs rv wv wr)
  from locking_step_waiting [OF assms(1) this] assms(3) show ?thesis by simp
qed (use assms in \<open>auto simp: step_split_simps split: list.splits if_splits option.splits\<close>)

text \<open>A registration is dropped only by a thread that takes it to wake the waiting thread up.\<close>

lemma registered_kept:
  assumes "thread_step cfg p i s = Some s'" and "registered c k s" and "ctrl_blocked c (shared s')"
  shows "registered c k s' \<or> being_woken c s'"
proof (cases "threads s i")
  case (Running tx fs q)
  from running_step_waiting(1) [OF assms(1) this] assms(2) show ?thesis by (simp add: registered_def)
next
  case (Locking v tx rs rv wv wr)
  from locking_step_waiting [OF assms(1) this] assms(2) show ?thesis by (simp add: registered_def)
next
  case (Waking v cs wr)
  show ?thesis
  proof (cases cs)
    case Nil
    show ?thesis
    proof (cases wr)
      case (Cons j wr')
      with assms(1) Waking Nil have s': "s' = set_thread i (Waking v (waiting_threads (blocks (shared s) j)) wr')
          (s\<lparr>shared := update_block j (\<lambda>b. b\<lparr>waiting_threads := []\<rparr>) (shared s)\<rparr>)"
        by (simp add: thread_step_def)
      have "waking (threads s' i) = waiting_threads (blocks (shared s) j)" by (simp add: s')
      with assms(2) show ?thesis
        by (cases "k = j") (metis being_woken_def registered_def, simp add: s' registered_def)
    qed (use assms Waking Nil in \<open>auto simp: thread_step_defs registered_def\<close>)
  qed (use assms Waking in \<open>auto simp: thread_step_defs registered_def\<close>)
qed (use assms in \<open>auto simp: step_split_simps registered_def split: list.splits if_splits option.splits\<close>)

lemma being_woken_kept:
  assumes "thread_step cfg p i s = Some s'" and "being_woken c s" and "ctrl_blocked c (shared s')"
  shows "being_woken c s'"
proof -
  from assms(2) obtain j where j: "c \<in> set (waking (threads s j))" by (auto simp: being_woken_def)
  show ?thesis
  proof (cases "j = i")
    case False
    with j thread_step_others [OF assms(1), of j] show ?thesis by (intro being_wokenI [of _ _ j]) simp
  next
    case True
    then obtain v cs wr where st: "threads s i = Waking v cs wr" "c \<in> set cs"
      using j by (cases "threads s i") auto
    then obtain d cs' where cs: "cs = d # cs'" by (cases cs) auto
    with assms(1) st have s': "s' = set_thread i (Waking v cs' wr) (s\<lparr>shared := ControlBlock_set_changed d (shared s)\<rparr>)"
      by (simp add: thread_step_def)
    then have "c \<noteq> d" using assms(3) by auto
    with st(2) cs have "c \<in> set (waking (threads s' i))" by (simp add: s')
    then show ?thesis by (rule being_wokenI)
  qed
qed

lemma will_wake_kept:
  assumes "thread_step cfg p i s = Some s'" and "wait_on_retry cfg" and "will_wake k s" and "registered c k s"
  shows "will_wake k s' \<or> being_woken c s'"
proof -
  from assms(3) obtain j where j: "k \<in> set (wakes (threads s j))" by (auto simp: will_wake_def)
  show ?thesis
  proof (cases "j = i")
    case False
    with j thread_step_others [OF assms(1), of j] have "will_wake k s'" by (intro will_wakeI [of _ _ j]) simp
    then show ?thesis by simp
  next
    case True
    then have "k \<in> set (wakes (threads s' i)) \<or> c \<in> set (waking (threads s' i))"
      using j assms by (cases "threads s i")
        (auto simp: thread_step_defs finish_def registered_def split: list.splits if_splits)
    then show ?thesis using will_wakeI being_wokenI by metis
  qed
qed

text \<open>A thread that commits another value is going to treat the waiting threads of the variable.\<close>

lemma abs_mem_changed:
  assumes reach: "reachable cfg p s" and step: "thread_step cfg p i s = Some s'" and "abs_mem s' k \<noteq> abs_mem s k"
  shows "will_wake k s'"
proof -
  have "commits s i" using abs_mem_other_step [OF reach step] assms(3) by blast
  then obtain v tx rv wv wr where st: "threads s i = Locking v tx [] rv wv wr" by (auto simp: commits_def)
  note cp = commit_point [OF reach st step]
  have "log_writes (vars tx) k \<noteq> None" using cp(3) [of k] assms(3) by (auto split: option.splits)
  then have "k \<in> fst ` set (written_pairs (reg_records cfg (vars tx)))"
    using written_pairs_records(3) [OF cp(1)] by simp
  moreover have "wr = map fst (written_pairs (reg_records cfg (vars tx)))"
    using reachable_wf [OF reach, of i] st by auto
  ultimately have "k \<in> set (wakes (threads s' i))" using cp(4) by auto
  then show ?thesis by (rule will_wakeI)
qed

section \<open>The invariant\<close>

lemma watches_kept:
  assumes reach: "reachable cfg p s" and step: "thread_step cfg p i s = Some s'" and wait: "wait_on_retry cfg"
    and "watches k s st"
  shows "watches k s' st"
  unfolding watches_def
proof (intro allI impI conjI)
  fix c
  assume c: "waiting_ctrl st = Some c"
  with assms(4) have less: "c < next_ctrl (shared s)" by (simp add: watches_def)
  with next_ctrl_grows [OF step] show "c < next_ctrl (shared s')" by simp
  assume b': "ctrl_blocked c (shared s')"
  note b = blocked_before [OF step less b']
  show "registered c k s' \<or> being_woken c s'" if "comparing st = Some k"
    using assms(4) c b that registered_kept [OF step _ b'] being_woken_kept [OF step _ b']
    by (auto simp: watches_def)
  fix v
  assume "(k, v) \<in> set (compared st)"
  with assms(4) c b consider (reg) "registered c k s" "ptr_eq v (abs_mem s k) \<or> will_wake k s"
    | (woken) "being_woken c s" by (auto simp: watches_def)
  then show "registered c k s' \<and> (ptr_eq v (abs_mem s' k) \<or> will_wake k s') \<or> being_woken c s'"
  proof cases
    case reg
    then show ?thesis
      using registered_kept [OF step reg(1) b'] will_wake_kept [OF step wait _ reg(1)]
        abs_mem_changed [OF reach step, of k] by metis
  next
    case woken
    with being_woken_kept [OF step woken b'] show ?thesis by simp
  qed
qed

lemma watches_step:
  assumes reach: "reachable cfg p s" and step: "thread_step cfg p i s = Some s'" and wait: "wait_on_retry cfg"
    and "watches k s (threads s i)"
  shows "watches k s' (threads s' i)"
proof (cases "waiting_ctrl (threads s' i)")
  case None
  then show ?thesis by (rule watches_idle)
next
  case (Some c)
  note kept = watches_kept [OF reach step wait assms(4)]
  show ?thesis
  proof (cases "threads s i")
    case (Running tx fs q)
    then have "compared (threads s' i) = [] \<and> comparing (threads s' i) = None \<and> c < next_ctrl (shared s')"
    proof -
      from step Running have b: "body_step cfg p i tx fs q s = Some s'" by (simp add: thread_step_def)
      have ends: "compared (threads (body_ends cfg p i tx fs r s) i) = [] \<and>
          comparing (threads (body_ends cfg p i tx fs r s) i) = None \<and>
          (waiting_ctrl (threads (body_ends cfg p i tx fs r s) i) = Some c \<longrightarrow>
            c < next_ctrl (shared (body_ends cfg p i tx fs r s)))" for r
        by (cases rule: body_ends_cases [of fs r]) (auto simp: Let_def restart_def)
      show ?thesis
      proof (cases q)
        case (Perform op k)
        with b have "body_step cfg p i tx fs (Perform op k) s = Some s'" by simp
        then show ?thesis using Some by (cases rule: perform_cases) simp_all
      next
        case (Return x)
        with b have "s' = body_ends cfg p i tx fs (Inr x) s" by simp
        with ends [of "Inr x"] Some show ?thesis by simp
      next
        case (Raise e)
        with b have "s' = body_ends cfg p i tx fs (Inl e) s" by simp
        with ends [of "Inl e"] Some show ?thesis by simp
      qed (use b Some in auto)
    qed
    with Some show ?thesis by (simp add: watches_def)
  next
    case (Locking v tx rs rv wv wr)
    show ?thesis
    proof (cases rs)
      case Nil
      with step Locking Some show ?thesis by (auto simp: thread_step_def)
    next
      case (Cons r rs')
      obtain k l where r: "r = (k, l)" by (cases r)
      with step Locking Cons have "lock_step i v tx k l rs' rv wv wr s = Some s'" by (simp add: thread_step_def)
      then show ?thesis using Some by (cases rule: lock_step_cases) simp_all
    qed
  next
    case (Registering tx c' es reads)
    show ?thesis
    proof (cases es)
      case Nil
      with step Registering kept show ?thesis by (auto simp: thread_step_def watches_def)
    next
      case (Cons e es')
      obtain j v where e: "e = (j, v)" by (cases e)
      with step Registering Cons have s': "s' = set_thread i (Comparing tx c' j v es' reads)
          (s\<lparr>shared := VarControlBlock_wait j c' (shared s)\<rparr>)"
        by (simp add: thread_step_def)
      have "registered c' j s'" by (simp add: s' registered_def VarControlBlock_wait_def)
      moreover have "threads s' i = Comparing tx c' j v es' reads" by (simp add: s')
      ultimately show ?thesis using kept Registering by (auto simp: watches_def)
    qed
  next
    case (Comparing tx c' j v es reads)
    show ?thesis
    proof (cases "ptr_eq v (value_of s j)")
      case False
      with step Comparing Some show ?thesis by (auto simp: thread_step_def split: if_splits)
    next
      case True
      with step Comparing have s': "s' = set_thread i (Registering tx c' es (reads @ [(j, v)])) s" "can_read j s"
        by (auto simp: thread_step_def split: if_splits)
      have "pending_value s j = None" using s'(2) by (simp add: pending_value_def can_read_def)
      then have "abs_mem s j = value_of s j" by (simp add: abs_mem_def)
      with abs_mem_changed [OF reach step, of j] True have "ptr_eq v (abs_mem s' j) \<or> will_wake j s'" by metis
      moreover have "threads s' i = Registering tx c' es (reads @ [(j, v)])" by (simp add: s')
      ultimately show ?thesis using kept Comparing by (auto simp: watches_def)
    qed
  next
    case (Parked tx c' reads)
    with step Some show ?thesis by (auto simp: thread_step_def split: if_splits)
  qed (use step Some in \<open>auto simp: thread_step_defs restart_def finish_def split: list.splits if_splits\<close>)
qed

text \<open>The invariant holds for the variables that nobody changes with \<open>write_atomic\<close>.\<close>

lemma execution_watches:
  assumes "execution cfg p s0 h s" and "wait_on_retry cfg"
    and "\<And>var v. Stored var v \<in> set h \<Longrightarrow> control_block_of var \<noteq> k"
  shows "watches k s (threads s i)"
  using assms(1,3)
proof (induction arbitrary: i rule: execution.induct)
  case at_start
  then show ?case
    by (cases rule: initial_threads [where i = i]) (simp_all add: watches_idle)
next
  case (continue h s l s')
  note reach = execution_reachable [OF continue(1)]
  have IH: "watches k s (threads s i)" for i by (rule continue.IH) (use continue.prems in auto)
  from continue(2) show ?case
  proof (cases rule: step.cases)
    case (thread j)
    show ?thesis
    proof (cases "i = j")
      case True
      with watches_step [OF reach thread(2) assms(2) IH] show ?thesis by simp
    next
      case False
      with watches_kept [OF reach thread(2) assms(2) IH] thread_step_others [OF thread(2)] show ?thesis by simp
    qed
  next
    case (give_up j tx e)
    then have idle: "wakes (threads s j) = []" "waking (threads s j) = []" by simp_all
    have "will_wake k s' = will_wake k s" "being_woken c s' = being_woken c s" for c
      using idle by (force simp: give_up(2) will_wake_def being_woken_def)+
    then show ?thesis
      using IH [of i] give_up by (cases "i = j") (simp_all add: watches_def registered_def abs_mem_idle)
  next
    case (atomic var v)
    then have "control_block_of var \<noteq> k" using continue.prems [of var v] by simp
    then have "abs_mem s' k = abs_mem s k" by (simp add: atomic(2) abs_mem_write_atomic [OF atomic(3)])
    moreover have "registered c k s' = registered c k s" "being_woken c s' = being_woken c s"
      "will_wake k s' = will_wake k s" "ctrl_blocked c (shared s') = ctrl_blocked c (shared s)"
      "next_ctrl (shared s') = next_ctrl (shared s)" "threads s' = threads s" for c
      by (simp_all add: atomic(2) registered_def will_wake_def being_woken_def ctrl_blocked_def
          TVar_write_atomic_def Arc_new_def)
    ultimately show ?thesis using IH [of i] by (simp add: watches_def)
  qed
qed

end
