(* ===== verification/Wakeup_Properties.thy ===== *)
theory Wakeup_Properties
  imports Wakeups Serializability_Properties
begin

text \<open>
  No lost wake-ups: when no thread can move any more, the variables at which a parked thread has
  registered hold what it has read there, and its transaction, if it has no \<open>or\<close>, would retry again.
\<close>

section \<open>Why a transaction retried\<close>

text \<open>A log whose entries are all checked by the commit.\<close>

definition all_checked :: "'v arc register \<Rightarrow> bool" where
  "all_checked r \<longleftrightarrow> (\<forall>k l. map_of r k = Some l \<longrightarrow> LogVar_checked l = LogVar_into_read_value l)"

lemma all_checked_set:
  "reg_wf cfg r \<Longrightarrow> all_checked r \<Longrightarrow> LogVar_checked l = LogVar_into_read_value l \<Longrightarrow> all_checked (reg_set cfg k l r)"
  by (auto simp: all_checked_def)

lemma all_checked_op:
  assumes "reg_wf cfg (vars tx)" and "all_checked (vars tx)" and "op_body cfg b tx w = (Inr (r, tx'), w')"
  shows "all_checked (vars tx')"
proof (cases b)
  case (WriteOp var v)
  let ?a = "Arc (next_arc w) (Dyn (marker var) v)"
  let ?l = "case map_of (vars tx) (control_block_of var) of Some l \<Rightarrow> LogVar_write ?a l | None \<Rightarrow> Write ?a"
  have "LogVar_checked ?l = LogVar_into_read_value ?l"
    using assms(2) by (auto simp: all_checked_def split: option.split)
  moreover have "vars tx' = reg_set cfg (control_block_of var) ?l (vars tx)"
    using assms(3) WriteOp by (auto simp: TVar_ops and_then_def lift_result_def Transaction_write_eq Let_def)
  ultimately show ?thesis using assms(1,2) by (simp add: all_checked_set)
qed (use assms in \<open>auto simp: TVar_ops and_then_def lift_result_def op_eqs Let_def
      intro!: all_checked_set split: if_splits sum.splits\<close>)

text \<open>The outcome of the rest of the run is that of the whole program, unless a conflict was found.\<close>

definition resumes :: "'v prog \<Rightarrow> 'v arc register \<Rightarrow> 'v prog \<Rightarrow> bool" where
  "resumes root r q \<longleftrightarrow> q = Raise Failure \<or> (\<forall>s. agrees s r \<longrightarrow> spec root s = spec q (overlay s r))"

text \<open>The program retries on every store with the given values.\<close>

definition retries_on :: "'v prog \<Rightarrow> (block \<times> 'v arc) list \<Rightarrow> bool" where
  "retries_on root reads \<longleftrightarrow>
     (\<forall>s. (\<forall>(k, v) \<in> set reads. s k = payload (arc_dyn v)) \<longrightarrow> spec root s = Inl Retry)"

fun thread_retries :: "'v prog \<Rightarrow> 'v thread_state \<Rightarrow> bool" where
  "thread_retries root (Running tx fs q) \<longleftrightarrow>
     fs = [] \<and> or_free q \<and> all_checked (vars tx) \<and> resumes root (vars tx) q"
| "thread_retries root (Registering tx c es reads) \<longleftrightarrow> retries_on root (reads @ es)"
| "thread_retries root (Comparing tx c k v es reads) \<longleftrightarrow> retries_on root (reads @ (k, v) # es)"
| "thread_retries root (Parked tx c reads) \<longleftrightarrow> retries_on root reads"
| "thread_retries root _ \<longleftrightarrow> True"

lemma op_spec_total: "\<exists>r s'. op_spec b s = Inr (r, s')"
  by (cases b) simp_all

lemma op_error: "op_body cfg b tx w = (Inr (Inl e, tx'), w') \<Longrightarrow> e = Failure"
  by (cases b) (auto simp: TVar_ops and_then_def lift_result_def op_eqs Let_def split: if_splits sum.splits)

lemma thread_retries_restart: "or_free (p i) \<Longrightarrow> thread_retries (p i) (restart p i tx)"
  by (simp add: restart_def Transaction_clear_def all_checked_def resumes_def)

lemma retry_registers:
  assumes "reg_wf cfg r" and "all_checked r" and "resumes root r (Raise Retry)"
  shows "retries_on root (read_values r)"
  unfolding retries_on_def
proof (intro allI impI)
  fix s
  assume vals: "\<forall>(k, v) \<in> set (read_values r). s k = payload (arc_dyn v)"
  have "agrees s r"
    unfolding agrees_def
  proof (intro allI impI)
    fix k l u
    assume "map_of r k = Some l" and "LogVar_checked l = Some u"
    then have "(k, u) \<in> set (read_values r)"
      using assms(2) by (metis all_checked_def map_of_SomeD set_read_values)
    with vals show "s k = payload (arc_dyn u)" by auto
  qed
  with assms(3) show "spec root s = Inl Retry" by (simp add: resumes_def s_result_def)
qed

lemma thread_retries_step:
  assumes step: "thread_step cfg p i s = Some s'" and wf: "wf_thread cfg (threads s i)"
    and free: "or_free (p i)" and call: "\<And>P. calls s i \<noteq> WithErr P"
    and inv: "thread_retries (p i) (threads s i)"
  shows "thread_retries (p i) (threads s' i)"
proof (cases "threads s i")
  case (Running tx fs q)
  with assms have b: "body_step cfg p i tx fs q s = Some s'" and reg: "reg_wf cfg (vars tx)" and fs: "fs = []"
    and q: "or_free q" "all_checked (vars tx)" "resumes (p i) (vars tx) q"
    by (simp_all add: thread_step_def)
  show ?thesis
  proof (cases q)
    case (Perform op k)
    with b have "body_step cfg p i tx fs (Perform op k) s = Some s'" by simp
    then show ?thesis
    proof (cases rule: perform_cases)
      case (error e tx' w)
      with op_error [OF error(1)] all_checked_op [OF reg q(2) error(1)] fs show ?thesis
        by (simp add: resumes_def)
    next
      case (ok r tx' w)
      have "resumes (p i) (vars tx') (k r)"
        using q(3) replay_op [OF reg ok(1)] Perform by (auto simp: resumes_def s_then_def)
      with ok all_checked_op [OF reg q(2) ok(1)] fs q(1) Perform show ?thesis by simp
    qed (use fs in simp)
  next
    case (Raise e)
    with b fs have s': "s' = body_ends cfg p i tx [] (Inl e) s" by simp
    show ?thesis
    proof (cases "waits_after cfg (calls s i) e")
      case True
      then have "e = Retry" using call by (cases "calls s i") auto
      with retry_registers [OF reg q(2)] q(3) Raise True show ?thesis by (simp add: s' Let_def)
    next
      case False
      with thread_retries_restart [where p = p and i = i] free show ?thesis by (auto simp: s')
    qed
  qed (use b q fs in auto)
next
  case (Locking v tx rs rv wv wr)
  show ?thesis
  proof (cases rs)
    case Nil
    with step Locking show ?thesis by (auto simp: thread_step_def)
  next
    case (Cons r rs')
    obtain k l where r: "r = (k, l)" by (cases r)
    with step Locking Cons have "lock_step i v tx k l rs' rv wv wr s = Some s'" by (simp add: thread_step_def)
    then show ?thesis by (cases rule: lock_step_cases) auto
  qed
qed (use step inv thread_retries_restart [of p i, OF free] in
    \<open>auto simp: thread_step_defs finish_def split: list.splits if_splits\<close>)

lemma reachable_retries:
  assumes "reachable cfg p s" and "or_free (p i)" and "\<And>P. calls s i \<noteq> WithErr P"
  shows "thread_retries (p i) (threads s i)"
  using assms(1,3)
proof (induction rule: reachable.induct)
  case (start s)
  then show ?case
    by (cases rule: initial_threads [where i = i]) (simp_all add: assms(2) all_checked_def resumes_def)
next
  case (steps s l s')
  from steps(2) show ?case
  proof (cases rule: step.cases)
    case (thread j)
    show ?thesis
    proof (cases "j = i")
      case True
      with thread_retries_step [OF thread(2) reachable_wf [OF steps(1)]] assms(2) steps.IH steps.prems
        thread_step_calls [OF thread(2)]
      show ?thesis by simp
    next
      case False
      with thread_step_others [OF thread(2), of i] thread_step_calls [OF thread(2)] steps show ?thesis by simp
    qed
  next
    case (give_up j tx e)
    with steps show ?thesis by simp
  next
    case (atomic var v)
    with steps.IH steps.prems show ?thesis by simp
  qed
qed

section \<open>No lost wake-ups\<close>

text \<open>If no thread has a step, nobody is about to wake a waiting thread up.\<close>

lemma quiet_reads_current:
  assumes exec: "execution cfg p s0 h s" and wait: "wait_on_retry cfg"
    and quiet: "\<And>i. thread_step cfg p i s = None"
    and parked: "threads s j = Parked tx c reads"
    and "(k, v) \<in> set reads" and "\<And>var x. Stored var x \<in> set h \<Longrightarrow> control_block_of var \<noteq> k"
  shows "value_of s k = v"
proof -
  note reach = execution_reachable [OF exec]
  have idle: "wakes (threads s i) = [] \<and> waking (threads s i) = [] \<and> pending (threads s i) = (\<lambda>_. None)" for i
    using quiet_threads [OF reach quiet, of i] by (elim disjE exE conjE) simp_all
  have "abs_mem s k = value_of s k"
    using idle by (auto simp: abs_mem_def pending_value_def split: option.split)
  moreover have "\<not> will_wake k s" "\<not> being_woken c s" using idle by (simp_all add: will_wake_def being_woken_def)
  moreover have "ctrl_blocked c (shared s)" using quiet [of j] parked by (simp add: thread_step_def split: if_splits)
  moreover have "watches k s (threads s j)" by (rule execution_watches [OF exec wait assms(6)])
  ultimately have "ptr_eq v (value_of s k)" using assms(5) parked by (auto simp: watches_def)
  moreover have "v \<in> arcs s" using assms(5) parked by (intro thread_in_arcs [of _ _ j]) force
  ultimately have "v = value_of s k" using coherent_ptr_eq [OF reachable_coherent [OF reach]] by simp
  then show ?thesis by simp
qed

text \<open>C5: no wake-up is lost: when no thread can move any more, every variable at which a parked thread
  has registered holds the value with which it is in the log of the thread, except where \<open>write_atomic\<close>
  changed it.  A thread registers at all variables of its log that have a read value; those that a first
  alternative of \<open>or\<close> has read and the second one has only written are not among them (\<open>or_loses_wait\<close>).  So as
  long as a commit has changed a variable at which a parked thread has registered, some thread has a step.\<close>

theorem no_lost_wakeup:
  assumes "execution cfg p s0 h s" and "wait_on_retry cfg"
    and "\<And>i. thread_step cfg p i s = None"
    and "threads s j = Parked tx c reads"
    and "(k, v) \<in> set reads" and "\<And>var x. Stored var x \<in> set h \<Longrightarrow> control_block_of var \<noteq> k"
  shows "value_of s k = v"
  by (rule quiet_reads_current [OF assms])

lemma parked_retries:
  assumes "execution cfg p s0 h s" and "wait_on_retry cfg"
    and "\<And>i. thread_step cfg p i s = None"
    and "or_free (p j)" and "\<And>var x. Stored var x \<notin> set h"
    and "threads s j = Parked tx c reads" and "\<And>P. calls s j \<noteq> WithErr P"
  shows "spec (p j) (store (shared s)) = Inl Retry"
proof -
  have "retries_on (p j) reads"
    using reachable_retries [OF execution_reachable [OF assms(1)] assms(4,7)] assms(6) by (metis thread_retries.simps(4))
  moreover have "store (shared s) k = payload (arc_dyn v)" if "(k, v) \<in> set reads" for k v
    using quiet_reads_current [OF assms(1-3,6) that] assms(5) by (simp add: store_def)
  ultimately show ?thesis by (auto simp: retries_on_def)
qed

text \<open>C4: a thread stays parked only as long as its transaction would block: with the feature
  \<open>wait-on-retry\<close>, when no thread can move any more and nobody has ever called \<open>write_atomic\<close>, the
  transaction of every parked thread whose program has no \<open>or\<close> and which has not called \<open>with_err\<close> retries
  when it is run on the values that the variables hold.\<close>

theorem parked_would_retry:
  assumes "execution cfg p s0 h s" and "wait_on_retry cfg"
    and "\<And>i. thread_step cfg p i s = None"
    and "or_free (p j)" and "\<And>var x. Stored var x \<notin> set h"
    and "threads s j = Parked tx c reads" and "\<And>P. calls s j \<noteq> WithErr P"
  shows "spec (p j) (store (shared s)) = Inl Retry"
  by (rule parked_retries [OF assms])

lemma parked_execution: "execution default_config retry_prog (demo_system retry_prog 1) [] parked_system"
proof -
  have "run_history default_config retry_prog [0, 0, 0, 0, 0] (demo_system retry_prog 1) = Some ([], parked_system)"
    by (simp add: parked_system_def retry_prog_def run_defs read_values_def List.map_filter_def
        VarControlBlock_wait_def)
  from run_history_execution [OF this execution.at_start [OF initial_demo]] show ?thesis by simp
qed

lemma parked_quiet: "thread_step default_config retry_prog i parked_system = None"
  by (simp add: thread_step_def parked_system_run(2,3))

theorem no_lost_wakeup_witness: "value_of parked_system (Block 2) = Arc 2 (Dyn 0 20)"
  by (rule no_lost_wakeup [OF parked_execution _ parked_quiet parked_system_run(2) [of 0, simplified]]) simp_all

theorem parked_would_retry_witness: "spec (retry_prog 0) (store (shared parked_system)) = Inl Retry"
  by (rule parked_would_retry [OF parked_execution _ parked_quiet _ _ parked_system_run(2) [of 0, simplified]])
    (simp_all add: retry_prog_def parked_system_calls)

end
