(* ===== verification/Solo_Runs.thy ===== *)
theory Solo_Runs
  imports Wakeups
begin

text \<open>
  A thread that runs alone.  When no other thread holds a lock, nothing can stop a transaction: its
  body runs like \<open>exec\<close>, its commit takes every lock, and from the commit point on it does not need
  any lock.  The same steps are those of the sequential model, so this is the bridge between the two.
\<close>

section \<open>Runs of one thread\<close>

definition solo :: "config \<Rightarrow> (nat \<Rightarrow> 'v prog) \<Rightarrow> nat \<Rightarrow> 'v system \<Rightarrow> 'v system \<Rightarrow> bool" where
  "solo cfg p i s s' \<longleftrightarrow> (\<exists>n. run_schedule cfg p (replicate n i) s = Some s')"

lemma solo_refl [simp]: "solo cfg p i s s"
  unfolding solo_def by (rule exI [of _ 0]) simp

lemma solo_first: "thread_step cfg p i s = Some s1 \<Longrightarrow> solo cfg p i s1 s' \<Longrightarrow> solo cfg p i s s'"
  unfolding solo_def
proof (elim exE)
  fix n
  assume "thread_step cfg p i s = Some s1" and "run_schedule cfg p (replicate n i) s1 = Some s'"
  then show "\<exists>n. run_schedule cfg p (replicate n i) s = Some s'"
    by (intro exI [of _ "Suc n"]) simp
qed

lemma solo_step: "thread_step cfg p i s = Some s' \<Longrightarrow> solo cfg p i s s'"
  by (erule solo_first) simp

lemma solo_trans: "solo cfg p i s s1 \<Longrightarrow> solo cfg p i s1 s2 \<Longrightarrow> solo cfg p i s s2"
proof -
  assume "solo cfg p i s s1" and 2: "solo cfg p i s1 s2"
  then obtain n where "run_schedule cfg p (replicate n i) s = Some s1" by (auto simp: solo_def)
  then show "solo cfg p i s s2"
    using 2 by (induction n arbitrary: s) (auto intro: solo_first split: option.splits)
qed

lemma solo_induct [consumes 1, case_names refl step]:
  assumes "solo cfg p i s s'" and "P s"
    and "\<And>s1 s2. solo cfg p i s s1 \<Longrightarrow> P s1 \<Longrightarrow> thread_step cfg p i s1 = Some s2 \<Longrightarrow> P s2"
  shows "P s'"
proof -
  from assms(1) obtain n where n: "run_schedule cfg p (replicate n i) s = Some s'" by (auto simp: solo_def)
  have "P t" if "run_schedule cfg p (replicate n i) s1 = Some t" "solo cfg p i s s1" "P s1" for s1 t
    using that
  proof (induction n arbitrary: s1)
    case (Suc n)
    then obtain s2 where step: "thread_step cfg p i s1 = Some s2" "run_schedule cfg p (replicate n i) s2 = Some t"
      by (auto split: option.splits)
    then show ?case
      using Suc.IH [OF step(2)] solo_trans [OF Suc.prems(2) solo_step] assms(3) Suc.prems(2,3) by blast
  qed simp
  from this [OF n] assms(2) show ?thesis by simp
qed

lemma solo_reachable: "solo cfg p i s s' \<Longrightarrow> reachable cfg p s \<Longrightarrow> reachable cfg p s'"
  by (auto simp: solo_def intro: run_schedule_reachable)

lemma solo_others: "solo cfg p i s s' \<Longrightarrow> j \<noteq> i \<Longrightarrow> threads s' j = threads s j"
  by (induction rule: solo_induct) (auto dest: thread_step_others)

section \<open>The body\<close>

abbreviation outcome :: "stm_error + 'v \<Rightarrow> 'v prog" where
  "outcome r \<equiv> (case r of Inl e \<Rightarrow> Raise e | Inr v \<Rightarrow> Return v)"

text \<open>The state in which thread \<open>i\<close> goes on with \<open>st\<close> in the world \<open>w\<close>.\<close>

definition resume :: "nat \<Rightarrow> 'v thread_state \<Rightarrow> 'v world \<Rightarrow> 'v system \<Rightarrow> 'v system" where
  "resume i st w s = set_thread i st (s\<lparr>shared := w\<rparr>)"

lemma resume_simps [simp]:
  "resume i st w (resume i st' w' s) = resume i st w s"
  "shared (resume i st w s) = w" "threads (resume i st w s) = (threads s)(i := st)"
  "writer (resume i st w s) = writer s" "readers (resume i st w s) = readers s" "calls (resume i st w s) = calls s"
  by (simp_all add: resume_def)

lemma resume_self: "threads s i = st \<Longrightarrow> shared s = w \<Longrightarrow> resume i st w s = s"
  by (auto simp: resume_def fun_upd_idem)

text \<open>Without writers, the steps of the body are those of \<open>exec\<close>.\<close>

lemma exec_steps:
  assumes "exec cfg q tx (shared s) = (Inr (r, tx'), w')" and "threads s i = Running tx fs q"
    and "\<And>k. writer s k = None"
  shows "solo cfg p i s (resume i (Running tx' fs (outcome r)) w' s)"
  using assms
proof (induction q arbitrary: tx fs s r tx' w')
  case (Return v)
  from Return.prems(1) have "r = Inr v" "tx' = tx" "w' = shared s" by (auto simp: lift_result_def)
  with Return.prems(2) have "resume i (Running tx' fs (outcome r)) w' s = s"
    by (intro resume_self) simp_all
  then show ?case by (simp only: solo_refl)
next
  case (Raise e)
  from Raise.prems(1) have "r = Inl e" "tx' = tx" "w' = shared s" by (auto simp: lift_result_def)
  with Raise.prems(2) have "resume i (Running tx' fs (outcome r)) w' s = s"
    by (intro resume_self) simp_all
  then show ?case by (simp only: solo_refl)
next
  case (Perform b k)
  have free: "can_read (op_key b) s" using Perform.prems(3) by (simp add: can_read_def)
  from Perform.prems(1) consider
      (error) e tx1 w1 where "op_body cfg b tx (shared s) = (Inr (Inl e, tx1), w1)" "r = Inl e" "tx' = tx1" "w' = w1"
    | (ok) a tx1 w1 where "op_body cfg b tx (shared s) = (Inr (Inr a, tx1), w1)"
        "exec cfg (k a) tx1 w1 = (Inr (r, tx'), w')"
    by (auto simp: and_then_def split: prod.splits sum.splits)
  then show ?case
  proof cases
    case error
    with Perform.prems(2) free show ?thesis by (intro solo_step) (simp add: thread_step_def resume_def)
  next
    case ok
    let ?s1 = "resume i (Running tx1 fs (k a)) w1 s"
    have "thread_step cfg p i s = Some ?s1"
      using ok(1) Perform.prems(2) free by (simp add: thread_step_def resume_def)
    moreover have "solo cfg p i ?s1 (resume i (Running tx' fs (outcome r)) w' ?s1)"
      by (rule Perform.IH) (use ok Perform.prems(3) in auto)
    ultimately show ?thesis by (simp add: solo_first)
  qed
next
  case (OrElse q1 q2 k)
  let ?s1 = "resume i (Running tx (InFirst (vars tx) q2 k # fs) q1) (shared s) s"
  have start: "thread_step cfg p i s = Some ?s1" using OrElse.prems(2) by (simp add: thread_step_def resume_def)
  from OrElse.prems(1) obtain r1 tx1 w1 where 1: "exec cfg q1 tx (shared s) = (Inr (r1, tx1), w1)"
    by (cases "exec cfg q1 tx (shared s)")
      (auto simp: and_then_def Transaction_or_def split: sum.splits)
  let ?s2 = "resume i (Running tx1 (InFirst (vars tx) q2 k # fs) (outcome r1)) w1 ?s1"
  have first: "solo cfg p i s ?s2"
  proof (rule solo_first [OF start])
    show "solo cfg p i ?s1 ?s2"
      by (rule OrElse.IH(1)) (use 1 OrElse.prems(3) in simp_all)
  qed
  have rest: "solo cfg p i t (resume i (Running tx' fs (outcome r)) w' t)"
    if "threads t i = Running tx3 fs (k v)" "exec cfg (k v) tx3 (shared t) = (Inr (r, tx'), w')" "\<And>k. writer t k = None"
    for t tx3 v
    by (rule OrElse.IH(3)) (use that in auto)
  show ?case
  proof (cases "r1 = Inl Retry")
    case False
    with 1 have or: "Transaction_or cfg (exec cfg q1) (exec cfg q2) tx (shared s) = (Inr (r1, tx1), w1)"
      by (intro Transaction_or_first) simp_all
    show ?thesis
    proof (cases r1)
      case (Inl e)
      with or OrElse.prems(1) have "r = Inl e" "tx' = tx1" "w' = w1" by (simp_all add: and_then_def)
      moreover have "solo cfg p i ?s2 (resume i (Running tx1 fs (Raise e)) w1 s)"
        using Inl False by (intro solo_step) (simp add: thread_step_def resume_def)
      ultimately show ?thesis using solo_trans [OF first] by simp
    next
      case (Inr v)
      let ?s3 = "resume i (Running tx1 fs (k v)) w1 s"
      have "solo cfg p i ?s2 ?s3" using Inr by (intro solo_step) (simp add: thread_step_def resume_def)
      moreover have "exec cfg (k v) tx1 w1 = (Inr (r, tx'), w')"
        using OrElse.prems(1) or Inr by (simp add: and_then_def)
      then have "solo cfg p i ?s3 (resume i (Running tx' fs (outcome r)) w' ?s3)"
        using OrElse.prems(3) by (intro rest) simp_all
      ultimately show ?thesis using solo_trans [OF solo_trans [OF first]] by simp
    qed
  next
    case True
    let ?tx = "tx1\<lparr>vars := vars tx\<rparr>"
    let ?s3 = "resume i (Running ?tx (InSecond (vars tx1) k # fs) q2) w1 s"
    have swap: "solo cfg p i ?s2 ?s3" using True by (intro solo_step) (simp add: thread_step_def resume_def)
    obtain r2 tx2 w2 where 2: "exec cfg q2 ?tx w1 = (Inr (r2, tx2), w2)"
      using OrElse.prems(1) 1 True
      by (cases "exec cfg q2 ?tx w1")
        (auto simp: and_then_def Transaction_or_Retry [where first = "exec cfg q1"] split: sum.splits)
    let ?tx2 = "if r2 = Inl Failure then tx2 else Transaction_combine cfg (vars tx1) tx2"
    from 1 2 True have or: "Transaction_or cfg (exec cfg q1) (exec cfg q2) tx (shared s) = (Inr (r2, ?tx2), w2)"
      by (simp add: Transaction_or_Retry [where first = "exec cfg q1"])
    let ?s4 = "resume i (Running tx2 (InSecond (vars tx1) k # fs) (outcome r2)) w2 ?s3"
    have "solo cfg p i ?s3 ?s4"
      by (rule OrElse.IH(2)) (use 2 OrElse.prems(3) in simp_all)
    then have second: "solo cfg p i s ?s4" using first swap solo_trans by blast
    show ?thesis
    proof (cases r2)
      case (Inl e)
      with or OrElse.prems(1) have "r = Inl e" "tx' = ?tx2" "w' = w2"
        by (cases "e = Failure"; auto simp: and_then_def)+
      moreover have "solo cfg p i ?s4 (resume i (Running ?tx2 fs (Raise e)) w2 s)"
        using Inl by (intro solo_step) (simp add: thread_step_def resume_def)
      ultimately show ?thesis using solo_trans [OF second] Inl by simp
    next
      case (Inr v)
      let ?s5 = "resume i (Running ?tx2 fs (k v)) w2 s"
      have "solo cfg p i ?s4 ?s5" using Inr by (intro solo_step) (simp add: thread_step_def resume_def)
      moreover have "exec cfg (k v) ?tx2 w2 = (Inr (r, tx'), w')"
        using OrElse.prems(1) or Inr by (simp add: and_then_def)
      then have "solo cfg p i ?s5 (resume i (Running tx' fs (outcome r)) w' ?s5)"
        using OrElse.prems(3) by (intro rest) simp_all
      ultimately show ?thesis using solo_trans [OF solo_trans [OF second]] by simp
    qed
  qed
qed

section \<open>The commit\<close>

text \<open>No other thread holds a lock.\<close>

definition alone :: "nat \<Rightarrow> 'v system \<Rightarrow> bool" where
  "alone i s \<longleftrightarrow> (\<forall>j. j \<noteq> i \<longrightarrow> held (threads s j) = [])"

lemma solo_alone: "solo cfg p i s s' \<Longrightarrow> alone i s \<Longrightarrow> alone i s'"
  by (simp add: alone_def solo_others)

text \<open>The locks a thread does not hold itself are free.\<close>

lemma alone_free:
  assumes "reachable cfg p s" and "alone i s" and "k \<notin> lock_key ` set (held (threads s i))"
  shows "can_write k s" and "can_read k s"
proof -
  have none: "l \<notin> set (held (threads s j))" if "lock_key l = k" for l j
    using assms(2,3) that by (cases "j = i") (auto simp: alone_def)
  have "writer s k = None"
    using reachable_locks [OF assms(1)] none [of "WriteLock k"] unfolding lock_inv_def
    by (metis lock.sel(2) not_None_eq)
  moreover have "readers s k = {}"
    using reachable_locks [OF assms(1)] none [of "ReadLock k"] by (auto simp: lock_inv_def)
  ultimately show "can_write k s" and "can_read k s" by (simp_all add: can_write_def can_read_def)
qed

text \<open>The first phase of a valid log takes every lock.\<close>

lemma lock_phase:
  assumes "reachable cfg p s" and "alone i s" and "threads s i = Locking v tx rs rv wv wr"
    and "log_valid (shared s) (vars tx)"
  shows "\<exists>s' rv' wv' wr'. solo cfg p i s s' \<and> threads s' i = Locking v tx [] rv' wv' wr' \<and> shared s' = shared s"
  using assms
proof (induction rs arbitrary: s rv wv wr)
  case Nil
  then show ?case using solo_refl by blast
next
  case (Cons e rs)
  obtain k l where e: "e = (k, l)" by (cases e)
  have wf: "wf_thread cfg (Locking v tx ((k, l) # rs) rv wv wr)"
    using reachable_wf [OF Cons.prems(1), of i] Cons.prems(3) by (simp add: e)
  then have "(k, l) \<in> set (reg_records cfg (vars tx))" "reg_wf cfg (vars tx)"
    by (auto simp del: set_reg_records)
  then have l: "map_of (vars tx) k = Some l" by (simp add: reg_wf_distinct)
  have below: "lock_key h < k" if "h \<in> set (held (threads s i))" for h
    by (rule held_below [OF wf]) (use that Cons.prems(3) e in simp_all)
  have "k \<notin> lock_key ` set (held (threads s i))"
  proof
    assume "k \<in> lock_key ` set (held (threads s i))"
    then obtain h where "k = lock_key h" "h \<in> set (held (threads s i))" by (rule imageE)
    with below show False by auto
  qed
  note free = alone_free [OF Cons.prems(1,2) this]
  have valid: "ptr_eq (value_of s k) u" if "LogVar_checked l = Some u" for u
    using Cons.prems(4) l that by (simp add: log_valid_def)
  have "\<exists>s1. lock_step i v tx k l rs rv wv wr s = Some s1"
    using free by (cases l) (simp_all add: Let_def)
  then obtain s1 where lock: "lock_step i v tx k l rs rv wv wr s = Some s1" by blast
  then have step: "thread_step cfg p i s = Some s1" using Cons.prems(3) by (simp add: thread_step_def e)
  obtain rv1 wv1 wr1 where 1: "threads s1 i = Locking v tx rs rv1 wv1 wr1" "shared s1 = shared s"
    using lock by (cases rule: lock_step_cases) (use valid in auto)
  have "reachable cfg p s1" "alone i s1"
    using solo_reachable [OF solo_step [OF step] Cons.prems(1)] solo_alone [OF solo_step [OF step] Cons.prems(2)]
    by simp_all
  from Cons.IH [OF this 1(1)] Cons.prems(4) 1(2) solo_first [OF step] show ?case by metis
qed

text \<open>From its commit point on a thread finishes without any lock; no other thread can stop it.\<close>

lemma waking_phase:
  "threads s i = Waking v cs wr \<Longrightarrow> \<exists>s'. solo cfg p i s s' \<and> threads s' i = Finished v"
proof (induction wr arbitrary: cs s)
  case Nil
  then show ?case
  proof (induction cs arbitrary: s)
    case Nil
    then have "thread_step cfg p i s = Some (set_thread i (Finished v) s)" by (simp add: thread_step_def)
    from solo_step [OF this] show ?case by force
  next
    case (Cons c cs)
    let ?s = "set_thread i (Waking v cs []) (s\<lparr>shared := ControlBlock_set_changed c (shared s)\<rparr>)"
    have "thread_step cfg p i s = Some ?s" using Cons.prems by (simp add: thread_step_def)
    moreover obtain s' where "solo cfg p i ?s s'" "threads s' i = Finished v" using Cons.IH [of ?s] by auto
    ultimately show ?case using solo_first by blast
  qed
next
  case (Cons k wr)
  from Cons.prems show ?case
  proof (induction cs arbitrary: s)
    case Nil
    let ?s = "set_thread i (Waking v (waiting_threads (blocks (shared s) k)) wr)
      (s\<lparr>shared := update_block k (\<lambda>b. b\<lparr>waiting_threads := []\<rparr>) (shared s)\<rparr>)"
    have "thread_step cfg p i s = Some ?s" using Nil by (simp add: thread_step_def)
    moreover obtain s' where "solo cfg p i ?s s'" "threads s' i = Finished v"
      using Cons.IH [of ?s "waiting_threads (blocks (shared s) k)"] by auto
    ultimately show ?case using solo_first by blast
  next
    case (Cons c cs)
    let ?s = "set_thread i (Waking v cs (k # wr)) (s\<lparr>shared := ControlBlock_set_changed c (shared s)\<rparr>)"
    have "thread_step cfg p i s = Some ?s" using Cons.prems by (simp add: thread_step_def)
    moreover obtain s' where "solo cfg p i ?s s'" "threads s' i = Finished v" using Cons.IH [of ?s] by auto
    ultimately show ?case using solo_first by blast
  qed
qed

lemma writing_phase:
  "threads s i = Writing v wv wr \<Longrightarrow> \<exists>s'. solo cfg p i s s' \<and> threads s' i = Finished v"
proof (induction wv arbitrary: s)
  case Nil
  let ?s = "set_thread i (finish cfg v wr) s"
  have step: "thread_step cfg p i s = Some ?s" using Nil by (simp add: thread_step_def)
  have "\<exists>s'. solo cfg p i ?s s' \<and> threads s' i = Finished v"
  proof (cases "wait_on_retry cfg")
    case True
    then show ?thesis by (intro waking_phase [where cs = "[]" and wr = wr]) (simp add: finish_def)
  next
    case False
    then show ?thesis by (intro exI [of _ ?s]) (simp add: finish_def)
  qed
  with solo_first [OF step] show ?case by blast
next
  case (Cons e wv)
  obtain k x where e: "e = (k, x)" by (cases e)
  let ?s = "set_thread i (Writing v wv wr)
    (release i (WriteLock k) (s\<lparr>shared := update_block k (\<lambda>b. b\<lparr>vcb_value := x\<rparr>) (shared s)\<rparr>))"
  have "thread_step cfg p i s = Some ?s" using Cons.prems by (simp add: thread_step_def e)
  moreover obtain s' where "solo cfg p i ?s s'" "threads s' i = Finished v" using Cons.IH [of ?s] by auto
  ultimately show ?case using solo_first by blast
qed

lemma releasing_phase:
  "threads s i = Releasing v rv wv wr \<Longrightarrow> \<exists>s'. solo cfg p i s s' \<and> threads s' i = Finished v"
proof (induction rv arbitrary: s)
  case Nil
  let ?s = "set_thread i (Writing v wv wr) s"
  have "thread_step cfg p i s = Some ?s" using Nil by (simp add: thread_step_def)
  moreover obtain s' where "solo cfg p i ?s s'" "threads s' i = Finished v"
    using writing_phase [of ?s i v wv wr] by auto
  ultimately show ?case using solo_first by blast
next
  case (Cons k rv)
  let ?s = "set_thread i (Releasing v rv wv wr) (release i (ReadLock k) s)"
  have "thread_step cfg p i s = Some ?s" using Cons.prems by (simp add: thread_step_def)
  moreover obtain s' where "solo cfg p i ?s s'" "threads s' i = Finished v" using Cons.IH [of ?s] by auto
  ultimately show ?case using solo_first by blast
qed

text \<open>A thread past its commit point makes no other commit, so the abstract memory stays.\<close>

lemma committed_solo:
  assumes "solo cfg p i s s'" and "reachable cfg p s" and "committed_value (threads s i) \<noteq> None"
  shows "abs_mem s' = abs_mem s"
proof -
  from assms(1) have "committed_value (threads s' i) \<noteq> None \<and> abs_mem s' = abs_mem s"
  proof (induction rule: solo_induct)
    case (step s1 s2)
    from step have com: "committed_value (threads s1 i) \<noteq> None" and eq: "abs_mem s1 = abs_mem s" by simp_all
    from com have "\<not> commits s1 i" by (auto simp: commits_def)
    with abs_mem_other_step [OF solo_reachable [OF step(1) assms(2)] step(2)]
    have "abs_mem s2 = abs_mem s1" by (simp add: fun_eq_iff)
    with eq com committed_step [OF step(2)] show ?case by simp
  qed (use assms(3) in simp)
  then show ?thesis by simp
qed

end
