(* ===== verification/Solo_Properties.thy ===== *)
theory Solo_Properties
  imports Solo_Runs Progress_Properties
begin

text \<open>
  Progress without interference: a transaction whose thread runs alone for long enough commits what
  its specification says, or parks if the specification retries.
\<close>

section \<open>Parking\<close>

lemma parking_phase:
  assumes "threads s i = Registering tx c es reads" and "\<And>k. writer s k = None"
    and "\<And>k v. (k, v) \<in> set es \<Longrightarrow> value_of s k = v"
  shows "\<exists>s'. solo cfg p i s s' \<and> threads s' i = Parked tx c (reads @ es) \<and> ctrls (shared s') = ctrls (shared s)"
  using assms
proof (induction es arbitrary: s reads)
  case Nil
  then have "thread_step cfg p i s = Some (set_thread i (Parked tx c reads) s)" by (simp add: thread_step_def)
  from solo_step [OF this] show ?case by force
next
  case (Cons e es)
  obtain k v where e: "e = (k, v)" by (cases e)
  let ?s1 = "set_thread i (Comparing tx c k v es reads) (s\<lparr>shared := VarControlBlock_wait k c (shared s)\<rparr>)"
  let ?s2 = "set_thread i (Registering tx c es (reads @ [(k, v)])) ?s1"
  have "thread_step cfg p i s = Some ?s1" using Cons.prems(1) by (simp add: thread_step_def e)
  moreover have "value_of s k = v" using Cons.prems(3) by (simp add: e)
  then have "thread_step cfg p i ?s1 = Some ?s2"
    using Cons.prems(2) by (simp add: thread_step_def can_read_def ptr_eq_def VarControlBlock_wait_def)
  ultimately have "solo cfg p i s ?s2" using solo_first solo_step by blast
  moreover have "\<exists>s'. solo cfg p i ?s2 s' \<and> threads s' i = Parked tx c ((reads @ [(k, v)]) @ es) \<and>
      ctrls (shared s') = ctrls (shared ?s2)"
    by (rule Cons.IH) (use Cons.prems(2,3) in \<open>auto simp: VarControlBlock_wait_def\<close>)
  ultimately show ?case by (auto simp: e VarControlBlock_wait_def intro: solo_trans)
qed

section \<open>A whole transaction\<close>

lemma alone_settled:
  assumes "alone i s" and "pending (threads s i) = (\<lambda>_. None)"
  shows "abs_mem s k = value_of s k"
proof -
  have "pending (threads s j) k = None" for j
  proof (cases "j = i")
    case False
    with assms(1) have "held (threads s j) = []" by (simp add: alone_def)
    with pending_held [of "threads s j" k] show ?thesis by (cases "pending (threads s j) k") auto
  qed (use assms(2) in simp)
  then show ?thesis by (simp add: abs_mem_def pending_value_def split: option.split)
qed

lemma solo_commits:
  assumes reach: "reachable cfg p s" and alone: "alone i s" and st: "threads s i = Running tx [] (Return v)"
    and cur: "log_current (shared s) (vars tx)" and ok: "\<not> aborts (calls s i) v"
  shows "\<exists>s'. solo cfg p i s s' \<and> threads s' i = Finished v \<and> store (shared s') = view tx (shared s)"
proof -
  let ?s1 = "set_thread i (Locking v tx (reg_records cfg (vars tx)) [] [] []) s"
  have "thread_step cfg p i s = Some ?s1" using st ok by (simp add: thread_step_def)
  note 1 = solo_step [OF this]
  obtain s2 rv wv wr where s2: "solo cfg p i ?s1 s2" "threads s2 i = Locking v tx [] rv wv wr" "shared s2 = shared s"
    using lock_phase [OF solo_reachable [OF 1 reach] solo_alone [OF 1 alone], of v tx]
      log_current_valid [OF cur] by fastforce
  note 2 = solo_trans [OF 1 s2(1)]
  note reach2 = solo_reachable [OF 2 reach]
  obtain s3 where s3: "thread_step cfg p i s2 = Some s3" using s2(2) by (simp add: thread_step_def)
  note cp = commit_point [OF reach2 s2(2) s3]
  obtain s4 where s4: "solo cfg p i s3 s4" "threads s4 i = Finished v"
    using releasing_phase [OF cp(4)] by blast
  note 3 = solo_trans [OF 2 solo_step [OF s3]]
  note 4 = solo_trans [OF 3 s4(1)]
  have "value_of s4 k = abs_mem s4 k" for k
    using alone_settled [OF solo_alone [OF 4 alone]] s4(2) by simp
  moreover have "abs_mem s4 = abs_mem s3"
    by (rule committed_solo [OF s4(1) solo_reachable [OF 3 reach]]) (simp add: cp(4))
  moreover have "abs_mem s2 k = mem (shared s) k" for k
    using alone_settled [OF solo_alone [OF 2 alone]] s2(2,3) by simp
  ultimately have "mem (shared s4) k = mem (commit_world cfg (reg_records cfg (vars tx)) (shared s)) k" for k
    by (simp add: cp(3) commit_world_blocks [OF cp(1)] split: option.split)
  then have "store (shared s4) = store (commit_world cfg (reg_records cfg (vars tx)) (shared s))"
    by (simp add: store_def fun_eq_iff)
  then show ?thesis using 4 s4(2) commit_installs_view [OF cp(1) cur] by auto
qed

lemma solo_parks:
  assumes st: "threads s i = Running tx [] (Raise e)" and unlocked: "\<And>k. writer s k = None"
    and wf: "reg_wf cfg (vars tx)" and cur: "log_current (shared s) (vars tx)" and wait: "waits_after cfg (calls s i) e"
  shows "\<exists>s' tx c reads. solo cfg p i s s' \<and> threads s' i = Parked tx c reads \<and> ctrl_blocked c (shared s')"
proof -
  let ?w = "shared s"
  let ?c = "next_ctrl ?w"
  let ?w1 = "?w\<lparr>ctrls := (ctrls ?w)(?c := Some (ControlBlock_new i)), next_ctrl := Suc ?c\<rparr>"
  let ?s1 = "set_thread i (Registering (tx\<lparr>vars := []\<rparr>) ?c (read_values (vars tx)) []) (s\<lparr>shared := ?w1\<rparr>)"
  have step: "thread_step cfg p i s = Some ?s1" using st wait by (simp add: thread_step_def Let_def)
  have "value_of ?s1 k = v" if "(k, v) \<in> set (read_values (vars tx))" for k v
    using that cur wf by (auto simp: set_read_values log_current_def reg_wf_distinct)
  then obtain s' where s': "solo cfg p i ?s1 s'"
      "threads s' i = Parked (tx\<lparr>vars := []\<rparr>) ?c (read_values (vars tx))" "ctrls (shared s') = ctrls ?w1"
    using parking_phase [of ?s1 i "tx\<lparr>vars := []\<rparr>" ?c "read_values (vars tx)" "[]" cfg p] unlocked by auto
  have "ctrl_blocked ?c (shared s')" by (simp add: ctrl_blocked_def s'(3) ControlBlock_new_def)
  with s'(2) solo_first [OF step s'(1)] show ?thesis by blast
qed

lemma solo_aborts:
  assumes st: "threads s i = Running tx [] (Return v)" and ab: "aborts (calls s i) v"
  shows "\<exists>s'. solo cfg p i s s' \<and> threads s' i = Stopped (Cancelled v) \<and> store (shared s') = store (shared s)"
proof -
  have "thread_step cfg p i s = Some (set_thread i (Stopped (Cancelled v)) s)" using assms by (simp add: thread_step_def)
  from solo_step [OF this] show ?thesis by fastforce
qed

lemma solo_runs_body:
  assumes "reachable cfg p s" and "alone i s" and "threads s i = Running tx [] (p i)" and "vars tx = []"
    and "world_typed ty (shared s)" and "prog_typed ty (p i)"
  shows "case spec (p i) (store (shared s)) of
      Inr (v, st) \<Rightarrow> \<exists>s'. solo cfg p i s s' \<and>
        (if aborts (calls s i) v
         then threads s' i = Stopped (Cancelled v) \<and> store (shared s') = store (shared s)
         else threads s' i = Finished v \<and> store (shared s') = st)
    | Inl e \<Rightarrow> waits_after cfg (calls s i) e \<longrightarrow>
        (\<exists>s' tx c reads. solo cfg p i s s' \<and> threads s' i = Parked tx c reads \<and> ctrl_blocked c (shared s'))"
proof -
  obtain r tx' w' where run: "exec cfg (p i) tx (shared s) = (Inr (r, tx'), w')" and w': "allocates (shared s) w'"
    and wf: "reg_wf cfg (vars tx')" and cur: "log_current w' (vars tx')"
    and res: "case spec (p i) (store (shared s)) of Inl e \<Rightarrow> r = Inl e | Inr (v, st) \<Rightarrow> r = Inr v \<and> view tx' w' = st"
    using refining_body.attempt [OF refining_exec [OF assms(6)] assms(4,5)] by blast
  have unlocked: "writer s k = None" for k
    using alone_free(1) [OF assms(1,2)] assms(3) by (simp add: can_write_def)
  let ?s1 = "resume i (Running tx' [] (outcome r)) w' s"
  have 1: "solo cfg p i s ?s1" by (rule exec_steps [OF run assms(3) unlocked])
  have on: "solo cfg p i s s'" if "solo cfg p i ?s1 s'" for s' by (rule solo_trans [OF 1 that])
  have same: "store (shared ?s1) = store (shared s)" using allocatesD [OF w'] by (simp add: store_def fun_eq_iff)
  show ?thesis
  proof (cases "spec (p i) (store (shared s))")
    case (Inr a)
    obtain v st where a: "a = (v, st)" by (cases a)
    with res Inr have st: "threads ?s1 i = Running tx' [] (Return v)" "view tx' w' = st" by simp_all
    show ?thesis
    proof (cases "aborts (calls s i) v")
      case True
      with solo_aborts [OF st(1), of cfg p] on same show ?thesis by (auto simp: Inr a)
    next
      case False
      with solo_commits [OF solo_reachable [OF 1 assms(1)] solo_alone [OF 1 assms(2)] st(1)] on cur st(2)
      show ?thesis by (auto simp: Inr a)
    qed
  next
    case (Inl e)
    then have "threads ?s1 i = Running tx' [] (Raise e)" using res by simp
    from solo_parks [OF this _ wf, of p] on unlocked cur show ?thesis by (fastforce simp: Inl)
  qed
qed

text \<open>C11: progress: whatever the threads have done so far, if no other thread holds a lock and thread
  \<open>i\<close> is about to run its body, then after finitely many steps of thread \<open>i\<close> alone it has committed
  and returned the value of its specification on the values of the variables, which now hold the
  values of the specification; or, if the body aborts with that value, it has returned the error and
  changed nothing; or, if the specification raises an error after which the function that was called
  waits (and the control function, if it has one, lets it), it is parked with its flag set.\<close>

theorem runs_alone:
  assumes "reachable cfg p s" and "alone i s" and "threads s i = Running tx [] (p i)" and "vars tx = []"
    and "world_typed ty (shared s)" and "prog_typed ty (p i)"
  shows "case spec (p i) (store (shared s)) of
      Inr (v, st) \<Rightarrow> \<exists>n s'. run_schedule cfg p (replicate n i) s = Some s' \<and>
        (if aborts (calls s i) v
         then threads s' i = Stopped (Cancelled v) \<and> store (shared s') = store (shared s)
         else threads s' i = Finished v \<and> store (shared s') = st)
    | Inl e \<Rightarrow> waits_after cfg (calls s i) e \<longrightarrow>
        (\<exists>n s' tx c reads. run_schedule cfg p (replicate n i) s = Some s' \<and>
          threads s' i = Parked tx c reads \<and> ctrl_blocked c (shared s'))"
  using solo_runs_body [OF assms] unfolding solo_def
  by (auto split: sum.split_asm sum.split if_splits) (metis | blast)+

theorem runs_alone_witness:
  "\<exists>n s'. run_schedule default_config (write_prog 2) (replicate n 1) (demo_system (write_prog 2) 2) = Some s' \<and>
     threads s' 1 = Finished 1 \<and> store (shared s') = (store sys_world)(Block 2 := 1)"
proof -
  have "reachable default_config (write_prog 2) (demo_system (write_prog 2) 2)"
    by (intro reachable.start initial_demo)
  moreover have "alone 1 (demo_system (write_prog 2) 2)" by (simp add: alone_def)
  moreover have "threads (demo_system (write_prog 2) 2) 1 = Running transaction_default [] (write_prog 2 1)" by simp
  moreover have "world_typed (\<lambda>_. 0) sys_world" "prog_typed (\<lambda>_. 0) (write_prog 2 1)"
    by (simp_all add: world_typed_def write_prog_def)
  ultimately show ?thesis
    using runs_alone [of default_config "write_prog 2" "demo_system (write_prog 2) 2" 1 transaction_default "\<lambda>_. 0"]
    by (simp add: write_prog_def s_then_def s_result_def transaction_default_def)
qed

end
