(* ===== verification/Cleanup_Properties.thy ===== *)
theory Cleanup_Properties
  imports Progress_Properties
begin

text \<open>
  The counter of dead threads.  \<open>set_dead\<close> increments it atomically, but resets it in a second step, so
  several threads may find it full at the same time: the data race that a comment of tvar.rs mentions.
  The race only lets the counter exceed its limit by the number of these threads.
\<close>

definition cleaning_at :: "block \<Rightarrow> 'v system \<Rightarrow> nat set" where
  "cleaning_at k s = {i. \<exists>tx c reads. threads s i = Cleaning tx c k reads}"

lemma cleaning_iff: "i \<in> cleaning_at k s \<longleftrightarrow> (\<exists>tx c reads. threads s i = Cleaning tx c k reads)"
  by (simp add: cleaning_at_def)

lemma cleaning_finite: "reachable cfg p s \<Longrightarrow> finite (cleaning_at k s)"
  by (rule finite_subset [OF _ reachable_finite]) (auto simp: cleaning_at_def)

lemma body_ends_cleaning:
  "dead_threads (blocks (shared (body_ends cfg p i tx fs r s)) k) = dead_threads (blocks (shared s) k)"
  "i \<notin> cleaning_at k (body_ends cfg p i tx fs r s)"
  by (cases rule: body_ends_cases [of fs r]; simp add: Let_def restart_def cleaning_iff)+

lemma dead_step_cases:
  assumes "thread_step cfg p i s = Some s'"
  obtains (same) "dead_threads (blocks (shared s') k) = dead_threads (blocks (shared s) k)"
      "i \<in> cleaning_at k s' \<longleftrightarrow> i \<in> cleaning_at k s"
  | (counted) "dead_threads (blocks (shared s') k) = dead_threads (blocks (shared s) k) + 1"
      "i \<notin> cleaning_at k s" "i \<in> cleaning_at k s' \<longleftrightarrow> 64 \<le> dead_threads (blocks (shared s) k)"
  | (cleaned) "dead_threads (blocks (shared s') k) = 0" "i \<in> cleaning_at k s" "i \<notin> cleaning_at k s'"
proof (cases "threads s i")
  case (Running tx fs q)
  with assms have b: "body_step cfg p i tx fs q s = Some s'" by (simp add: thread_step_def)
  have not_before: "i \<notin> cleaning_at k s" using Running by (simp add: cleaning_iff)
  show thesis
  proof (cases q)
    case (Perform op k')
    with b have "body_step cfg p i tx fs (Perform op k') s = Some s'" by simp
    then show thesis
      using not_before
      by (cases rule: perform_cases; intro same) (simp_all add: allocatesD [OF op_body_allocates] cleaning_iff)
  next
    case (Return x)
    with b have "s' = body_ends cfg p i tx fs (Inr x) s" by simp
    with not_before body_ends_cleaning show thesis by (intro same) simp_all
  next
    case (Raise e)
    with b have "s' = body_ends cfg p i tx fs (Inl e) s" by simp
    with not_before body_ends_cleaning show thesis by (intro same) simp_all
  qed (use b not_before in \<open>intro same; auto simp: cleaning_iff\<close>)
next
  case (Locking v tx rs rv wv wr)
  show thesis
  proof (cases rs)
    case Nil
    with assms Locking show thesis by (intro same) (auto simp: thread_step_def cleaning_iff)
  next
    case (Cons r rs')
    obtain j l where r: "r = (j, l)" by (cases r)
    with assms Locking Cons have "lock_step i v tx j l rs' rv wv wr s = Some s'" by (simp add: thread_step_def)
    then show thesis
      using Locking by (cases rule: lock_step_cases; intro same) (simp_all add: cleaning_iff)
  qed
next
  case (Dying tx c reads)
  show thesis
  proof (cases reads)
    case Nil
    with assms Dying show thesis by (intro same) (auto simp: thread_step_def restart_def cleaning_iff)
  next
    case (Cons e reads')
    obtain j v where e: "e = (j, v)" by (cases e)
    show thesis
    proof (cases "j = k")
      case True
      with assms Dying Cons e show thesis
        by (intro counted) (auto simp: thread_step_defs cleaning_iff split: if_splits)
    next
      case False
      with assms Dying Cons e show thesis
        by (intro same) (auto simp: thread_step_defs cleaning_iff split: if_splits)
    qed
  qed
next
  case (Cleaning tx c j reads)
  show thesis
  proof (cases "j = k")
    case True
    with assms Cleaning show thesis
      by (intro cleaned) (auto simp: thread_step_def set_dead_cleanup_def cleaning_iff)
  next
    case False
    with assms Cleaning show thesis
      by (intro same) (auto simp: thread_step_def set_dead_cleanup_def cleaning_iff)
  qed
qed (rule same; use assms in \<open>auto simp: thread_step_def restart_def finish_def cleaning_iff
    VarControlBlock_wait_def split: list.splits if_splits\<close>)+

lemma unat_suc_le: "unat (d + 1 :: 64 word) \<le> Suc (unat d)"
  by (simp add: unat_word_ariths)

definition dead_bounded :: "block \<Rightarrow> 'v system \<Rightarrow> bool" where
  "dead_bounded k s \<longleftrightarrow> unat (dead_threads (blocks (shared s) k)) \<le> 64 + card (cleaning_at k s)"

lemma dead_bounded_step:
  assumes reach: "reachable cfg p s" and step: "thread_step cfg p i s = Some s'" and inv: "dead_bounded k s"
  shows "dead_bounded k s'"
proof -
  note fin = cleaning_finite [OF reach, of k]
  have others: "j \<in> cleaning_at k s' \<longleftrightarrow> j \<in> cleaning_at k s" if "j \<noteq> i" for j
    using thread_step_others [OF step that] by (simp add: cleaning_iff)
  have limit: "64 \<le> d \<longleftrightarrow> 64 \<le> unat d" for d :: "64 word" by (simp add: word_le_nat_alt)
  from step show ?thesis
  proof (cases rule: dead_step_cases [where k = k])
    case same
    have "j \<in> cleaning_at k s' \<longleftrightarrow> j \<in> cleaning_at k s" for j
      using others [of j] same(2) by (cases "j = i") simp_all
    then have "cleaning_at k s' = cleaning_at k s" by (rule set_eqI)
    with same inv show ?thesis by (simp add: dead_bounded_def)
  next
    case counted
    show ?thesis
    proof (cases "64 \<le> dead_threads (blocks (shared s) k)")
      case True
      have "j \<in> cleaning_at k s' \<longleftrightarrow> j \<in> insert i (cleaning_at k s)" for j
        using others [of j] counted(3) True by (cases "j = i") simp_all
      then have "cleaning_at k s' = insert i (cleaning_at k s)" by (rule set_eqI)
      then have "card (cleaning_at k s') = Suc (card (cleaning_at k s))" using fin counted(2) by simp
      then show ?thesis
        using inv unat_suc_le [of "dead_threads (blocks (shared s) k)"] counted(1) by (simp add: dead_bounded_def)
    next
      case False
      then have "unat (dead_threads (blocks (shared s) k)) < 64" by (simp add: limit)
      then show ?thesis
        using unat_suc_le [of "dead_threads (blocks (shared s) k)"] counted(1) by (simp add: dead_bounded_def)
    qed
  next
    case cleaned
    then show ?thesis by (simp add: dead_bounded_def)
  qed
qed

interpretation dead: system_invariant cfg p "\<lambda>s. \<forall>k. dead_bounded k s" for cfg p
proof
  fix s :: "'a system"
  assume "initial p s"
  then show "\<forall>k. dead_bounded k s"
    by (auto simp: initial_def dead_bounded_def word_le_nat_alt intro: trans_le_add1)
next
  fix s s' :: "'a system" and i
  assume "reachable cfg p s" and "\<forall>k. dead_bounded k s" and "thread_step cfg p i s = Some s'"
  then show "\<forall>k. dead_bounded k s'" using dead_bounded_step by blast
next
  fix s :: "'a system" and i tx e
  assume "\<forall>k. dead_bounded k s" and "threads s i = Running tx [] (Raise e)"
  moreover from this(2) have "cleaning_at k (set_thread i (Stopped Abandoned) s) = cleaning_at k s" for k
    by (auto simp: cleaning_at_def)
  ultimately show "\<forall>k. dead_bounded k (set_thread i (Stopped Abandoned) s)" by (simp add: dead_bounded_def)
next
  fix s :: "'a system" and var :: tvar and v
  assume "\<forall>k. dead_bounded k s"
  then show "\<forall>k. dead_bounded k (s\<lparr>shared := TVar_write_atomic var v (shared s)\<rparr>)"
    by (simp add: dead_bounded_def cleaning_at_def TVar_write_atomic_def Arc_new_def)
qed

text \<open>The data race of \<open>set_dead\<close> is harmless: in every interleaving the counter of dead threads of a
  variable exceeds its limit of 64 at most by the number of threads that are about to clean the
  variable up, so it never overflows, and it is at most 64 whenever no thread is.\<close>

theorem dead_threads_bounded:
  assumes "reachable cfg p s"
  shows "finite {i. \<exists>tx c reads. threads s i = Cleaning tx c k reads} \<and>
    unat (dead_threads (blocks (shared s) k)) \<le>
      64 + card {i. \<exists>tx c reads. threads s i = Cleaning tx c k reads}"
  using cleaning_finite [OF assms, of k] dead.invariant [OF assms]
  by (simp add: dead_bounded_def cleaning_at_def)

theorem dead_threads_bounded_witness: "unat (dead_threads (blocks (shared parked_system) (Block 2))) \<le> 64"
proof -
  have "reachable default_config retry_prog parked_system"
    by (rule run_schedule_reachable [OF parked_system_run(1)]) (intro reachable.start initial_demo)
  moreover have "{i. \<exists>tx c reads. threads parked_system i = Cleaning tx c (Block 2) reads} = {}"
    by (simp add: parked_system_run(2))
  ultimately show ?thesis using dead_threads_bounded [of default_config retry_prog parked_system "Block 2"] by simp
qed

end
