(* ===== verification/Conflict_Properties.thy ===== *)
theory Conflict_Properties
  imports Serializability_Properties
begin

text \<open>
  A commit fails only because of another commit.  As long as nothing takes effect, every value in the
  log of a running attempt is the value of its variable in the abstract memory.
\<close>

section \<open>Logs that are up to date\<close>

definition up_to_date :: "'v system \<Rightarrow> 'v arc register \<Rightarrow> bool" where
  "up_to_date s r \<longleftrightarrow>
     (\<forall>k l v. map_of r k = Some l \<longrightarrow> LogVar_into_read_value l = Some v \<longrightarrow> abs_mem s k = v)"

fun attempt_up_to_date :: "'v system \<Rightarrow> 'v thread_state \<Rightarrow> bool" where
  "attempt_up_to_date s (Running tx fs q) \<longleftrightarrow>
     up_to_date s (vars tx) \<and> (\<forall>f \<in> set fs. up_to_date s (frame_log f))"
| "attempt_up_to_date s (Locking v tx rs rv wv wr) \<longleftrightarrow> up_to_date s (vars tx)"
| "attempt_up_to_date s (BackingOut tx ls) \<longleftrightarrow> False"
| "attempt_up_to_date s _ \<longleftrightarrow> True"

lemma up_to_date_Nil [simp]: "up_to_date s []"
  by (simp add: up_to_date_def)

lemma up_to_date_cong: "abs_mem s' = abs_mem s \<Longrightarrow> up_to_date s' r = up_to_date s r"
  by (simp add: up_to_date_def)

lemma attempt_cong: "abs_mem s' = abs_mem s \<Longrightarrow> attempt_up_to_date s' st = attempt_up_to_date s st"
  by (cases st) (simp_all add: up_to_date_def)

lemma readable_settled: "writer s k = None \<Longrightarrow> abs_mem s k = value_of s k"
  by (simp add: abs_mem_def pending_value_def)

lemma up_to_date_combine:
  assumes "reg_wf cfg r" and "distinct (map fst vs)" and "up_to_date s r" and "up_to_date s vs"
  shows "up_to_date s (combine_vars cfg vs r)"
  using assms LogVar_obsolete_orig
  by (fastforce simp: up_to_date_def map_of_combine_vars bind_eq_Some_conv split: option.splits)

text \<open>The originals that an operation adds to the log were loaded under the read lock.\<close>

lemma set_entry_originals:
  assumes "reg_wf cfg (vars tx)" and "vars tx' = reg_set cfg key l' (vars tx)"
    and "\<And>v. LogVar_into_read_value l' = Some v \<Longrightarrow>
      (\<exists>l0. map_of (vars tx) key = Some l0 \<and> LogVar_into_read_value l0 = Some v) \<or> new v"
    and "map_of (vars tx') k = Some l" and "LogVar_into_read_value l = Some v"
  shows "(\<exists>l0. map_of (vars tx) k = Some l0 \<and> LogVar_into_read_value l0 = Some v) \<or> (k = key \<and> new v)"
  using assms by (auto split: if_splits)

lemma entry_original:
  "LogVar_into_read_value (entry_of var tx w) = Some v \<Longrightarrow>
   (\<exists>l0. map_of (vars tx) (control_block_of var) = Some l0 \<and> LogVar_into_read_value l0 = Some v) \<or>
   (map_of (vars tx) (control_block_of var) = None \<and> v = mem w (control_block_of var))"
  by (auto simp: entry_of_def split: option.splits)

lemma op_originals:
  assumes "reg_wf cfg (vars tx)" and "op_body cfg b tx w = (Inr (r, tx'), w')"
    and "map_of (vars tx') k = Some l" and "LogVar_into_read_value l = Some v"
  shows "(\<exists>l0. map_of (vars tx) k = Some l0 \<and> LogVar_into_read_value l0 = Some v) \<or>
    (k = op_key b \<and> loads cfg b tx \<and> v = mem w k)"
proof -
  have old: ?thesis if "vars tx' = vars tx" using that assms(3,4) by auto
  have set: ?thesis if "vars tx' = reg_set cfg (op_key b) l' (vars tx)"
    "\<And>v. LogVar_into_read_value l' = Some v \<Longrightarrow>
      (\<exists>l0. map_of (vars tx) (op_key b) = Some l0 \<and> LogVar_into_read_value l0 = Some v) \<or>
      (loads cfg b tx \<and> v = mem w (op_key b))" for l'
    using set_entry_originals [OF assms(1) that assms(3,4)] by auto
  show ?thesis
  proof (cases b)
    case (WriteOp var x)
    then show ?thesis
      using assms(2) by (intro set [of "case map_of (vars tx) (control_block_of var) of
          Some l \<Rightarrow> LogVar_write (Arc (next_arc w) (Dyn (marker var) x)) l
        | None \<Rightarrow> Write (Arc (next_arc w) (Dyn (marker var) x))"])
        (auto simp: TVar_ops and_then_def lift_result_def Transaction_write_eq Let_def split: option.splits)
  next
    case (ReadOp var)
    show ?thesis
    proof (cases "vars tx' = vars tx")
      case False
      then have "vars tx' = reg_set cfg (op_key b) (snd (LogVar_read (entry_of var tx w))) (vars tx)"
        using assms(2) ReadOp
        by (auto simp: TVar_ops and_then_def lift_result_def Transaction_read_eq Let_def split: if_splits sum.splits)
      then show ?thesis
        by (rule set) (use ReadOp in \<open>auto simp: loads_def dest: entry_original\<close>)
    qed (rule old)
  next
    case (ModifyOp var f)
    show ?thesis
    proof (cases "vars tx' = vars tx")
      case False
      then have "vars tx' = reg_set cfg (op_key b) (LogVar_write (Arc (next_arc w) (Dyn (marker var)
          (f (payload (arc_dyn (LogVar_current (entry_of var tx w))))))) (snd (LogVar_read (entry_of var tx w)))) (vars tx)"
        using assms(2) ModifyOp
        by (auto simp: TVar_ops and_then_def lift_result_def Transaction_modify_eq Let_def downcast_def
            split: if_splits)
      then show ?thesis
        by (rule set) (use ModifyOp in \<open>auto simp: loads_def dest: entry_original\<close>)
    qed (rule old)
  next
    case (ExchangeOp var x)
    show ?thesis
    proof (cases "vars tx' = vars tx")
      case False
      then have "vars tx' = reg_set cfg (op_key b) (LogVar_write (Arc (next_arc w) (Dyn (marker var) x))
          (snd (LogVar_read (entry_of var tx w)))) (vars tx)"
        using assms(2) ExchangeOp
        by (auto simp: TVar_ops and_then_def lift_result_def Transaction_exchange_eq Let_def split: if_splits sum.splits)
      then show ?thesis
        by (rule set) (use ExchangeOp in \<open>auto simp: loads_def dest: entry_original\<close>)
    qed (rule old)
  qed
qed

section \<open>Steps that have no effect keep the logs up to date\<close>

lemma body_ends_up_to_date:
  assumes "attempt_up_to_date s (Running tx fs q)" and "wf_thread cfg (Running tx fs q')"
  shows "attempt_up_to_date s (threads (body_ends cfg p i tx fs r t) i)"
  using assms
  by (cases rule: body_ends_cases [of fs r])
    (auto simp: Let_def restart_def Transaction_clear_def Transaction_combine_def
      intro: up_to_date_combine reg_wf_distinct)

lemma attempt_step:
  assumes step: "thread_step cfg p i s = Some s'" and wf: "wf_thread cfg (threads s i)"
    and inv: "attempt_up_to_date s (threads s i)"
  shows "attempt_up_to_date s (threads s' i)"
proof (cases "threads s i")
  case (Running tx fs q)
  with assms have b: "body_step cfg p i tx fs q s = Some s'" and reg: "wf_thread cfg (Running tx fs q)"
    and cur: "attempt_up_to_date s (Running tx fs q)"
    by (simp_all add: thread_step_def)
  show ?thesis
  proof (cases q)
    case (Perform op k)
    with b have "body_step cfg p i tx fs (Perform op k) s = Some s'" by simp
    then show ?thesis
    proof (cases rule: perform_cases)
      case (error e tx' w)
      have "up_to_date s (vars tx')"
        using op_originals [OF _ error(1)] reg cur error(3) readable_settled [of s "op_key op"]
        by (fastforce simp: up_to_date_def can_read_def)
      with error cur show ?thesis by simp
    next
      case (ok r tx' w)
      have "up_to_date s (vars tx')"
        using op_originals [OF _ ok(1)] reg cur ok(3) readable_settled [of s "op_key op"]
        by (fastforce simp: up_to_date_def can_read_def)
      with ok cur show ?thesis by simp
    qed simp
  next
    case (Return x)
    with b have "s' = body_ends cfg p i tx fs (Inr x) s" by simp
    with body_ends_up_to_date [OF cur reg] show ?thesis by simp
  next
    case (Raise e)
    with b have "s' = body_ends cfg p i tx fs (Inl e) s" by simp
    with body_ends_up_to_date [OF cur reg] show ?thesis by simp
  qed (use b cur in auto)
next
  case (Locking v tx rs rv wv wr)
  show ?thesis
  proof (cases rs)
    case Nil
    with step Locking show ?thesis by (auto simp: thread_step_def)
  next
    case (Cons r rs')
    obtain k l where r: "r = (k, l)" by (cases r)
    with step Locking Cons have "lock_step i v tx k l rs' rv wv wr s = Some s'" by (simp add: thread_step_def)
    moreover have "map_of (vars tx) k = Some l"
    proof -
      have "(k, l) \<in> set (reg_records cfg (vars tx))" "reg_wf cfg (vars tx)"
        using wf by (auto simp: Locking Cons r simp del: set_reg_records)
      then show ?thesis by (simp add: reg_wf_distinct)
    qed
    then have current: "value_of s k = u" if "LogVar_checked l = Some u" "writer s k = None" for u
      using inv that LogVar_checked_orig [OF that(1)] readable_settled [OF that(2)]
      by (auto simp: Locking up_to_date_def)
    ultimately show ?thesis
      using inv by (cases rule: lock_step_cases)
        (auto simp: Locking can_read_def can_write_def ptr_eq_def dest: current)
  qed
qed (use step inv in \<open>auto simp: thread_step_defs restart_def finish_def Transaction_clear_def
    split: list.splits if_splits\<close>)

text \<open>Runs in which no commit and no \<open>write_atomic\<close> takes effect.\<close>

inductive silent :: "config \<Rightarrow> (nat \<Rightarrow> 'v prog) \<Rightarrow> 'v system \<Rightarrow> 'v system \<Rightarrow> bool"
  for cfg :: config and p :: "nat \<Rightarrow> 'v prog" and s :: "'v system" where
  start: "silent cfg p s s"
| steps: "silent cfg p s s1 \<Longrightarrow> step cfg p s1 l s2 \<Longrightarrow> events s1 l = [] \<Longrightarrow> silent cfg p s s2"

lemma silent_invariant:
  assumes "silent cfg p s s'" and "reachable cfg p s" and "attempt_up_to_date s (threads s i)"
  shows "reachable cfg p s' \<and> attempt_up_to_date s' (threads s' i)"
  using assms
proof (induction rule: silent.induct)
  case (steps s1 l s2)
  then have reach: "reachable cfg p s1" and inv: "attempt_up_to_date s1 (threads s1 i)" by simp_all
  from steps(2) show ?case
  proof (cases rule: step.cases)
    case (thread j)
    then have "\<not> commits s1 j" using steps(3) by (auto simp: commits_def)
    with abs_mem_other_step [OF reach thread(2)] have mem: "abs_mem s2 = abs_mem s1" by (simp add: fun_eq_iff)
    have "attempt_up_to_date s1 (threads s2 i)"
    proof (cases "i = j")
      case True
      with attempt_step [OF thread(2) reachable_wf [OF reach]] inv show ?thesis by simp
    next
      case False
      with thread_step_others [OF thread(2), of i] inv show ?thesis by simp
    qed
    with reach steps(2) show ?thesis by (auto simp: attempt_cong [OF mem] intro: reachable.steps)
  next
    case (give_up j tx e)
    then have mem: "abs_mem s2 = abs_mem s1" by (simp add: abs_mem_idle)
    have "attempt_up_to_date s1 (threads s2 i)" using inv give_up(2) by simp
    with reach steps(2) show ?thesis by (auto simp: attempt_cong [OF mem] intro: reachable.steps)
  qed (use steps(3) in simp)
qed simp

lemma run_history_silent:
  assumes "run_history cfg p is s = Some ([], s')" and "silent cfg p s0 s"
  shows "silent cfg p s0 s'"
  using assms
proof (induction "is" arbitrary: s)
  case (Cons i "is")
  then obtain s1 where "thread_step cfg p i s = Some s1" "events s (ThreadStep i) = []"
    "run_history cfg p is s1 = Some ([], s')"
    by (auto simp del: events.simps split: option.splits)
  with Cons show ?case by (metis silent.steps step.thread)
qed simp

text \<open>C9: a commit fails only because another transaction has made progress: if, from the beginning of
  an attempt of thread \<open>i\<close> on, no commit of any thread and no \<open>write_atomic\<close> takes effect, then the
  commit of this attempt does not fail, nor does that of any attempt that follows, however the steps
  of the threads are interleaved.  Whenever a thread aborts, some other one has made progress.\<close>

theorem aborts_need_commits:
  assumes "reachable cfg p s" and "threads s i = Running tx [] (p i)" and "vars tx = []"
    and "silent cfg p s s'"
  shows "threads s' i \<noteq> BackingOut tx' ls"
  using silent_invariant [OF assms(4,1), of i] assms(2,3) by auto

theorem aborts_need_commits_witness:
  "\<exists>s'. silent default_config inc_prog (demo_system inc_prog 2) s' \<and>
     (\<exists>v tx rs rv wv wr. threads s' 0 = Locking v tx rs rv wv wr) \<and> threads s' 0 \<noteq> BackingOut transaction_default []"
proof -
  have "\<exists>s'. run_history default_config inc_prog [0, 1, 0, 0, 0] (demo_system inc_prog 2) = Some ([], s') \<and>
      (\<exists>v tx rs rv wv wr. threads s' 0 = Locking v tx rs rv wv wr)"
    by (simp add: inc_prog_def run_defs)
  then obtain s' v tx rs rv wv wr where
      run: "run_history default_config inc_prog [0, 1, 0, 0, 0] (demo_system inc_prog 2) = Some ([], s')"
      and locking: "threads s' 0 = Locking v tx rs rv wv wr"
    by blast
  have "reachable default_config inc_prog (demo_system inc_prog 2)"
    by (intro reachable.start initial_demo)
  moreover have "silent default_config inc_prog (demo_system inc_prog 2) s'"
    by (rule run_history_silent [OF run silent.start])
  ultimately show ?thesis
    using aborts_need_commits [of default_config inc_prog "demo_system inc_prog 2" 0 transaction_default s'] locking
    by auto
qed

end
