(* ===== verification/Cancel_Properties.thy ===== *)
theory Cancel_Properties
  imports Serializability_Properties
begin

text \<open>
  Transactions that end without a commit, because their body aborts or their control function gives
  up: they leave no trace, whatever the other threads do; but the error of an aborted transaction is
  not validated, so it may come from values that were never in the variables at the same time.
\<close>

section \<open>Which threads return what\<close>

fun returns_fit :: "'v call \<Rightarrow> 'v thread_state \<Rightarrow> bool" where
  "returns_fit c (Locking v tx rs rv wv wr) \<longleftrightarrow> \<not> aborts c v"
| "returns_fit c (Stopped (Cancelled v)) \<longleftrightarrow> aborts c v"
| "returns_fit c (Stopped Abandoned) \<longleftrightarrow> has_control c"
| "returns_fit c (Stopped (Validated v)) \<longleftrightarrow> False"
| "returns_fit c _ \<longleftrightarrow> True"

lemma returns_fit_body_ends: "returns_fit (calls s i) (threads (body_ends cfg p i tx fs r s) i)"
  by (cases rule: body_ends_cases [of fs r]) (auto simp: Let_def restart_def)

lemma returns_fit_step:
  assumes "thread_step cfg p i s = Some s'" and "returns_fit (calls s i) (threads s i)"
  shows "returns_fit (calls s i) (threads s' i)"
proof (cases "threads s i")
  case (Running tx fs q)
  with assms(1) have b: "body_step cfg p i tx fs q s = Some s'" by (simp add: thread_step_def)
  show ?thesis
  proof (cases q)
    case (Perform op k)
    with b have "body_step cfg p i tx fs (Perform op k) s = Some s'" by simp
    then show ?thesis by (cases rule: perform_cases) simp_all
  next
    case (Return x)
    with b have "s' = body_ends cfg p i tx fs (Inr x) s" by simp
    with returns_fit_body_ends show ?thesis by (simp only:)
  next
    case (Raise e)
    with b have "s' = body_ends cfg p i tx fs (Inl e) s" by simp
    with returns_fit_body_ends show ?thesis by (simp only:)
  qed (use b in auto)
next
  case (Locking v tx rs rv wv wr)
  show ?thesis
  proof (cases rs)
    case Nil
    with assms(1) Locking show ?thesis by (auto simp: thread_step_def)
  next
    case (Cons r rs')
    obtain k l where r: "r = (k, l)" by (cases r)
    with assms(1) Locking Cons have "lock_step i v tx k l rs' rv wv wr s = Some s'" by (simp add: thread_step_def)
    then show ?thesis using assms(2) Locking by (cases rule: lock_step_cases) simp_all
  qed
qed (use assms(1) in \<open>auto simp: thread_step_defs restart_def finish_def split: list.splits if_splits\<close>)

interpretation returns: system_invariant cfg p "\<lambda>s. \<forall>i. returns_fit (calls s i) (threads s i)" for cfg p
proof
  fix s :: "'a system"
  assume start: "initial p s"
  show "\<forall>i. returns_fit (calls s i) (threads s i)"
  proof
    fix i
    from start show "returns_fit (calls s i) (threads s i)"
      by (cases rule: initial_threads [where i = i]) simp_all
  qed
next
  fix s s' :: "'a system" and j
  assume inv: "\<forall>i. returns_fit (calls s i) (threads s i)" and step: "thread_step cfg p j s = Some s'"
  show "\<forall>i. returns_fit (calls s' i) (threads s' i)"
  proof
    fix i
    show "returns_fit (calls s' i) (threads s' i)"
      using returns_fit_step [OF step] thread_step_others [OF step, of i] thread_step_calls [OF step] inv
      by (cases "i = j") simp_all
  qed
qed simp_all

lemma execution_calls: "execution cfg p s0 h s \<Longrightarrow> calls s = calls s0"
  by (induction rule: execution.induct) (auto dest: step_calls)

lemma event_committed:
  "Committed i v \<in> set (events s l) \<Longrightarrow> \<exists>tx rv wv wr. threads s i = Locking v tx [] rv wv wr"
  by (cases l) (auto dest!: sym [of "Locking _ _ _ _ _ _"] split: thread_state.splits list.splits)

lemma committed_not_aborted:
  assumes "execution cfg p s0 h s" and "Committed i v \<in> set h"
  shows "\<not> aborts (calls s0 i) v"
  using assms
proof (induction rule: execution.induct)
  case (continue h s l s')
  note fit = returns.invariant [OF execution_reachable [OF continue(1)], rule_format, of i]
  show ?case
  proof (cases "Committed i v \<in> set h")
    case False
    with continue.prems obtain tx rv wv wr where "threads s i = Locking v tx [] rv wv wr"
      using event_committed [of i v s l] by auto
    with fit execution_calls [OF continue(1)] show ?thesis by simp
  qed (rule continue.IH)
qed simp

section \<open>Transactions without a commit\<close>

lemma committed_stays:
  assumes "execution cfg p s0 h s" and "committed_value (threads s0 i) = Some v"
  shows "committed_value (threads s i) = Some v"
  using assms
proof (induction rule: execution.induct)
  case (continue h s l s')
  from continue(2) show ?case
  proof (cases rule: step.cases)
    case (thread j)
    with continue show ?thesis
      using committed_step [OF thread(2)] thread_step_others [OF thread(2), of i] by (cases "i = j") simp_all
  next
    case (give_up j tx e)
    with continue show ?thesis by auto
  qed (use continue in simp)
qed simp

lemma stopped_uncommitted:
  assumes "execution cfg p s0 h s" and "threads s i = Stopped r"
  shows "Committed i v \<notin> set h"
proof -
  have "committed_value (threads s0 i) = None"
    using committed_stays [OF assms(1), of i] assms(2) by (cases "committed_value (threads s0 i)") simp_all
  with execution_commits [OF assms(1)] have "commits_of i h = []" using assms(2) by simp
  then show ?thesis by (induction h) (auto simp: commits_of_def map_filter_def split: if_splits option.splits)
qed

lemma serial_other_program:
  "(\<And>v. Committed i v \<notin> set h) \<Longrightarrow> serial (p(i := q)) h s s' = serial p h s s'"
proof (induction p h s s' rule: serial.induct)
  case (2 p j v h s s')
  then have "j \<noteq> i" by fastforce
  with 2 show ?case by auto
qed auto

text \<open>C12: a transaction that does not return a committed result leaves no trace: \<open>atomically\<close> never returns
  without a commit; an error is returned only by the functions for fallible bodies, and only when the
  body aborts with it; only the functions with a control function give up; and when a thread has
  returned in one of these ways, the memory is what the transactions of the other threads make of it
  one after another, whatever program the thread has run.\<close>

theorem uncommitted_leave_no_trace:
  assumes "execution cfg p s0 h s" and "threads s i = Stopped r"
  shows "(case r of Cancelled v \<Rightarrow> aborts (calls s0 i) v | Abandoned \<Rightarrow> has_control (calls s0 i) | Validated v \<Rightarrow> False) \<and>
    commits_of i h = [] \<and> serial (p(i := q)) h (store (shared s0)) (abs_store s)"
proof (intro conjI)
  have "returns_fit (calls s0 i) (Stopped r)"
    using returns.invariant [OF execution_reachable [OF assms(1)]] assms(2) execution_calls [OF assms(1)] by metis
  then show "case r of Cancelled v \<Rightarrow> aborts (calls s0 i) v | Abandoned \<Rightarrow> has_control (calls s0 i) | Validated v \<Rightarrow> False"
    by (cases r) simp_all
  note none = stopped_uncommitted [OF assms]
  then show "commits_of i h = []"
  proof (induction h)
    case (Cons e h)
    then have "event_value i e = None" by (cases e) auto
    with Cons show ?case by (simp add: commits_of_def map_filter_def)
  qed simp
  from execution_serial [OF assms(1)] execution_start [OF assms(1)]
  show "serial (p(i := q)) h (store (shared s0)) (abs_store s)"
    by (simp add: serial_other_program none)
qed

text \<open>Thread 1 exchanges the values 20 and 30 of the variables 2 and 3, whose sum is always 50.  Thread 0
  aborts with the sum that it has seen if this is not 50.\<close>

definition sum_prog :: "nat \<Rightarrow> int prog" where
  "sum_prog i = Perform (ReadOp (demo_var 2)) (\<lambda>a. Perform (ReadOp (demo_var 3)) (\<lambda>b.
     if i = 0 then Return (the a + the b)
     else Perform (WriteOp (demo_var 2) (the b)) (\<lambda>_. Perform (WriteOp (demo_var 3) (the a)) (\<lambda>_. Return 0))))"

definition sum_system :: "int system" where
  "sum_system = (demo_system sum_prog 2)\<lparr>calls := (\<lambda>_. With)(0 := WithErr (\<lambda>v. v \<noteq> 50))\<rparr>"

definition sum_end :: "int event list \<times> int system" where
  "sum_end = the (run_history default_config sum_prog ([0] @ replicate 15 1 @ [0, 0]) sum_system)"

lemma sum_end:
  "run_history default_config sum_prog ([0] @ replicate 15 1 @ [0, 0]) sum_system = Some sum_end"
  "fst sum_end = [Committed 1 0]" "threads (snd sum_end) 0 = Stopped (Cancelled 40)"
  by (simp_all add: sum_end_def sum_system_def sum_prog_def run_defs numeral_eq_Suc)

lemma sum_execution: "execution default_config sum_prog sum_system [Committed 1 0] (snd sum_end)"
proof -
  have "run_history default_config sum_prog ([0] @ replicate 15 1 @ [0, 0]) sum_system =
      Some ([Committed 1 0], snd sum_end)"
    using sum_end(1,2) by (metis prod.collapse)
  moreover have "initial sum_prog sum_system"
    using initial_demo [of sum_prog 2] by (simp add: initial_def sum_system_def)
  ultimately show ?thesis using run_history_execution execution.at_start by fastforce
qed

theorem uncommitted_leave_no_trace_witness:
  "serial (sum_prog(0 := Return 7)) [Committed 1 0] (store (shared sum_system)) (abs_store (snd sum_end))"
  using uncommitted_leave_no_trace [OF sum_execution sum_end(3)] by simp

text \<open>C21: the error of a transaction that aborts is not validated: here \<open>atomically_with_err\<close> returns the
  error 40, a sum that the two variables never had; whenever the transaction runs on the values
  before or after any of the commits, the body succeeds.  (Only commits are checked, so what the body
  has read before it aborts may be inconsistent.)\<close>

theorem cancelled_not_validated:
  "\<exists>s0 h s. execution default_config sum_prog s0 h s \<and> calls s0 0 = WithErr (\<lambda>v. v \<noteq> 50) \<and>
     threads s 0 = Stopped (Cancelled 40) \<and>
     (\<forall>n. \<exists>st. serial_run sum_prog (take n h) (store (shared s0)) = Some st \<and>
        spec (sum_prog 0) st = Inr (50, st))"
proof -
  have "\<exists>st. serial_run sum_prog (take n [Committed 1 0]) (store (shared sum_system)) = Some st \<and>
      spec (sum_prog 0) st = Inr (50, st)" for n
    by (cases n) (simp_all add: sum_prog_def sum_system_def s_then_def s_result_def store_def)
  moreover have "calls sum_system 0 = WithErr (\<lambda>v. v \<noteq> 50)" by (simp add: sum_system_def)
  ultimately show ?thesis using sum_execution sum_end(3) by blast
qed

end
