(* ===== verification/Typing_Properties.thy ===== *)
theory Typing_Properties
  imports Serializability_Properties
begin

text \<open>
  Type safety of interleaved threads: a value is only ever cast to the type of the variable it was
  read from, so no transaction panics, whatever the other threads commit.
\<close>

fun frame_typed :: "(block \<Rightarrow> nat) \<Rightarrow> 'v frame \<Rightarrow> bool" where
  "frame_typed ty (InFirst backup q k) \<longleftrightarrow> log_typed ty backup \<and> prog_typed ty q \<and> (\<forall>v. prog_typed ty (k v))"
| "frame_typed ty (InSecond first_vars k) \<longleftrightarrow> log_typed ty first_vars \<and> (\<forall>v. prog_typed ty (k v))"

definition values_typed :: "(block \<Rightarrow> nat) \<Rightarrow> (block \<times> 'v arc) list \<Rightarrow> bool" where
  "values_typed ty wv \<longleftrightarrow> (\<forall>(k, x) \<in> set wv. type_id (arc_dyn x) = ty k)"

fun thread_typed :: "(block \<Rightarrow> nat) \<Rightarrow> 'v thread_state \<Rightarrow> bool" where
  "thread_typed ty (Running tx fs q) \<longleftrightarrow>
     log_typed ty (vars tx) \<and> (\<forall>f \<in> set fs. frame_typed ty f) \<and> prog_typed ty q"
| "thread_typed ty (Locking v tx rs rv wv wr) \<longleftrightarrow> log_typed ty (vars tx) \<and> values_typed ty wv"
| "thread_typed ty (Releasing v rv wv wr) \<longleftrightarrow> values_typed ty wv"
| "thread_typed ty (Writing v wv wr) \<longleftrightarrow> values_typed ty wv"
| "thread_typed ty (Panicked flt) \<longleftrightarrow> False"
| "thread_typed ty _ \<longleftrightarrow> True"

lemma values_typed_simps [simp]:
  "values_typed ty []" "values_typed ty (wv @ wv') \<longleftrightarrow> values_typed ty wv \<and> values_typed ty wv'"
  "values_typed ty ((k, x) # wv) \<longleftrightarrow> type_id (arc_dyn x) = ty k \<and> values_typed ty wv"
  by (auto simp: values_typed_def)

lemma body_ends_typed:
  assumes "thread_typed ty (Running tx fs q)" and "wf_thread cfg (Running tx fs q)" and "prog_typed ty (p i)"
  shows "thread_typed ty (threads (body_ends cfg p i tx fs r s) i)"
  using assms
  by (cases rule: body_ends_cases [of fs r])
    (auto simp: Let_def restart_def Transaction_clear_def Transaction_combine_def reg_wf_distinct
      intro!: log_typed_combine)

lemma perform_typed:
  assumes "body_step cfg p i tx fs (Perform b k) s = Some s'" and "thread_typed ty (Running tx fs (Perform b k))"
    and "reg_wf cfg (vars tx)" and "world_typed ty (shared s)"
  shows "thread_typed ty (threads s' i)"
proof -
  from assms(2) have ty: "ty (op_key b) = marker (op_var b)" and lt: "log_typed ty (vars tx)" by simp_all
  have op: "typed_body ty cfg (op_body cfg b)"
    by (rule refining_body.axioms(1)) (rule refining_op_body, rule ty)
  from assms(1) show ?thesis
  proof (cases rule: perform_cases)
    case (fault flt w)
    with typed_body.typed [OF op assms(3,4) lt] show ?thesis by simp
  next
    case (error e tx' w)
    with typed_body.keeps_typing(1) [OF op error(1) assms(3,4) lt] assms(2) show ?thesis by simp
  next
    case (ok r tx' w)
    with typed_body.keeps_typing(1) [OF op ok(1) assms(3,4) lt] assms(2) show ?thesis by simp
  qed
qed

lemma thread_typed_step:
  assumes "thread_step cfg p i s = Some s'" and "wf_thread cfg (threads s i)"
    and "thread_typed ty (threads s i)" and "world_typed ty (shared s)" and "prog_typed ty (p i)"
  shows "thread_typed ty (threads s' i)"
proof (cases "threads s i")
  case (Running tx fs q)
  with assms have b: "body_step cfg p i tx fs q s = Some s'" and wf: "wf_thread cfg (Running tx fs q)"
    and typed: "thread_typed ty (Running tx fs q)"
    by (simp_all add: thread_step_def)
  show ?thesis
  proof (cases q)
    case (Perform op k)
    with perform_typed [of cfg p i tx fs op k s s' ty] b wf typed assms(4) show ?thesis by simp
  next
    case (Return x)
    with b have "s' = body_ends cfg p i tx fs (Inr x) s" by simp
    with body_ends_typed [OF typed wf, of p i] assms(5) show ?thesis by simp
  next
    case (Raise e)
    with b have "s' = body_ends cfg p i tx fs (Inl e) s" by simp
    with body_ends_typed [OF typed wf, of p i] assms(5) show ?thesis by simp
  qed (use b typed in auto)
next
  case (Locking v tx rs rv wv wr)
  show ?thesis
  proof (cases rs)
    case Nil
    with assms Locking show ?thesis by (auto simp: thread_step_def)
  next
    case (Cons r rs')
    obtain k l where r: "r = (k, l)" by (cases r)
    with assms(1) Locking Cons have "lock_step i v tx k l rs' rv wv wr s = Some s'" by (simp add: thread_step_def)
    moreover have "map_of (vars tx) k = Some l"
    proof -
      have "(k, l) \<in> set (reg_records cfg (vars tx))" "reg_wf cfg (vars tx)"
        using assms(2) by (auto simp: Locking Cons r simp del: set_reg_records)
      then show ?thesis by (simp add: reg_wf_distinct)
    qed
    then have "type_id (arc_dyn x) = ty k" if "LogVar_written l = Some x" for x
      using assms(3) LogVar_written_in [OF that] by (auto simp: Locking log_typed_def)
    ultimately show ?thesis using assms(3) Locking by (cases rule: lock_step_cases) auto
  qed
qed (use assms in \<open>auto simp: thread_step_defs restart_def finish_def Transaction_clear_def
    split: list.splits if_splits\<close>)

lemma world_typed_step:
  assumes "thread_step cfg p i s = Some s'" and "thread_typed ty (threads s i)" and "world_typed ty (shared s)"
  shows "world_typed ty (shared s')"
  using assms(1)
proof (cases rule: thread_step_memory)
  case same
  with assms(3) show ?thesis by (simp add: world_typed_def)
next
  case (stored v k x wv wr)
  with assms(2,3) show ?thesis by (simp add: world_typed_def)
qed

lemma execution_typed:
  assumes "execution cfg p s0 h s" and "world_typed ty (shared s0)" and "\<And>i. prog_typed ty (p i)"
    and "\<And>var v. Stored var v \<in> set h \<Longrightarrow> ty (control_block_of var) = marker var"
  shows "world_typed ty (shared s) \<and> (\<forall>i. thread_typed ty (threads s i))"
  using assms(1,4)
proof (induction rule: execution.induct)
  case at_start
  have "thread_typed ty (threads s0 i)" for i
    using at_start(1) by (cases rule: initial_threads [where i = i]) (simp_all add: assms(3))
  with assms(2) show ?case by simp
next
  case (continue h s l s')
  have IH: "world_typed ty (shared s) \<and> (\<forall>i. thread_typed ty (threads s i))"
    by (rule continue.IH) (use continue.prems in auto)
  then have wt: "world_typed ty (shared s)" and tt: "thread_typed ty (threads s i)" for i by simp_all
  note wf = reachable_wf [OF execution_reachable [OF continue(1)]]
  from continue(2) show ?case
  proof (cases rule: step.cases)
    case (thread j)
    have "thread_typed ty (threads s' i)" for i
      using thread_typed_step [OF thread(2) wf tt wt assms(3)] thread_step_others [OF thread(2), of i] tt [of i]
      by (cases "i = j") simp_all
    with world_typed_step [OF thread(2) tt wt] show ?thesis by simp
  next
    case (give_up j tx e)
    with wt tt show ?thesis by simp
  next
    case (atomic var v)
    then have "ty (control_block_of var) = marker var" using continue.prems [of var v] by simp
    with wt tt show ?thesis by (simp add: atomic(2) world_typed_def TVar_write_atomic_def Arc_new_def)
  qed
qed

text \<open>C22: no thread panics: if the variables have the types of the handles through which the threads and
  the callers of \<open>write_atomic\<close> use them, then no cast fails in any interleaving, and the variables
  keep their types.\<close>

theorem typed_threads_never_panic:
  assumes "execution cfg p s0 h s" and "world_typed ty (shared s0)" and "\<And>i. prog_typed ty (p i)"
    and "\<And>var v. Stored var v \<in> set h \<Longrightarrow> ty (control_block_of var) = marker var"
  shows "threads s i \<noteq> Panicked flt \<and> world_typed ty (shared s)"
proof -
  have "world_typed ty (shared s) \<and> (\<forall>i. thread_typed ty (threads s i))"
    using assms by (rule execution_typed)
  then show ?thesis by (metis thread_typed.simps(5))
qed

theorem typed_threads_never_panic_witness:
  "threads (snd inc_end) 0 \<noteq> Panicked (PanicMessage []) \<and> world_typed (\<lambda>_. 0) (shared (snd inc_end))"
  by (rule typed_threads_never_panic [OF inc_execution]) (auto simp: world_typed_def inc_prog_def)

end
