(* ===== verification/Run_Ranks.thy ===== *)
theory Run_Ranks
  imports Progress_Properties "HOL-Library.Multiset"
begin

text \<open>
  How far a thread is in its attempt: a well-founded order on the states of a thread in which every
  step goes down that neither commits, wakes a thread nor starts a new attempt.  For the body it is
  the run of a program, which ends whatever the operations return; after the body it is the number of
  the phase and the length of the lists that are left.
\<close>

section \<open>Bodies end\<close>

text \<open>The steps of a body, with any results of the operations and any logs.\<close>

inductive body_next :: "'v frame list \<times> 'v prog \<Rightarrow> 'v frame list \<times> 'v prog \<Rightarrow> bool" where
  perform: "body_next (fs, Perform b k) (fs, k r)"
| failed: "body_next (fs, Perform b k) (fs, Raise e)"
| or_else: "body_next (fs, OrElse p q k) (InFirst backup q k # fs, p)"
| first_ok: "body_next (InFirst backup q k # fs, Return v) (fs, k v)"
| first_retry: "body_next (InFirst backup q k # fs, Raise e) (InSecond first_vars k # fs, q)"
| first_error: "body_next (InFirst backup q k # fs, Raise e) (fs, Raise e)"
| second_ok: "body_next (InSecond first_vars k # fs, Return v) (fs, k v)"
| second_error: "body_next (InSecond first_vars k # fs, Raise e) (fs, Raise e)"

inductive_simps body_next_simps [simp]:
  "body_next (fs, Perform b k) y" "body_next (fs, OrElse p q k) y"
  "body_next ([], Return v) y" "body_next ([], Raise e) y"
  "body_next (InFirst backup q k # fs, Return v) y" "body_next (InFirst backup q k # fs, Raise e) y"
  "body_next (InSecond first_vars k # fs, Return v) y" "body_next (InSecond first_vars k # fs, Raise e) y"

definition body_rel :: "(('v frame list \<times> 'v prog) \<times> ('v frame list \<times> 'v prog)) set" where
  "body_rel = {(y, x). body_next x y}"

text \<open>A program ends if the frames around it end whatever it returns.\<close>

definition frames_end :: "'v frame list \<Rightarrow> bool" where
  "frames_end fs \<longleftrightarrow> (\<forall>v. (fs, Return v) \<in> Wellfounded.acc body_rel) \<and> (\<forall>e. (fs, Raise e) \<in> Wellfounded.acc body_rel)"

lemma body_accI: "(\<And>y. body_next x y \<Longrightarrow> y \<in> Wellfounded.acc body_rel) \<Longrightarrow> x \<in> Wellfounded.acc body_rel"
  by (rule acc.intros) (simp add: body_rel_def)

lemma frames_end_Second:
  assumes "frames_end fs" and "\<And>v. (fs, k v) \<in> Wellfounded.acc body_rel"
  shows "frames_end (InSecond first_vars k # fs)"
  unfolding frames_end_def
proof ((intro conjI allI); rule body_accI)
  fix v y
  assume "body_next (InSecond first_vars k # fs, Return v) y"
  with assms(2) show "y \<in> Wellfounded.acc body_rel" by simp
next
  fix e y
  assume "body_next (InSecond first_vars k # fs, Raise e) y"
  with assms(1) show "y \<in> Wellfounded.acc body_rel" by (simp add: frames_end_def)
qed

lemma frames_end_First:
  assumes "frames_end fs" and "\<And>v. (fs, k v) \<in> Wellfounded.acc body_rel"
    and "\<And>first_vars. (InSecond first_vars k # fs, q) \<in> Wellfounded.acc body_rel"
  shows "frames_end (InFirst backup q k # fs)"
  unfolding frames_end_def
proof ((intro conjI allI); rule body_accI)
  fix v y
  assume "body_next (InFirst backup q k # fs, Return v) y"
  with assms(2) show "y \<in> Wellfounded.acc body_rel" by simp
next
  fix e y
  assume "body_next (InFirst backup q k # fs, Raise e) y"
  with assms(1,3) show "y \<in> Wellfounded.acc body_rel" by (auto simp: frames_end_def)
qed

lemma program_ends: "frames_end fs \<Longrightarrow> (fs, q) \<in> Wellfounded.acc body_rel"
proof (induction q arbitrary: fs)
  case (Perform b k)
  show ?case
  proof (rule body_accI)
    fix y
    assume "body_next (fs, Perform b k) y"
    then consider r where "y = (fs, k r)" | e where "y = (fs, Raise e)" by auto
    then show "y \<in> Wellfounded.acc body_rel"
    proof cases
      case 1
      with Perform.IH [OF rangeI Perform.prems] show ?thesis by simp
    next
      case 2
      with Perform.prems show ?thesis by (simp add: frames_end_def)
    qed
  qed
next
  case (OrElse p q k)
  have k: "(fs, k v) \<in> Wellfounded.acc body_rel" for v by (rule OrElse.IH(3) [OF rangeI OrElse.prems])
  have "(InSecond first_vars k # fs, q) \<in> Wellfounded.acc body_rel" for first_vars
    by (rule OrElse.IH(2)) (rule frames_end_Second [OF OrElse.prems k])
  note first = OrElse.IH(1) [OF frames_end_First [OF OrElse.prems k this]]
  show ?case
  proof (rule body_accI)
    fix y
    assume "body_next (fs, OrElse p q k) y"
    with first show "y \<in> Wellfounded.acc body_rel" by auto
  qed
qed (simp_all add: frames_end_def)

lemma frames_end: "frames_end fs"
proof (induction fs)
  case Nil
  show ?case unfolding frames_end_def by ((intro conjI allI); rule body_accI; simp)
next
  case (Cons f fs)
  note k = program_ends [OF Cons]
  show ?case
  proof (cases f)
    case (InFirst backup q k)
    then show ?thesis
      using frames_end_First [OF Cons k program_ends [OF frames_end_Second [OF Cons k]]] by simp
  next
    case (InSecond first_vars k)
    then show ?thesis using frames_end_Second [OF Cons k] by simp
  qed
qed

lemma wf_body_rel: "wf body_rel"
  by (rule acc_wfI) (metis program_ends frames_end surj_pair)

section \<open>The rank of a thread\<close>

fun phase :: "'v thread_state \<Rightarrow> nat \<times> nat" where
  "phase (Running tx fs q) = (9, 0)"
| "phase (Locking v tx rs rv wv wr) = (8, length rs)"
| "phase (BackingOut tx ls) = (7, length ls)"
| "phase (Releasing v rv wv wr) = (6, length rv)"
| "phase (Writing v wv wr) = (5, length wv)"
| "phase (Waking v cs wr) = (4, 0)"
| "phase (Registering tx c es reads) = (3, 2 * length es)"
| "phase (Comparing tx c k v es reads) = (3, Suc (2 * length es))"
| "phase (Parked tx c reads) = (2, 0)"
| "phase (Dying tx c reads) = (1, 2 * length reads)"
| "phase (Cleaning tx c k reads) = (1, Suc (2 * length reads))"
| "phase _ = (0, 0)"

fun rest_of_body :: "'v thread_state \<Rightarrow> 'v frame list \<times> 'v prog" where
  "rest_of_body (Running tx fs q) = (fs, q)"
| "rest_of_body _ = ([], Raise Retry)"

definition thread_rel :: "('v thread_state \<times> 'v thread_state) set" where
  "thread_rel = inv_image ((less_than <*lex*> less_than) <*lex*> body_rel) (\<lambda>st. (phase st, rest_of_body st))"

lemma wf_thread_rel: "wf thread_rel"
  unfolding thread_rel_def by (intro wf_inv_image wf_lex_prod wf_less_than wf_body_rel)

lemma thread_rel_body: "body_next (fs, q) (fs', q') \<Longrightarrow> (Running tx' fs' q', Running tx fs q) \<in> thread_rel"
  by (simp add: thread_rel_def body_rel_def)

lemma thread_rel_phase: "(phase st', phase st) \<in> less_than <*lex*> less_than \<Longrightarrow> (st', st) \<in> thread_rel"
  by (simp add: thread_rel_def)

text \<open>The steps with which an attempt begins anew.\<close>

fun restarts :: "config \<Rightarrow> 'v call \<Rightarrow> 'v thread_state \<Rightarrow> bool" where
  "restarts cfg c (Running tx [] (Raise e)) \<longleftrightarrow> \<not> waits_after cfg c e"
| "restarts cfg c (BackingOut tx []) \<longleftrightarrow> True"
| "restarts cfg c (Dying tx cb []) \<longleftrightarrow> True"
| "restarts cfg c _ \<longleftrightarrow> False"

lemma restart_step:
  assumes "thread_step cfg p i s = Some s'" and "restarts cfg (calls s i) (threads s i)"
  obtains tx where "threads s' i = restart p i tx"
  using assms by (cases "(cfg, calls s i, threads s i)" rule: restarts.cases)
    (auto simp: thread_step_def Let_def)

lemma rank_body_ends:
  assumes "\<not> restarts cfg (calls s i) (Running tx fs q)" and "q = (case r of Inr v \<Rightarrow> Return v | Inl e \<Rightarrow> Raise e)"
  shows "(threads (body_ends cfg p i tx fs r s) i, Running tx fs q) \<in> thread_rel"
  using assms
  by (cases rule: body_ends_cases [of fs r])
    (auto simp: Let_def intro: thread_rel_body thread_rel_phase)

lemma rank_step:
  assumes step: "thread_step cfg p i s = Some s'" and "\<not> restarts cfg (calls s i) (threads s i)"
    and "\<And>v cs wr. threads s i = Waking v cs wr \<Longrightarrow> cs = [] \<and> wr = []"
  shows "(threads s' i, threads s i) \<in> thread_rel"
proof (cases "threads s i")
  case (Running tx fs q)
  with step have b: "body_step cfg p i tx fs q s = Some s'" by (simp add: thread_step_def)
  note ends = rank_body_ends [of cfg s i tx fs q _ p]
  show ?thesis
  proof (cases q)
    case (Perform op k)
    with b have "body_step cfg p i tx fs (Perform op k) s = Some s'" by simp
    then show ?thesis
    proof (cases rule: perform_cases)
      case (fault flt w)
      with Running Perform show ?thesis by (simp add: thread_rel_phase)
    next
      case (error e tx' w)
      with Running Perform thread_rel_body [OF body_next.failed] show ?thesis by simp
    next
      case (ok r tx' w)
      with Running Perform thread_rel_body [OF body_next.perform] show ?thesis by simp
    qed
  next
    case (Return x)
    with b ends [of "Inr x"] assms(2) Running show ?thesis by simp
  next
    case (Raise e)
    with b ends [of "Inl e"] assms(2) Running show ?thesis by simp
  next
    case (OrElse q1 q2 k)
    with b Running show ?thesis by (auto intro!: thread_rel_body)
  qed
next
  case (Locking v tx rs rv wv wr)
  show ?thesis
  proof (cases rs)
    case Nil
    with step Locking show ?thesis by (auto simp: thread_step_def intro!: thread_rel_phase)
  next
    case (Cons r rs')
    obtain k l where r: "r = (k, l)" by (cases r)
    with step Locking Cons have "lock_step i v tx k l rs' rv wv wr s = Some s'" by (simp add: thread_step_def)
    then show ?thesis using Locking Cons by (cases rule: lock_step_cases) (auto intro!: thread_rel_phase)
  qed
qed (use assms in \<open>auto simp: thread_step_defs finish_def intro!: thread_rel_phase split: list.splits if_splits\<close>)

end
