(* ===== verification/Fresh_Attempts.thy ===== *)
theory Fresh_Attempts
  imports Conflict_Properties Wakeups Run_Ranks
begin

text \<open>
  Fresh attempts.  A thread is fresh if nothing can make it start again before the next commit of some
  thread or the next wake-up: what it has read is up to date, and if it waits, its flag is still set.
  As long as no commit takes effect and no thread is woken up, fresh threads stay fresh, and a thread
  that starts again becomes fresh.
\<close>

section \<open>Every waiting thread has its own control block\<close>

fun ctrl_of :: "'v thread_state \<Rightarrow> nat option" where
  "ctrl_of (Registering tx c es reads) = Some c"
| "ctrl_of (Comparing tx c k v es reads) = Some c"
| "ctrl_of (Parked tx c reads) = Some c"
| "ctrl_of (Dying tx c reads) = Some c"
| "ctrl_of (Cleaning tx c k reads) = Some c"
| "ctrl_of _ = None"

definition ctrls_apart :: "'v system \<Rightarrow> bool" where
  "ctrls_apart s \<longleftrightarrow> (\<forall>i c. ctrl_of (threads s i) = Some c \<longrightarrow>
     c < next_ctrl (shared s) \<and> (\<forall>j. ctrl_of (threads s j) = Some c \<longrightarrow> j = i))"

lemma ctrl_of_body_ends:
  "ctrl_of (threads (body_ends cfg p i tx fs r s) i) = Some c \<Longrightarrow>
   c = next_ctrl (shared s) \<and> next_ctrl (shared (body_ends cfg p i tx fs r s)) = Suc c"
  by (cases rule: body_ends_cases [of fs r]) (auto simp: Let_def restart_def split: if_splits)

lemma ctrl_of_step:
  assumes "thread_step cfg p i s = Some s'" and "ctrl_of (threads s' i) = Some c"
  shows "ctrl_of (threads s i) = Some c \<or> c = next_ctrl (shared s) \<and> next_ctrl (shared s') = Suc c"
proof (cases "threads s i")
  case (Running tx fs q)
  with assms(1) have b: "body_step cfg p i tx fs q s = Some s'" by (simp add: thread_step_def)
  show ?thesis
  proof (cases q)
    case (Perform op k)
    with b have "body_step cfg p i tx fs (Perform op k) s = Some s'" by simp
    then show ?thesis using assms(2) by (cases rule: perform_cases) simp_all
  next
    case (Return x)
    with b have "s' = body_ends cfg p i tx fs (Inr x) s" by simp
    with ctrl_of_body_ends assms(2) show ?thesis by blast
  next
    case (Raise e)
    with b have "s' = body_ends cfg p i tx fs (Inl e) s" by simp
    with ctrl_of_body_ends assms(2) show ?thesis by blast
  qed (use b assms(2) in auto)
next
  case (Locking v tx rs rv wv wr)
  show ?thesis
  proof (cases rs)
    case Nil
    with assms Locking show ?thesis by (auto simp: thread_step_def)
  next
    case (Cons r rs')
    obtain k l where r: "r = (k, l)" by (cases r)
    with assms(1) Locking Cons have "lock_step i v tx k l rs' rv wv wr s = Some s'" by (simp add: thread_step_def)
    then show ?thesis using assms(2) by (cases rule: lock_step_cases) simp_all
  qed
qed (use assms in \<open>auto simp: thread_step_defs restart_def finish_def split: list.splits if_splits\<close>)

interpretation ctrls: system_invariant cfg p ctrls_apart for cfg p
proof
  fix s :: "'a system"
  assume start: "initial p s"
  have "ctrl_of (threads s i) = None" for i
    using start by (cases rule: initial_threads [where i = i]) simp_all
  then show "ctrls_apart s" by (simp add: ctrls_apart_def)
next
  fix s s' :: "'a system" and i
  assume inv: "ctrls_apart s" and step: "thread_step cfg p i s = Some s'"
  note grows = next_ctrl_grows [OF step] and others = thread_step_others [OF step]
  have old: "ctrl_of (threads s j) = Some c \<or> j = i \<and> c = next_ctrl (shared s) \<and> next_ctrl (shared s') = Suc c"
    if "ctrl_of (threads s' j) = Some c" for j c
    using that others [of j] ctrl_of_step [OF step] by (cases "j = i") auto
  show "ctrls_apart s'"
    unfolding ctrls_apart_def
  proof (intro allI impI conjI)
    fix j c
    assume c: "ctrl_of (threads s' j) = Some c"
    from old [OF c] inv grows show "c < next_ctrl (shared s')" by (fastforce simp: ctrls_apart_def)
    fix m
    assume "ctrl_of (threads s' m) = Some c"
    from old [OF this] old [OF c] inv show "m = j" by (fastforce simp: ctrls_apart_def)
  qed
qed (auto simp: ctrls_apart_def TVar_write_atomic_def Arc_new_def)

text \<open>No thread waits without the feature \<open>wait-on-retry\<close>.\<close>

lemma waits_body_ends:
  "ctrl_of (threads (body_ends cfg p i tx fs r s) i) = Some c \<Longrightarrow> wait_on_retry cfg"
proof (cases rule: body_ends_cases [of fs r])
  case (wait_or_restart e)
  moreover assume "ctrl_of (threads (body_ends cfg p i tx fs r s) i) = Some c"
  ultimately have "waits_after cfg (calls s i) e" by (auto simp: restart_def split: if_splits)
  then show ?thesis by (cases "calls s i") simp_all
qed (auto split: if_splits)

lemma waits_step:
  assumes "thread_step cfg p i s = Some s'" and "ctrl_of (threads s' i) = Some c" and "ctrl_of (threads s i) = None"
  shows "wait_on_retry cfg"
proof (cases "threads s i")
  case (Running tx fs q)
  with assms(1) have b: "body_step cfg p i tx fs q s = Some s'" by (simp add: thread_step_def)
  show ?thesis
  proof (cases q)
    case (Perform op k)
    with b have "body_step cfg p i tx fs (Perform op k) s = Some s'" by simp
    then show ?thesis using assms(2) by (cases rule: perform_cases) simp_all
  next
    case (Return x)
    with b have "s' = body_ends cfg p i tx fs (Inr x) s" by simp
    with waits_body_ends assms(2) show ?thesis by blast
  next
    case (Raise e)
    with b have "s' = body_ends cfg p i tx fs (Inl e) s" by simp
    with waits_body_ends assms(2) show ?thesis by blast
  qed (use b assms(2) in auto)
next
  case (Locking v tx rs rv wv wr)
  show ?thesis
  proof (cases rs)
    case Nil
    with assms Locking show ?thesis by (auto simp: thread_step_def)
  next
    case (Cons r rs')
    obtain k l where r: "r = (k, l)" by (cases r)
    with assms(1) Locking Cons have "lock_step i v tx k l rs' rv wv wr s = Some s'" by (simp add: thread_step_def)
    then show ?thesis using assms(2) by (cases rule: lock_step_cases) simp_all
  qed
qed (use assms in \<open>auto simp: thread_step_defs restart_def finish_def split: list.splits if_splits\<close>)

interpretation waits: system_invariant cfg p "\<lambda>s. \<forall>i. ctrl_of (threads s i) = None \<or> wait_on_retry cfg" for cfg p
proof
  fix s :: "'a system"
  assume start: "initial p s"
  have "ctrl_of (threads s i) = None" for i
    using start by (cases rule: initial_threads [where i = i]) simp_all
  then show "\<forall>i. ctrl_of (threads s i) = None \<or> wait_on_retry cfg" by blast
next
  fix s s' :: "'a system" and i
  assume inv: "\<forall>i. ctrl_of (threads s i) = None \<or> wait_on_retry cfg" and step: "thread_step cfg p i s = Some s'"
  show "\<forall>j. ctrl_of (threads s' j) = None \<or> wait_on_retry cfg"
  proof
    fix j
    show "ctrl_of (threads s' j) = None \<or> wait_on_retry cfg"
      using inv waits_step [OF step] thread_step_others [OF step, of j] by (cases "j = i") (metis not_Some_eq)+
  qed
qed auto

text \<open>A flag is cleared only by a wake-up.\<close>

lemma blocked_kept:
  assumes "thread_step cfg p i s = Some s'" and "ctrl_blocked c (shared s)"
    and "ctrl_of (threads s i) \<noteq> Some c" and "c < next_ctrl (shared s)"
    and "\<And>v cs wr. threads s i \<noteq> Waking v (c # cs) wr"
  shows "ctrl_blocked c (shared s')"
proof (cases "threads s i")
  case (Running tx fs q)
  from running_step_waiting(2) [OF assms(1) this] assms(2,4) show ?thesis by (auto simp: ctrl_blocked_def)
next
  case (Locking v tx rs rv wv wr)
  from locking_step_waiting [OF assms(1) this] assms(2) show ?thesis by simp
next
  case (Waking v cs wr)
  show ?thesis
  proof (cases cs)
    case Nil
    with assms(1,2) Waking show ?thesis
      by (cases wr) (auto simp: thread_step_def ctrl_blocked_def split: option.splits)
  next
    case (Cons d cs')
    then have "d \<noteq> c" using assms(5) Waking by blast
    with assms(1,2) Waking Cons show ?thesis by (auto simp: thread_step_def ctrl_blocked_def)
  qed
qed (use assms(1-3) in \<open>auto simp: step_split_simps split: list.splits if_splits option.splits\<close>)

section \<open>Fresh threads\<close>

text \<open>
  A program that does not ask to be started again at once: it never raises \<open>Failure\<close>, which is for the
  library, and it raises \<open>Retry\<close> only where that waits (\<open>w\<close>, the feature \<open>wait-on-retry\<close>) or leads to
  the second alternative of an \<open>or\<close>.
\<close>

primrec no_spin :: "'v prog \<Rightarrow> bool \<Rightarrow> bool" where
  "no_spin (Return v) w \<longleftrightarrow> True"
| "no_spin (Raise e) w \<longleftrightarrow> e = Retry \<and> w"
| "no_spin (Perform b k) w \<longleftrightarrow> (\<forall>r. no_spin (k r) w)"
| "no_spin (OrElse p q k) w \<longleftrightarrow> no_spin p True \<and> no_spin q w \<and> (\<forall>v. no_spin (k v) w)"

text \<open>Within the frames \<open>fs\<close> a retry leads to a second alternative, or it waits.\<close>

fun may_retry :: "bool \<Rightarrow> 'v frame list \<Rightarrow> bool" where
  "may_retry w [] \<longleftrightarrow> w"
| "may_retry w (InFirst backup q k # fs) \<longleftrightarrow> True"
| "may_retry w (InSecond first_vars k # fs) \<longleftrightarrow> may_retry w fs"

fun frames_no_spin :: "bool \<Rightarrow> 'v frame list \<Rightarrow> bool" where
  "frames_no_spin w [] \<longleftrightarrow> True"
| "frames_no_spin w (InFirst backup q k # fs) \<longleftrightarrow>
     no_spin q (may_retry w fs) \<and> (\<forall>v. no_spin (k v) (may_retry w fs)) \<and> frames_no_spin w fs"
| "frames_no_spin w (InSecond first_vars k # fs) \<longleftrightarrow>
     (\<forall>v. no_spin (k v) (may_retry w fs)) \<and> frames_no_spin w fs"

definition current :: "'v system \<Rightarrow> (block \<times> 'v arc) list \<Rightarrow> bool" where
  "current s es \<longleftrightarrow> (\<forall>(k, v) \<in> set es. abs_mem s k = v)"

lemma current_simps [simp]:
  "current s []" "current s ((k, v) # es) \<longleftrightarrow> abs_mem s k = v \<and> current s es"
  by (simp_all add: current_def)

fun fresh_attempt :: "bool \<Rightarrow> 'v system \<Rightarrow> 'v thread_state \<Rightarrow> bool" where
  "fresh_attempt w s (Running tx fs q) \<longleftrightarrow> attempt_up_to_date s (Running tx fs q) \<and>
     no_spin q (may_retry w fs) \<and> frames_no_spin w fs"
| "fresh_attempt w s (Locking v tx rs rv wv wr) \<longleftrightarrow> up_to_date s (vars tx)"
| "fresh_attempt w s (Registering tx c es reads) \<longleftrightarrow> ctrl_blocked c (shared s) \<and> current s es"
| "fresh_attempt w s (Comparing tx c k v es reads) \<longleftrightarrow> ctrl_blocked c (shared s) \<and> current s ((k, v) # es)"
| "fresh_attempt w s (Parked tx c reads) \<longleftrightarrow> ctrl_blocked c (shared s)"
| "fresh_attempt w s (BackingOut tx ls) \<longleftrightarrow> False"
| "fresh_attempt w s (Dying tx c reads) \<longleftrightarrow> False"
| "fresh_attempt w s (Cleaning tx c k reads) \<longleftrightarrow> False"
| "fresh_attempt w s _ \<longleftrightarrow> True"

lemma fresh_cong:
  assumes "abs_mem s' = abs_mem s"
    and "\<And>c. ctrl_of st = Some c \<Longrightarrow> ctrl_blocked c (shared s) \<Longrightarrow> ctrl_blocked c (shared s')"
    and "fresh_attempt w s st"
  shows "fresh_attempt w s' st"
  using assms by (cases st) (auto simp: up_to_date_def current_def)

lemma fresh_restart: "no_spin (p i) w \<Longrightarrow> fresh_attempt w s (restart p i tx)"
  by (simp add: restart_def Transaction_clear_def)

lemma fresh_not_restarts:
  assumes "fresh_attempt (wait_on_retry cfg) s st"
  shows "\<not> restarts cfg c st"
proof -
  have "wait_on_retry cfg \<Longrightarrow> waits_after cfg c Retry" by (cases c) simp_all
  with assms show ?thesis by (cases "(cfg, c, st)" rule: restarts.cases) auto
qed

text \<open>An operation finds a conflict only if the log is out of date.\<close>

lemma op_conflict:
  assumes "op_body cfg b tx w = (Inr (Inl e, tx'), w')"
  shows "loads cfg b tx \<and> (\<exists>v. map_of (vars tx) (op_key b) = Some (Read v) \<and> \<not> ptr_eq v (mem w (op_key b)))"
proof -
  have entry: "early_conflict_detection cfg \<and>
      (\<exists>v. map_of (vars tx) (control_block_of var) = Some (Read v) \<and> \<not> ptr_eq v (mem w1 (control_block_of var)))"
    if "early_conflict cfg var (entry_of var tx w1) w1" for var w1
    using that by (cases "map_of (vars tx) (control_block_of var)")
      (auto simp: entry_of_def early_conflict_iff ptr_eq_def)
  have "early_conflict_detection cfg \<and>
      (\<exists>v. map_of (vars tx) (op_key b) = Some (Read v) \<and> \<not> ptr_eq v (mem w (op_key b)))"
  proof (cases b)
    case (ExchangeOp var x)
    let ?w1 = "w\<lparr>next_arc := Suc (next_arc w)\<rparr>"
    have "early_conflict cfg var (entry_of var tx w) ?w1"
      using assms ExchangeOp
      by (auto simp: TVar_ops and_then_def lift_result_def op_eqs Let_def split: if_splits sum.splits)
    moreover have "entry_of var tx w = entry_of var tx ?w1" by (simp add: entry_of_def split: option.split)
    ultimately have "early_conflict cfg var (entry_of var tx ?w1) ?w1" by (simp only:)
    from entry [OF this] ExchangeOp show ?thesis by simp
  qed (use assms entry in \<open>auto simp: TVar_ops and_then_def lift_result_def op_eqs Let_def
      split: if_splits sum.splits\<close>)
  moreover have "\<And>x v. b \<noteq> WriteOp x v"
    using assms by (auto simp: TVar_ops and_then_def lift_result_def op_eqs Let_def)
  ultimately show ?thesis by (cases b) (auto simp: loads_def)
qed

text \<open>A fresh thread stays fresh by its own steps.\<close>

lemma fresh_body_ends:
  assumes "fresh_attempt (wait_on_retry cfg) s (Running tx fs q)" and "q = (case r of Inr v \<Rightarrow> Return v | Inl e \<Rightarrow> Raise e)"
    and "wf_thread cfg (Running tx fs q)"
    and "abs_mem (body_ends cfg p i tx fs r s) = abs_mem s"
  shows "fresh_attempt (wait_on_retry cfg) (body_ends cfg p i tx fs r s) (threads (body_ends cfg p i tx fs r s) i)"
proof -
  have reads: "current s (read_values (vars tx))"
    using assms(1,3) by (auto simp: current_def set_read_values up_to_date_def reg_wf_distinct)
  have waits: "wait_on_retry cfg \<Longrightarrow> waits_after cfg (calls s i) Retry" by (cases "calls s i") simp_all
  have "attempt_up_to_date s (threads (body_ends cfg p i tx fs r s) i)"
    using assms(1,3) by (intro body_ends_up_to_date) simp_all
  then have up: "attempt_up_to_date (body_ends cfg p i tx fs r s) (threads (body_ends cfg p i tx fs r s) i)"
    using attempt_cong [OF assms(4)] by simp
  from assms(1,2) up show ?thesis
  proof (cases rule: body_ends_cases [of fs r])
    case (wait_or_restart e)
    with assms(1,2) have e: "e = Retry" "wait_on_retry cfg" by simp_all
    have "current (body_ends cfg p i tx fs r s) (read_values (vars tx))"
      using reads by (simp add: current_def assms(4))
    with wait_or_restart e waits show ?thesis by (simp add: Let_def ctrl_blocked_def ControlBlock_new_def)
  qed (auto split: if_splits)
qed

lemma fresh_step:
  assumes reach: "reachable cfg p s" and step: "thread_step cfg p i s = Some s'" and "\<not> commits s i"
    and fresh: "fresh_attempt (wait_on_retry cfg) s (threads s i)"
  shows "fresh_attempt (wait_on_retry cfg) s' (threads s' i)"
proof -
  have mem: "abs_mem s' = abs_mem s"
    using abs_mem_other_step [OF reach step assms(3)] by (simp add: fun_eq_iff)
  note wf = reachable_wf [OF reach, of i]
  show ?thesis
  proof (cases "threads s i")
    case (Running tx fs q)
    with step have b: "body_step cfg p i tx fs q s = Some s'" by (simp add: thread_step_def)
    have up: "attempt_up_to_date s' (threads s' i)"
      using attempt_step [OF step wf] fresh Running by (simp add: attempt_cong [OF mem])
    note ends = fresh_body_ends [OF fresh [unfolded Running] _ wf [unfolded Running], of _ p i]
    show ?thesis
    proof (cases q)
      case (Perform op k)
      with b have "body_step cfg p i tx fs (Perform op k) s = Some s'" by simp
      then show ?thesis
      proof (cases rule: perform_cases)
        case (error e tx' w)
        with op_conflict [OF error(1)] fresh Running readable_settled [of s "op_key op"]
        have False by (auto simp: up_to_date_def can_read_def ptr_eq_def)
        then show ?thesis ..
      next
        case (ok r tx' w)
        with up fresh Running Perform show ?thesis by simp
      qed simp
    next
      case (Return x)
      with b ends [of "Inr x"] mem show ?thesis by simp
    next
      case (Raise e)
      with b ends [of "Inl e"] mem show ?thesis by simp
    next
      case (OrElse q1 q2 k)
      with b up fresh Running show ?thesis by auto
    qed
  next
    case (Locking v tx rs rv wv wr)
    have up: "attempt_up_to_date s' (threads s' i)"
      using attempt_step [OF step wf] fresh Locking by (simp add: attempt_cong [OF mem])
    obtain k l rs' where "rs = (k, l) # rs'"
      using assms(3) Locking by (cases rs) (auto simp: commits_def)
    with step Locking have "lock_step i v tx k l rs' rv wv wr s = Some s'" by (simp add: thread_step_def)
    then show ?thesis using up by (cases rule: lock_step_cases) simp_all
  next
    case (Comparing tx c k v es reads)
    with step fresh mem readable_settled [of s k] show ?thesis
      by (auto simp: thread_step_def can_read_def ptr_eq_def current_def split: if_splits)
  next
    case (Registering tx c es reads)
    with step fresh mem show ?thesis
      by (auto simp: thread_step_def current_def VarControlBlock_wait_def ctrl_blocked_def split: list.splits)
  qed (use step fresh in \<open>auto simp: thread_step_def finish_def split: list.splits if_splits\<close>)
qed

text \<open>The other threads keep it fresh, unless they commit or wake a thread up.\<close>

lemma fresh_other:
  assumes reach: "reachable cfg p s" and step: "thread_step cfg p i s = Some s'" and "\<not> commits s i"
    and "waking (threads s i) = []" and "j \<noteq> i" and fresh: "fresh_attempt w s (threads s j)"
  shows "fresh_attempt w s' (threads s' j)"
proof -
  have mem: "abs_mem s' = abs_mem s"
    using abs_mem_other_step [OF reach step assms(3)] by (simp add: fun_eq_iff)
  have "ctrl_blocked c (shared s')" if "ctrl_of (threads s j) = Some c" "ctrl_blocked c (shared s)" for c
  proof (rule blocked_kept [OF step that(2)])
    show "ctrl_of (threads s i) \<noteq> Some c" "c < next_ctrl (shared s)"
      using ctrls.invariant [OF reach] that(1) assms(5) by (auto simp: ctrls_apart_def)
    show "threads s i \<noteq> Waking v (c # cs) wr" for v cs wr using assms(4) by auto
  qed
  from fresh_cong [OF mem this fresh] thread_step_others [OF step assms(5)] show ?thesis by simp
qed

end
