(* ===== verification/Termination_Properties.thy ===== *)
theory Termination_Properties
  imports Fresh_Attempts
begin

text \<open>
  Every run ends.  Five quantities, in this order, go down with every step: the number of threads that
  have not committed; the variables whose waiting threads are still to be treated; the threads still
  to be woken up; the threads that are not fresh; the ranks of the threads.
\<close>

section \<open>The measure\<close>

definition uncommitted :: "nat set \<Rightarrow> 'v system \<Rightarrow> nat" where
  "uncommitted F s = card {i \<in> F. committed_value (threads s i) = None}"

definition to_treat :: "nat set \<Rightarrow> 'v system \<Rightarrow> nat" where
  "to_treat F s = (\<Sum>i \<in> F. length (wakes (threads s i)))"

definition to_wake :: "nat set \<Rightarrow> 'v system \<Rightarrow> nat" where
  "to_wake F s = (\<Sum>i \<in> F. length (waking (threads s i)))"

definition stale :: "bool \<Rightarrow> nat set \<Rightarrow> 'v system \<Rightarrow> nat" where
  "stale w F s = card {i \<in> F. \<not> fresh_attempt w s (threads s i)}"

definition ranks :: "nat set \<Rightarrow> 'v system \<Rightarrow> 'v thread_state multiset" where
  "ranks F s = image_mset (threads s) (mset_set F)"

definition run_rel :: "bool \<Rightarrow> nat set \<Rightarrow> ('v system \<times> 'v system) set" where
  "run_rel w F = inv_image (less_than <*lex*> less_than <*lex*> less_than <*lex*> less_than <*lex*> mult1 thread_rel)
     (\<lambda>s. (uncommitted F s, to_treat F s, to_wake F s, stale w F s, ranks F s))"

lemma wf_run_rel: "wf (run_rel w F)"
  unfolding run_rel_def by (intro wf_inv_image wf_lex_prod wf_less_than wf_mult1 wf_thread_rel)

lemma run_relI:
  assumes "uncommitted F s' \<le> uncommitted F s"
    and "uncommitted F s' = uncommitted F s \<Longrightarrow> to_treat F s' \<le> to_treat F s"
    and "uncommitted F s' = uncommitted F s \<Longrightarrow> to_treat F s' = to_treat F s \<Longrightarrow> to_wake F s' \<le> to_wake F s"
    and "uncommitted F s' = uncommitted F s \<Longrightarrow> to_treat F s' = to_treat F s \<Longrightarrow> to_wake F s' = to_wake F s \<Longrightarrow>
      stale w F s' < stale w F s \<or> stale w F s' \<le> stale w F s \<and> (ranks F s', ranks F s) \<in> mult1 thread_rel"
  shows "(s', s) \<in> run_rel w F"
  using assms by (auto simp: run_rel_def)

text \<open>A step that changes one thread.\<close>

definition changes_only :: "nat \<Rightarrow> nat set \<Rightarrow> 'v system \<Rightarrow> 'v system \<Rightarrow> bool" where
  "changes_only i F s s' \<longleftrightarrow> finite F \<and> i \<in> F \<and> (\<forall>j. j \<noteq> i \<longrightarrow> threads s' j = threads s j)"

lemma sum_one:
  assumes "changes_only i F s s'"
  shows "(\<Sum>j \<in> F. f (threads s' j)) + f (threads s i) = (\<Sum>j \<in> F. f (threads s j)) + (f (threads s' i) :: nat)"
proof -
  have fin: "finite F" "i \<in> F" using assms by (simp_all add: changes_only_def)
  have "(\<Sum>j \<in> F - {i}. f (threads s' j)) = (\<Sum>j \<in> F - {i}. f (threads s j))"
    by (rule sum.cong) (use assms in \<open>auto simp: changes_only_def\<close>)
  then show ?thesis
    using sum.remove [OF fin, of "\<lambda>j. f (threads s' j)"] sum.remove [OF fin, of "\<lambda>j. f (threads s j)"] by simp
qed

lemma to_treat_one:
  "changes_only i F s s' \<Longrightarrow>
   to_treat F s' + length (wakes (threads s i)) = to_treat F s + length (wakes (threads s' i))"
  unfolding to_treat_def by (rule sum_one)

lemma to_wake_one:
  "changes_only i F s s' \<Longrightarrow>
   to_wake F s' + length (waking (threads s i)) = to_wake F s + length (waking (threads s' i))"
  unfolding to_wake_def by (rule sum_one)

lemma ranks_one:
  assumes "changes_only i F s s'" and "(threads s' i, threads s i) \<in> thread_rel"
  shows "(ranks F s', ranks F s) \<in> mult1 thread_rel"
proof -
  let ?M = "image_mset (threads s) (mset_set (F - {i}))"
  have "image_mset (threads s') (mset_set (F - {i})) = ?M"
    by (rule image_mset_cong) (use assms(1) in \<open>auto simp: changes_only_def\<close>)
  moreover have "mset_set F = add_mset i (mset_set (F - {i}))"
    using assms(1) by (simp add: mset_set.remove changes_only_def)
  ultimately have "ranks F s' = ?M + {#threads s' i#}" "ranks F s = add_mset (threads s i) ?M"
    by (simp_all add: ranks_def)
  with assms(2) show ?thesis by (intro mult1I [of _ "threads s i" ?M _ "{#threads s' i#}"]) simp_all
qed

lemma card_one:
  assumes "finite F" and "\<And>j. j \<in> F \<Longrightarrow> P' j \<Longrightarrow> P j"
  shows "card {j \<in> F. P' j} \<le> card {j \<in> F. P j}"
    and "i \<in> F \<Longrightarrow> P i \<Longrightarrow> \<not> P' i \<Longrightarrow> card {j \<in> F. P' j} < card {j \<in> F. P j}"
proof -
  have sub: "{j \<in> F. P' j} \<subseteq> {j \<in> F. P j}" and fin: "finite {j \<in> F. P j}" using assms by auto
  then show "card {j \<in> F. P' j} \<le> card {j \<in> F. P j}" by (simp add: card_mono)
  assume "i \<in> F" and "P i" and "\<not> P' i"
  with sub have "{j \<in> F. P' j} \<subset> {j \<in> F. P j}" by blast
  with fin show "card {j \<in> F. P' j} < card {j \<in> F. P j}" by (rule psubset_card_mono)
qed

section \<open>Every step goes down\<close>

lemma wakes_step:
  assumes "thread_step cfg p i s = Some s'" and "\<not> commits s i"
  shows "length (wakes (threads s' i)) < length (wakes (threads s i)) \<or>
    length (wakes (threads s' i)) = length (wakes (threads s i)) \<and>
      (length (waking (threads s' i)) < length (waking (threads s i)) \<or>
       waking (threads s i) = [] \<and> waking (threads s' i) = [] \<and>
         (\<forall>v cs wr. threads s i = Waking v cs wr \<longrightarrow> cs = [] \<and> wr = []))"
proof (cases "threads s i")
  case (Running tx fs q)
  with assms have b: "body_step cfg p i tx fs q s = Some s'" by (simp add: thread_step_def)
  show ?thesis
  proof (cases q)
    case (Perform op k)
    with b have "body_step cfg p i tx fs (Perform op k) s = Some s'" by simp
    then show ?thesis using Running by (cases rule: perform_cases) simp_all
  next
    case (Return x)
    with b Running body_ends_waiting(2,3) [of cfg p i tx fs "Inr x" s] show ?thesis by simp
  next
    case (Raise e)
    with b Running body_ends_waiting(2,3) [of cfg p i tx fs "Inl e" s] show ?thesis by simp
  qed (use b Running in auto)
next
  case (Locking v tx rs rv wv wr)
  with assms(2) obtain k l rs' where "rs = (k, l) # rs'" by (cases rs) (auto simp: commits_def)
  with assms(1) Locking have "lock_step i v tx k l rs' rv wv wr s = Some s'" by (simp add: thread_step_def)
  then show ?thesis using Locking by (cases rule: lock_step_cases) simp_all
qed (use assms in \<open>auto simp: thread_step_defs restart_def finish_def split: list.splits if_splits\<close>)

lemma step_goes_down:
  assumes reach: "reachable cfg p s" and step: "thread_step cfg p i s = Some s'"
    and prog: "no_spin (p i) (wait_on_retry cfg)" and fin: "finite F" and i: "i \<in> F"
  shows "(s', s) \<in> run_rel (wait_on_retry cfg) F"
proof -
  note others = thread_step_others [OF step]
  have one: "changes_only i F s s'" using fin i others by (simp add: changes_only_def)
  have keeps: "committed_value (threads s' j) = None \<Longrightarrow> committed_value (threads s j) = None" for j
    using committed_step [OF step] others [of j] by (cases "j = i") fastforce+
  have uncommitted: "uncommitted F s' \<le> uncommitted F s"
    "committed_value (threads s i) = None \<Longrightarrow> committed_value (threads s' i) \<noteq> None \<Longrightarrow>
      uncommitted F s' < uncommitted F s"
    unfolding uncommitted_def by (rule card_one [OF fin]; use keeps i in blast)+
  show ?thesis
  proof (cases "commits s i")
    case True
    then obtain v tx rv wv wr where st: "threads s i = Locking v tx [] rv wv wr" by (auto simp: commits_def)
    then have "threads s' i = Releasing v rv wv wr" using step by (auto simp: thread_step_def)
    with uncommitted(2) st have "uncommitted F s' < uncommitted F s" by simp
    then show ?thesis by (intro run_relI) simp_all
  next
    case False
    note down = wakes_step [OF step False]
    have treat: "to_treat F s' \<le> to_treat F s" using to_treat_one [OF one] down by linarith
    have wake: "to_wake F s' \<le> to_wake F s \<and>
        (to_wake F s' = to_wake F s \<longrightarrow> waking (threads s i) = [] \<and>
          (\<forall>v cs wr. threads s i = Waking v cs wr \<longrightarrow> cs = [] \<and> wr = []))"
      if "to_treat F s' = to_treat F s"
    proof -
      from that to_treat_one [OF one] have "length (wakes (threads s' i)) = length (wakes (threads s i))" by linarith
      with down to_wake_one [OF one] show ?thesis by auto
    qed
    have rest: "stale (wait_on_retry cfg) F s' < stale (wait_on_retry cfg) F s \<or> stale (wait_on_retry cfg) F s' \<le> stale (wait_on_retry cfg) F s \<and> (ranks F s', ranks F s) \<in> mult1 thread_rel"
      if idle: "waking (threads s i) = []" "\<And>v cs wr. threads s i = Waking v cs wr \<Longrightarrow> cs = [] \<and> wr = []"
    proof -
      have "fresh_attempt (wait_on_retry cfg) s' (threads s' j)" if "fresh_attempt (wait_on_retry cfg) s (threads s j)" for j
        using that fresh_step [OF reach step False] fresh_other [OF reach step False idle(1)] by (cases "j = i") simp_all
      then have keep: "\<not> fresh_attempt (wait_on_retry cfg) s' (threads s' j) \<Longrightarrow> \<not> fresh_attempt (wait_on_retry cfg) s (threads s j)" for j by blast
      have stale: "stale (wait_on_retry cfg) F s' \<le> stale (wait_on_retry cfg) F s"
        "\<not> fresh_attempt (wait_on_retry cfg) s (threads s i) \<Longrightarrow> fresh_attempt (wait_on_retry cfg) s' (threads s' i) \<Longrightarrow> stale (wait_on_retry cfg) F s' < stale (wait_on_retry cfg) F s"
        unfolding stale_def by (rule card_one [OF fin]; use keep i in blast)+
      show ?thesis
      proof (cases "restarts cfg (calls s i) (threads s i)")
        case True
        then have "\<not> fresh_attempt (wait_on_retry cfg) s (threads s i)" using fresh_not_restarts by blast
        moreover obtain tx where "threads s' i = restart p i tx" by (rule restart_step [OF step True])
        ultimately show ?thesis using stale(2) fresh_restart [of p i "wait_on_retry cfg" s' tx] prog by simp
      next
        case False
        have "(threads s' i, threads s i) \<in> thread_rel"
          by (rule rank_step [OF step False]) (rule idle(2))
        from ranks_one [OF one this] stale(1) show ?thesis by blast
      qed
    qed
    show ?thesis using uncommitted(1) treat wake rest by (intro run_relI) auto
  qed
qed

lemma give_up_goes_down:
  assumes st: "threads s i = Running tx [] (Raise e)" and fin: "finite F" and i: "i \<in> F"
  shows "(set_thread i (Stopped Abandoned) s, s) \<in> run_rel w F"
proof (rule run_relI)
  let ?s = "set_thread i (Stopped Abandoned) s"
  have one: "changes_only i F s ?s" using fin i by (simp add: changes_only_def)
  show "uncommitted F ?s \<le> uncommitted F s"
    unfolding uncommitted_def by (rule card_one [OF fin]) (use st in \<open>simp split: if_splits\<close>)
  show "to_treat F ?s \<le> to_treat F s" using to_treat_one [OF one] st by simp
  show "to_wake F ?s \<le> to_wake F s" using to_wake_one [OF one] st by simp
  have "abs_mem ?s = abs_mem s" by (rule abs_mem_idle) (use st in simp_all)
  then have "fresh_attempt w s (threads s j) \<Longrightarrow> fresh_attempt w ?s (threads ?s j)" for j
    by (cases "j = i") (auto elim: fresh_cong [rotated -1])
  then have "stale w F ?s \<le> stale w F s" unfolding stale_def by (intro card_one [OF fin]) blast
  moreover have "(ranks F ?s, ranks F s) \<in> mult1 thread_rel"
    by (rule ranks_one [OF one]) (use st in \<open>simp add: thread_rel_phase\<close>)
  ultimately show "stale w F ?s < stale w F s \<or> stale w F ?s \<le> stale w F s \<and> (ranks F ?s, ranks F s) \<in> mult1 thread_rel"
    by simp
qed

text \<open>The threads that can ever move.\<close>

definition movers :: "nat set \<Rightarrow> 'v system \<Rightarrow> bool" where
  "movers F s \<longleftrightarrow> finite F \<and> (\<forall>i. i \<notin> F \<longrightarrow> (\<exists>v. threads s i = Finished v))"

definition run_step :: "config \<Rightarrow> (nat \<Rightarrow> 'v prog) \<Rightarrow> 'v system \<Rightarrow> 'v system \<Rightarrow> bool" where
  "run_step cfg p s s' \<longleftrightarrow> (\<exists>l. step cfg p s l s' \<and> (\<forall>var v. l \<noteq> AtomicWrite var v))"

lemma run_step_down:
  assumes "reachable cfg p s" and "\<And>i. no_spin (p i) (wait_on_retry cfg)" and "movers F s"
    and "run_step cfg p s s'"
  shows "(s', s) \<in> run_rel (wait_on_retry cfg) F" and "movers F s'"
proof -
  from assms(4) obtain l where l: "step cfg p s l s'" "\<And>var v. l \<noteq> AtomicWrite var v" by (auto simp: run_step_def)
  have fin: "finite F" and out: "\<And>i. i \<notin> F \<Longrightarrow> \<exists>v. threads s i = Finished v"
    using assms(3) by (simp_all add: movers_def)
  from l have "(s', s) \<in> run_rel (wait_on_retry cfg) F \<and> movers F s'"
  proof (cases rule: step.cases)
    case (thread i)
    have "i \<in> F"
    proof (rule ccontr)
      assume "i \<notin> F"
      with out [of i] thread(2) show False by (auto simp: thread_step_def)
    qed
    with step_goes_down [OF assms(1) thread(2) assms(2) fin] thread_step_others [OF thread(2)] fin out
    show ?thesis by (metis movers_def)
  next
    case (give_up i tx e)
    then have "i \<in> F" using out [of i] by auto
    with give_up_goes_down [OF give_up(3) fin] give_up fin out show ?thesis by (auto simp: movers_def)
  qed (use l in blast)
  then show "(s', s) \<in> run_rel (wait_on_retry cfg) F" and "movers F s'" by simp_all
qed

lemma reachable_movers: "reachable cfg p s \<Longrightarrow> movers {i. \<nexists>v. threads s i = Finished v} s"
  using reachable_finite by (auto simp: movers_def)

lemma no_endless_run:
  assumes "reachable cfg p s" and "\<And>i. no_spin (p i) (wait_on_retry cfg)"
  shows "\<not> (\<exists>run. run 0 = s \<and> (\<forall>n. run_step cfg p (run n) (run (Suc n))))"
proof
  assume "\<exists>run. run 0 = s \<and> (\<forall>n. run_step cfg p (run n) (run (Suc n)))"
  then obtain run where run: "run 0 = s" "\<And>n. run_step cfg p (run n) (run (Suc n))" by blast
  let ?F = "{i. \<nexists>v. threads s i = Finished v}"
  have inv: "reachable cfg p (run n) \<and> movers ?F (run n)" for n
  proof (induction n)
    case 0
    with run(1) assms(1) reachable_movers show ?case by blast
  next
    case (Suc n)
    with run_step_down(2) [OF _ assms(2) _ run(2)] run(2) [of n] show ?case
      by (auto simp: run_step_def intro: reachable.steps)
  qed
  have "(run (Suc n), run n) \<in> run_rel (wait_on_retry cfg) ?F" for n
    using run_step_down(1) [OF _ assms(2) _ run(2)] inv by blast
  with wf_run_rel [of "wait_on_retry cfg" ?F] show False unfolding wf_iff_no_infinite_down_chain by blast
qed

text \<open>C8: no livelock: whatever the order in which the threads take their steps, they take only finitely
  many, if no body raises \<open>Failure\<close> itself, nor, without the feature \<open>wait-on-retry\<close>, a \<open>Retry\<close> that
  no second alternative catches, and if nobody calls \<open>write_atomic\<close> for ever.  So every run comes to a state in which every thread has returned, has
  panicked, or is parked; the attempts that fail are only repeated as often as other threads commit.\<close>

theorem every_run_ends:
  assumes "reachable cfg p s" and "\<And>i. no_spin (p i) (wait_on_retry cfg)"
  shows "\<not> (\<exists>run. run 0 = s \<and> (\<forall>n. run_step cfg p (run n) (run (Suc n))))"
  by (rule no_endless_run [OF assms])

theorem every_run_ends_witness:
  "\<not> (\<exists>run. run 0 = demo_system inc_prog 2 \<and> (\<forall>n. run_step default_config inc_prog (run n) (run (Suc n))))"
  by (rule every_run_ends [OF reachable.start [OF initial_demo]]) (simp_all add: inc_prog_def)

end
