(* ===== verification/Outcome_Properties.thy ===== *)
theory Outcome_Properties
  imports Termination_Properties Cancel_Properties Typing_Properties Wakeup_Properties
begin

text \<open>
  Total correctness of interleaved transactions: every run ends, and without \<open>or\<close> it ends as if the
  transactions that have committed had run one after another, with nobody parked, except by
  \<open>with_err\<close>, whose transaction could go on.  With \<open>or\<close> the choice of an alternative may be out of date.
\<close>

section \<open>Runs that end\<close>

definition always_ends_in :: "config \<Rightarrow> (nat \<Rightarrow> 'v prog) \<Rightarrow> 'v system \<Rightarrow> ('v system \<Rightarrow> bool) \<Rightarrow> bool" where
  "always_ends_in cfg p s0 P \<longleftrightarrow>
     \<not> (\<exists>run. run 0 = s0 \<and> (\<forall>n. run_step cfg p (run n) (run (Suc n)))) \<and>
     (\<forall>s. (run_step cfg p)\<^sup>*\<^sup>* s0 s \<and> (\<nexists>s'. run_step cfg p s s') \<longrightarrow> P s)"

lemma always_ends_in_mono: "always_ends_in cfg p s0 P \<Longrightarrow> (\<And>s. P s \<Longrightarrow> Q s) \<Longrightarrow> always_ends_in cfg p s0 Q"
  by (auto simp: always_ends_in_def)

lemma run_execution:
  assumes "(run_step cfg p)\<^sup>*\<^sup>* s1 s" and "execution cfg p s0 h1 s1"
  shows "\<exists>h. execution cfg p s0 (h1 @ h) s \<and> (\<forall>var v. Stored var v \<notin> set h)"
  using assms(1)
proof (induction rule: rtranclp_induct)
  case base
  with assms(2) show ?case by (intro exI [of _ "[]"]) simp
next
  case (step s s')
  then obtain h l where h: "execution cfg p s0 (h1 @ h) s" "\<And>var v. Stored var v \<notin> set h"
    and l: "step cfg p s l s'" "\<And>var v. l \<noteq> AtomicWrite var v"
    by (auto simp: run_step_def)
  have "Stored var v \<notin> set (events s l)" for var v
    using l(2) [of var v] by (cases l) (auto split: thread_state.splits list.splits)
  with h execution.continue [OF h(1) l(1)] show ?case by (intro exI [of _ "h @ events s l"]) simp
qed

lemma quiet_if_stuck: "(\<nexists>s'. run_step cfg p s s') \<Longrightarrow> thread_step cfg p i s = None"
  by (cases "thread_step cfg p i s") (auto simp: run_step_def dest: step.thread)

section \<open>The outcome of a run\<close>

text \<open>
  How a thread with the program \<open>q\<close> and the call \<open>c\<close> ends: it returns what its transaction has committed
  (\<open>vs\<close>); it returns without a commit, with the error of its body or since its control function gave
  up; or it is parked on values that are all still there, with a transaction that retries on them.
  (With an \<open>or\<close>, or after a failure of a body that \<open>with_err\<close> runs, it may be parked although it could
  go on.)  A thread that was not started has nothing to commit.
\<close>

fun thread_outcome :: "'v prog \<Rightarrow> 'v call \<Rightarrow> bool \<Rightarrow> 'v list \<Rightarrow> 'v system \<Rightarrow> 'v thread_state \<Rightarrow> bool" where
  "thread_outcome q c started vs s (Finished v) \<longleftrightarrow> vs = (if started then [v] else [])"
| "thread_outcome q c started vs s (Stopped (Cancelled v)) \<longleftrightarrow> vs = [] \<and> aborts c v"
| "thread_outcome q c started vs s (Stopped Abandoned) \<longleftrightarrow> vs = [] \<and> has_control c"
| "thread_outcome q c started vs s (Parked tx cb reads) \<longleftrightarrow> vs = [] \<and>
     (\<forall>(k, v) \<in> set reads. value_of s k = v) \<and>
     (or_free q \<and> (\<forall>P. c \<noteq> WithErr P) \<longrightarrow> spec q (store (shared s)) = Inl Retry)"
| "thread_outcome q c started vs s _ \<longleftrightarrow> False"

text \<open>
  The state is that of a serial run of the transactions that have committed: by \<open>serial\<close>, in which the
  second alternative of an \<open>or\<close> may run although the first would not retry, and, when no program has
  an \<open>or\<close>, by \<open>serial_run\<close>, in which every transaction computes its specification.
\<close>

definition outcome_of :: "(nat \<Rightarrow> 'v prog) \<Rightarrow> 'v system \<Rightarrow> 'v event list \<Rightarrow> 'v system \<Rightarrow> bool" where
  "outcome_of p s0 h s \<longleftrightarrow>
     serial p h (store (shared s0)) (store (shared s)) \<and>
     ((\<forall>i. or_free (p i)) \<longrightarrow> serial_run p h (store (shared s0)) = Some (store (shared s))) \<and>
     (\<forall>var v. Stored var v \<notin> set h) \<and>
     (\<forall>i. thread_outcome (p i) (calls s0 i) (committed_value (threads s0 i) = None) (commits_of i h) s (threads s i))"

definition serial_outcome :: "(nat \<Rightarrow> 'v prog) \<Rightarrow> 'v system \<Rightarrow> 'v system \<Rightarrow> bool" where
  "serial_outcome p s0 s \<longleftrightarrow> (\<exists>h. outcome_of p s0 h s)"

lemma never_commits_again:
  assumes "execution cfg p s0 h s" and "committed_value (threads s0 i) \<noteq> None"
  shows "commits_of i h = []"
  using assms
proof (induction rule: execution.induct)
  case (continue h s l s')
  from continue.prems committed_stays [OF continue(1)] have "\<nexists>tx rv wv wr v. threads s i = Locking v tx [] rv wv wr"
    by fastforce
  then have "commits_of i (events s l) = []"
    by (cases l) (auto simp: commits_of_def map_filter_def split: thread_state.splits list.splits)
  with continue show ?case by simp
qed simp

lemma no_panic:
  assumes "execution cfg p s0 h s" and "world_typed ty (shared s0)" and "\<And>i. prog_typed ty (p i)"
    and "\<And>var v. Stored var v \<notin> set h"
  shows "threads s i \<noteq> Panicked flt"
proof
  assume "threads s i = Panicked flt"
  moreover have "thread_typed ty (threads s i)" using execution_typed [OF assms(1-3)] assms(4) by simp
  ultimately show False by simp
qed

lemma quiet_outcome:
  assumes exec: "execution cfg p s0 h s" and stored: "\<And>var v. Stored var v \<notin> set h"
    and quiet: "\<And>i. thread_step cfg p i s = None"
    and typed: "world_typed ty (shared s0)" "\<And>i. prog_typed ty (p i)"
  shows "outcome_of p s0 h s"
  unfolding outcome_of_def
proof (intro conjI allI)
  note reach = execution_reachable [OF exec]
  have cases: "(\<exists>v. threads s i = Finished v) \<or> (\<exists>r. threads s i = Stopped r) \<or>
      (\<exists>tx c reads. threads s i = Parked tx c reads)" for i
    using quiet_threads [OF reach quiet, of i] no_panic [OF exec typed stored, of i] by blast
  have "pending (threads s i) = (\<lambda>_. None)" for i using cases [of i] by (elim disjE exE) simp_all
  from abs_store_settled [of s, OF this] execution_serial [OF exec] execution_start [OF exec]
  show ser: "serial p h (store (shared s0)) (store (shared s))" by simp
  show "(\<forall>i. or_free (p i)) \<longrightarrow> serial_run p h (store (shared s0)) = Some (store (shared s))"
    using ser serial_or_free [of p] by blast
  show "Stored var v \<notin> set h" for var v by (rule stored)
  fix i
  have commits: "commits_of i h = (if committed_value (threads s0 i) = None
      then (case committed_value (threads s i) of None \<Rightarrow> [] | Some v \<Rightarrow> [v]) else [])"
    using execution_commits [OF exec, of i] never_commits_again [OF exec, of i] by simp
  show "thread_outcome (p i) (calls s0 i) (committed_value (threads s0 i) = None) (commits_of i h) s (threads s i)"
    using cases [of i]
  proof (elim disjE exE)
    fix v
    assume "threads s i = Finished v"
    with commits show ?thesis by simp
  next
    fix r
    assume st: "threads s i = Stopped r"
    with returns.invariant [OF reach, rule_format, of i] execution_calls [OF exec]
    have "returns_fit (calls s0 i) (Stopped r)" by simp
    with st commits show ?thesis by (cases r) simp_all
  next
    fix tx c reads
    assume st: "threads s i = Parked tx c reads"
    then have wait: "wait_on_retry cfg" using waits.invariant [OF reach, rule_format, of i] by simp
    have "value_of s k = v" if "(k, v) \<in> set reads" for k v
      by (rule quiet_reads_current [OF exec wait quiet st that]) (use stored in blast)
    with st parked_retries [OF exec wait quiet _ stored st] execution_calls [OF exec] commits show ?thesis by auto
  qed
qed

lemma runs_go_on:
  assumes exec: "execution cfg p s0 h1 s1" and stored: "\<And>var v. Stored var v \<notin> set h1"
    and "\<And>i. no_spin (p i) (wait_on_retry cfg)"
    and "world_typed ty (shared s0)" and "\<And>i. prog_typed ty (p i)"
  shows "always_ends_in cfg p s1 (\<lambda>s. \<exists>h. outcome_of p s0 (h1 @ h) s)"
  unfolding always_ends_in_def
proof (intro conjI allI impI)
  show "\<not> (\<exists>run. run 0 = s1 \<and> (\<forall>n. run_step cfg p (run n) (run (Suc n))))"
    by (rule no_endless_run [OF execution_reachable [OF exec] assms(3)])
  fix s
  assume "(run_step cfg p)\<^sup>*\<^sup>* s1 s \<and> (\<nexists>s'. run_step cfg p s s')"
  then have run: "(run_step cfg p)\<^sup>*\<^sup>* s1 s" and quiet: "\<And>i. thread_step cfg p i s = None"
    by (simp_all add: quiet_if_stuck)
  from run_execution [OF run exec] obtain h where h: "execution cfg p s0 (h1 @ h) s" "\<And>var v. Stored var v \<notin> set h"
    by blast
  have "outcome_of p s0 (h1 @ h) s"
    by (rule quiet_outcome [OF h(1) _ quiet assms(4,5)]) (use h(2) stored in simp)
  then show "\<exists>h. outcome_of p s0 (h1 @ h) s" by blast
qed

text \<open>C1: total correctness of concurrent transactions: let any number of threads run transactions with any
  of the four functions, whose bodies use their variables with the right types and raise no \<open>Failure\<close>
  nor, without the feature \<open>wait-on-retry\<close>, a \<open>Retry\<close> that no second alternative catches; and let
  nobody call \<open>write_atomic\<close>.  Then every run ends, whatever the order of the steps.  If no program has
  an \<open>or\<close>, there is in the end an order of the threads that have returned after a commit in which their
  transactions, run one after another from the values at the start, return what the threads have
  returned and leave the values that the variables hold.  With \<open>or\<close> the same holds, except that in this
  order a transaction may take a second alternative although the first one would not retry there.  A
  thread that has returned without a commit has returned the error of its body, or its control
  function gave up; and every other thread is parked, with its registered variables unchanged, and,
  if its program has no \<open>or\<close> and it has not called \<open>with_err\<close>, with a transaction that retries on the
  values that the variables hold.\<close>

theorem runs_end_serially:
  assumes "initial p s0" and "\<And>i. no_spin (p i) (wait_on_retry cfg)"
    and "world_typed ty (shared s0)" and "\<And>i. prog_typed ty (p i)"
  shows "always_ends_in cfg p s0 (serial_outcome p s0)"
  using runs_go_on [OF execution.at_start [OF assms(1)] _ assms(2-4)] by (simp add: serial_outcome_def [abs_def])

theorem runs_end_serially_witness:
  "always_ends_in default_config inc_prog (demo_system inc_prog 2) (serial_outcome inc_prog (demo_system inc_prog 2))"
  by (rule runs_end_serially [where ty = "\<lambda>_. 0"]) (simp_all add: inc_prog_def world_typed_def)

end
