(* ===== verification/Lock_Policies.thy ===== *)
theory Lock_Policies
  imports Outcome_Properties
begin

text \<open>
  Which thread gets a free lock.  In the step relation a lock that is free is granted to whoever asks for
  it; the locks of the crate \<open>parking_lot\<close> are not so generous: a reader that asks for a lock which
  other readers hold has to queue if a writer is waiting.  Here the threads take their steps under any
  policy that may refuse a lock to some of those that ask for it, as long as it does not refuse a lock
  that nobody holds to all of them.  No such policy brings in a deadlock.
\<close>

section \<open>Policies\<close>

text \<open>The lock that a thread asks for in its next step.\<close>

fun wants :: "config \<Rightarrow> 'v thread_state \<Rightarrow> lock option" where
  "wants cfg (Running tx fs (Perform b k)) = (if loads cfg b tx then Some (ReadLock (op_key b)) else None)"
| "wants cfg (Locking v tx ((k, ReadObsolete x) # rs) rv wv wr) = None"
| "wants cfg (Locking v tx ((k, Read x) # rs) rv wv wr) = Some (ReadLock k)"
| "wants cfg (Locking v tx ((k, _) # rs) rv wv wr) = Some (WriteLock k)"
| "wants cfg (Comparing tx c k v es reads) = Some (ReadLock k)"
| "wants cfg _ = None"

definition wants_at :: "config \<Rightarrow> 'v system \<Rightarrow> block \<Rightarrow> nat \<Rightarrow> bool" where
  "wants_at cfg s k i \<longleftrightarrow> (\<exists>l. wants cfg (threads s i) = Some l \<and> lock_key l = k)"

text \<open>
  A policy tells which threads are refused what they ask for, in a state of the locks' own (\<open>'h\<close>, for
  instance their queues).
\<close>

type_synonym ('h, 'v) policy = "'h \<Rightarrow> 'v system \<Rightarrow> nat set"

locale lock_policy =
  fixes cfg :: config and refused :: "('h, 'v) policy"
  assumes someone_served: "can_read k s \<Longrightarrow> can_write k s \<Longrightarrow> wants_at cfg s k i \<Longrightarrow>
    \<exists>j. wants_at cfg s k j \<and> j \<notin> refused h s"

text \<open>The steps that a policy allows.\<close>

definition policy_step :: "config \<Rightarrow> (nat \<Rightarrow> 'v prog) \<Rightarrow> ('h, 'v) policy \<Rightarrow> 'h \<Rightarrow> 'v system \<Rightarrow> 'v system \<Rightarrow> bool" where
  "policy_step cfg p refused h s s' \<longleftrightarrow>
     (\<exists>i. (wants cfg (threads s i) = None \<or> i \<notin> refused h s) \<and> step cfg p s (ThreadStep i) s') \<or>
     (\<exists>i. step cfg p s (GiveUp i) s')"

lemma policy_step_run_step: "policy_step cfg p refused h s s' \<Longrightarrow> run_step cfg p s s'"
  by (auto simp: policy_step_def run_step_def)

text \<open>Every run under the policy ends, whatever becomes of the state of the locks, and where it ends, \<open>P\<close>
  holds.\<close>

definition always_ends_under ::
  "config \<Rightarrow> (nat \<Rightarrow> 'v prog) \<Rightarrow> ('h, 'v) policy \<Rightarrow> 'v system \<Rightarrow> ('v system \<Rightarrow> bool) \<Rightarrow> bool" where
  "always_ends_under cfg p refused s0 P \<longleftrightarrow>
     \<not> (\<exists>run hs. run 0 = s0 \<and> (\<forall>n. policy_step cfg p refused (hs n) (run n) (run (Suc n)))) \<and>
     (\<forall>s h. (\<lambda>s s'. \<exists>h. policy_step cfg p refused h s s')\<^sup>*\<^sup>* s0 s \<and> (\<nexists>s'. policy_step cfg p refused h s s') \<longrightarrow> P s)"

section \<open>No deadlock under a policy\<close>

lemma unheld_steps:
  assumes "wants_at cfg s k i" and "can_read k s" and "can_write k s"
  shows "thread_step cfg p i s \<noteq> None"
proof
  assume "thread_step cfg p i s = None"
  then show False using assms by (cases rule: no_step_cases) (auto simp: wants_at_def split: if_splits elim: wants.elims)
qed

lemma holder_wants:
  assumes "wf_thread cfg (threads s j)" and "l \<in> set (held (threads s j))"
    and "thread_step cfg p j s = None \<or> wants cfg (threads s j) \<noteq> None"
  shows "\<exists>k. wants_at cfg s k j \<and> lock_key l < k"
proof -
  have "\<exists>v tx k x rs rv wv wr. threads s j = Locking v tx ((k, x) # rs) rv wv wr \<and>
      wants cfg (threads s j) \<noteq> None"
    using assms(3)
  proof
    assume none: "thread_step cfg p j s = None"
    then show ?thesis
    proof (cases rule: no_step_cases)
      case (locking v tx k x rs rv wv wr)
      with none show ?thesis by (cases x) (simp_all add: thread_step_def)
    qed (use assms(2) in auto)
  next
    assume "wants cfg (threads s j) \<noteq> None"
    with assms(2) show ?thesis by (cases "(cfg, threads s j)" rule: wants.cases) auto
  qed
  then obtain v tx k x rs rv wv wr where st: "threads s j = Locking v tx ((k, x) # rs) rv wv wr"
    and some: "wants cfg (threads s j) \<noteq> None" by blast
  have "lock_key l < k" using held_below [of cfg v tx "(k, x) # rs" rv wv wr l k] assms(1,2) st by simp
  moreover have "wants_at cfg s k j" using some st by (cases x) (auto simp: wants_at_def)
  ultimately show ?thesis by blast
qed

lemma wants_at_finite:
  assumes "reachable cfg p s"
  shows "finite {k. \<exists>i. wants_at cfg s k i}"
proof (rule finite_surj [OF reachable_finite [OF assms]])
  show "{k. \<exists>i. wants_at cfg s k i} \<subseteq> (\<lambda>i. lock_key (the (wants cfg (threads s i)))) ` {i. \<nexists>v. threads s i = Finished v}"
  proof clarify
    fix k i
    assume "wants_at cfg s k i"
    then show "k \<in> (\<lambda>i. lock_key (the (wants cfg (threads s i)))) ` {i. \<nexists>v. threads s i = Finished v}"
      by (intro image_eqI [of _ _ i]) (auto simp: wants_at_def)
  qed
qed

context lock_policy begin

lemma requested_is_held:
  assumes "lock_inv s" and stuck: "\<nexists>s'. policy_step cfg p refused h s s'" and "wants_at cfg s k i"
  shows "\<exists>j l. l \<in> set (held (threads s j)) \<and> lock_key l = k"
proof (rule not_grantable_held [OF assms(1)], rule ccontr)
  assume "\<not> (\<not> can_read k s \<or> \<not> can_write k s)"
  then have free: "can_read k s" "can_write k s" by simp_all
  from someone_served [OF free assms(3)] obtain j where j: "wants_at cfg s k j" "j \<notin> refused h s" by blast
  from unheld_steps [OF j(1) free] obtain s' where "thread_step cfg p j s = Some s'" by blast
  with j(2) stuck show False by (auto simp: policy_step_def dest: step.thread)
qed

lemma no_requests:
  assumes reach: "reachable cfg p s" and stuck: "\<nexists>s'. policy_step cfg p refused h s s'"
  shows "\<not> wants_at cfg s k i"
proof
  assume "wants_at cfg s k i"
  let ?K = "{k. \<exists>i. wants_at cfg s k i}"
  have "\<exists>k' \<in> ?K. k < k'" if k: "k \<in> ?K" for k
  proof -
    from k obtain i where "wants_at cfg s k i" by blast
    from requested_is_held [OF reachable_locks [OF reach] stuck this]
    obtain j l where l: "l \<in> set (held (threads s j))" "lock_key l = k" by blast
    have "thread_step cfg p j s = None \<or> wants cfg (threads s j) \<noteq> None"
      using stuck step.thread [of cfg p j s] by (cases "thread_step cfg p j s") (fastforce simp: policy_step_def)+
    from holder_wants [OF reachable_wf [OF reach] l(1) this] l(2) show ?thesis by blast
  qed
  moreover have "Max ?K \<in> ?K" using \<open>wants_at cfg s k i\<close> wants_at_finite [OF reach] by (intro Max_in) blast+
  ultimately obtain k' where "k' \<in> ?K" "Max ?K < k'" by blast
  with Max_ge [OF wants_at_finite [OF reach]] show False by fastforce
qed

lemma stuck_is_quiet:
  assumes "reachable cfg p s" and "\<nexists>s'. policy_step cfg p refused h s s'"
  shows "\<nexists>s'. run_step cfg p s s'"
proof
  assume "\<exists>s'. run_step cfg p s s'"
  then obtain s' l where "step cfg p s l s'" "\<And>var v. l \<noteq> AtomicWrite var v" by (auto simp: run_step_def)
  moreover have "wants cfg (threads s i) = None" for i
    using no_requests [OF assms] by (cases "wants cfg (threads s i)") (auto simp: wants_at_def)
  ultimately have "policy_step cfg p refused h s s'" by (cases l) (auto simp: policy_step_def)
  with assms(2) show False by blast
qed

text \<open>What holds at the end of every run holds at the end of every run under the policy.\<close>

lemma ends_under_policy:
  assumes "reachable cfg p s0" and ends: "always_ends_in cfg p s0 P"
  shows "always_ends_under cfg p refused s0 P"
  unfolding always_ends_under_def
proof (intro conjI allI impI notI)
  assume "\<exists>run hs. run 0 = s0 \<and> (\<forall>n. policy_step cfg p refused (hs n) (run n) (run (Suc n)))"
  with ends policy_step_run_step show False unfolding always_ends_in_def by metis
next
  fix s h
  assume fin: "(\<lambda>s s'. \<exists>h. policy_step cfg p refused h s s')\<^sup>*\<^sup>* s0 s \<and> (\<nexists>s'. policy_step cfg p refused h s s')"
  have run: "(run_step cfg p)\<^sup>*\<^sup>* s0 s"
    by (rule rtranclp_mono [THEN predicate2D, OF _ conjunct1 [OF fin]]) (auto intro: policy_step_run_step)
  then have "reachable cfg p s"
    by (induction rule: rtranclp_induct) (auto simp: run_step_def intro: assms(1) reachable.steps)
  from stuck_is_quiet [OF this conjunct2 [OF fin]] run ends show "P s" by (simp add: always_ends_in_def)
qed

end

section \<open>Two policies\<close>

text \<open>The one of \<open>parking_lot\<close>: a reader is refused as long as a writer waits, even if the lock is free.\<close>

definition writers_first :: "config \<Rightarrow> (unit, 'v) policy" where
  "writers_first cfg h s =
     {i. \<exists>k j. wants cfg (threads s i) = Some (ReadLock k) \<and> wants cfg (threads s j) = Some (WriteLock k)}"

text \<open>Queues: of the threads in the queue of a variable only the first one that waits for it is served.\<close>

definition queues :: "config \<Rightarrow> (block \<Rightarrow> nat list, 'v) policy" where
  "queues cfg h s =
     {i. \<exists>k. wants_at cfg s k i \<and> (case filter (wants_at cfg s k) (h k) of [] \<Rightarrow> False | j # js \<Rightarrow> i \<noteq> j)}"

interpretation writers_first: lock_policy cfg "writers_first cfg" for cfg
proof
  fix k and s :: "'a system" and i h
  assume i: "wants_at cfg s k i"
  show "\<exists>j. wants_at cfg s k j \<and> j \<notin> writers_first cfg h s"
  proof (cases "\<exists>j. wants cfg (threads s j) = Some (WriteLock k)")
    case True
    then obtain j where "wants cfg (threads s j) = Some (WriteLock k)" by blast
    then show ?thesis by (intro exI [of _ j]) (simp add: wants_at_def writers_first_def)
  next
    case False
    with i have "i \<notin> writers_first cfg h s" by (auto simp: wants_at_def writers_first_def)
    with i show ?thesis by blast
  qed
qed

interpretation queues: lock_policy cfg "queues cfg" for cfg
proof
  fix k and s :: "'a system" and i and h :: "block \<Rightarrow> nat list"
  assume i: "wants_at cfg s k i"
  have same: "k' = k" if "wants_at cfg s k' j" "wants_at cfg s k j" for k' j using that by (auto simp: wants_at_def)
  show "\<exists>j. wants_at cfg s k j \<and> j \<notin> queues cfg h s"
  proof (cases "filter (wants_at cfg s k) (h k)")
    case Nil
    with i have "i \<notin> queues cfg h s" by (auto simp: queues_def dest!: same [OF _ i])
    with i show ?thesis by blast
  next
    case (Cons j js)
    then have j: "wants_at cfg s k j" by (metis filter_eq_ConsD)
    with Cons have "j \<notin> queues cfg h s" by (auto simp: queues_def dest!: same [OF _ j])
    with j show ?thesis by blast
  qed
qed

text \<open>C7: total correctness does not depend on who is served first: for the programs of \<open>runs_end_serially\<close>
  (well typed, no \<open>Failure\<close> of the bodies themselves, without \<open>wait-on-retry\<close> no uncaught \<open>Retry\<close>, and no
  \<open>write_atomic\<close>), also when the locks prefer waiting writers to readers, as those of \<open>parking_lot\<close> do,
  or serve the threads in the order of any queues, every run ends, in the same outcomes: no thread is
  left waiting for a lock, the committed transactions are those of a serial run, exactly so if no
  program has an \<open>or\<close> and otherwise with choices of second alternatives that may be out of date, and
  the other threads have returned without a commit or are parked as described there.\<close>

theorem lock_policies_end_serially:
  assumes "initial p s0" and "\<And>i. no_spin (p i) (wait_on_retry cfg)"
    and "world_typed ty (shared s0)" and "\<And>i. prog_typed ty (p i)"
  shows "always_ends_under cfg p (writers_first cfg) s0 (serial_outcome p s0) \<and>
    always_ends_under cfg p (queues cfg) s0 (serial_outcome p s0)"
proof -
  have "always_ends_in cfg p s0 (serial_outcome p s0)"
    using runs_go_on [OF execution.at_start [OF assms(1)] _ assms(2-4)] by (simp add: serial_outcome_def [abs_def])
  with reachable.start [OF assms(1)] show ?thesis
    by (blast intro: writers_first.ends_under_policy queues.ends_under_policy)
qed

theorem lock_policies_end_serially_witness:
  "always_ends_under default_config inc_prog (writers_first default_config) (demo_system inc_prog 2)
     (serial_outcome inc_prog (demo_system inc_prog 2))"
  by (rule conjunct1 [OF lock_policies_end_serially [where ty = "\<lambda>_. 0"]])
    (simp_all add: inc_prog_def world_typed_def)

end
