(* ===== verification/Waiting_Lists.thy ===== *)
theory Waiting_Lists
  imports Termination_Properties Cleanup_Properties Wakeup_Properties Wait_Properties
begin

text \<open>
  The lists of waiting threads do not pile up.  A registration stays in the list of a variable when its
  thread has stopped waiting; \<open>set_dead\<close> counts such registrations, not exactly, and cleans up.  The
  theorem bounds the length of the lists, whatever the interleaving.
\<close>

section \<open>What a thread has registered\<close>

abbreviation waiting :: "block \<Rightarrow> 'v system \<Rightarrow> nat list" where
  "waiting k s \<equiv> waiting_threads (blocks (shared s) k)"

abbreviation deads :: "block \<Rightarrow> 'v system \<Rightarrow> 64 word" where
  "deads k s \<equiv> dead_threads (blocks (shared s) k)"

text \<open>The variables at which a thread will register, and those at which it will call \<open>set_dead\<close> so far.\<close>

fun to_register :: "'v thread_state \<Rightarrow> block list" where
  "to_register (Registering tx c es reads) = map fst es"
| "to_register (Comparing tx c k v es reads) = map fst es"
| "to_register _ = []"

fun to_count :: "'v thread_state \<Rightarrow> block list" where
  "to_count (Registering tx c es reads) = map fst reads"
| "to_count (Comparing tx c k v es reads) = map fst reads @ [k]"
| "to_count (Parked tx c reads) = map fst reads"
| "to_count (Dying tx c reads) = map fst reads"
| "to_count (Cleaning tx c k reads) = map fst reads"
| "to_count _ = []"

definition owned_at :: "block \<Rightarrow> 'v thread_state \<Rightarrow> nat \<Rightarrow> bool" where
  "owned_at k st c \<longleftrightarrow> ctrl_of st = Some c \<and> k \<in> set (to_count st)"

lemma not_owned [simp]: "ctrl_of st = None \<Longrightarrow> \<not> owned_at k st c"
  by (simp add: owned_at_def)

lemma key_in: "(k, v) \<in> set es \<Longrightarrow> k \<in> fst ` set es"
  by force

section \<open>What a step does\<close>

lemma body_ends_lists:
  "deads k (body_ends cfg p i tx fs r s) = deads k s"
  by (cases rule: body_ends_cases [of fs r]; simp add: Let_def restart_def)

lemma running_step_deads:
  assumes "thread_step cfg p i s = Some s'" and "threads s i = Running tx fs q"
  shows "deads k s' = deads k s"
proof -
  from assms have b: "body_step cfg p i tx fs q s = Some s'" by (simp add: thread_step_def)
  show ?thesis
  proof (cases q)
    case (Perform op k')
    with b have "body_step cfg p i tx fs (Perform op k') s = Some s'" by simp
    then show ?thesis by (cases rule: perform_cases) (simp_all add: allocatesD [OF op_body_allocates])
  next
    case (Return x)
    with b have "s' = body_ends cfg p i tx fs (Inr x) s" by simp
    with body_ends_lists show ?thesis by metis
  next
    case (Raise e)
    with b have "s' = body_ends cfg p i tx fs (Inl e) s" by simp
    with body_ends_lists show ?thesis by metis
  qed (use b in auto)
qed

lemma waiting_step_cases:
  assumes step: "thread_step cfg p i s = Some s'"
  obtains (same) "waiting k s' = waiting k s" "deads k s' = deads k s"
      "\<And>c. owned_at k (threads s i) c \<Longrightarrow> owned_at k (threads s' i) c"
  | (registered) c where "waiting k s' = waiting k s @ [c]" "deads k s' = deads k s"
      "ctrl_of (threads s i) = Some c" "to_register (threads s i) = k # to_register (threads s' i)"
      "owned_at k (threads s' i) c"
  | (counted) "waiting k s' = waiting k s" "deads k s' = deads k s + 1"
  | (cleaned) "waiting k s' = filter (\<lambda>c. ctrls (shared s) c \<noteq> None) (waiting k s)" "deads k s' = 0"
      "ctrls (shared s') = ctrls (shared s)"
  | (taken) "waiting k s' = []" "deads k s' = deads k s"
proof (cases "threads s i")
  case (Running tx fs q)
  with running_step_waiting(1) [OF step] running_step_deads [OF step] show thesis by (intro same) auto
next
  case (Locking v tx rs rv wv wr)
  with locking_step_waiting [OF step] show thesis by (intro same) auto
next
  case (Registering tx c es reads)
  show thesis
  proof (cases es)
    case Nil
    with step Registering show thesis by (intro same) (auto simp: thread_step_def owned_at_def intro: key_in)
  next
    case (Cons e es')
    obtain j v where e: "e = (j, v)" by (cases e)
    show thesis
    proof (cases "j = k")
      case True
      with step Registering Cons e show thesis
        by (intro registered [of c]) (auto simp: thread_step_def VarControlBlock_wait_def owned_at_def intro: key_in)
    next
      case False
      with step Registering Cons e show thesis
        by (intro same) (auto simp: thread_step_def VarControlBlock_wait_def owned_at_def intro: key_in)
    qed
  qed
next
  case (Dying tx c reads)
  show thesis
  proof (cases reads)
    case Nil
    with step Dying show thesis by (intro same) (auto simp: thread_step_def restart_def owned_at_def)
  next
    case (Cons e reads')
    obtain j v where e: "e = (j, v)" by (cases e)
    show thesis
    proof (cases "j = k")
      case True
      with step Dying Cons e show thesis by (intro counted) (auto simp: thread_step_defs)
    next
      case False
      with step Dying Cons e show thesis
        by (intro same) (auto simp: thread_step_defs owned_at_def intro: key_in split: if_splits)
    qed
  qed
next
  case (Cleaning tx c j reads)
  show thesis
  proof (cases "j = k")
    case True
    with step Cleaning show thesis by (intro cleaned) (auto simp: thread_step_def set_dead_cleanup_def)
  next
    case False
    with step Cleaning show thesis
      by (intro same) (auto simp: thread_step_def set_dead_cleanup_def owned_at_def intro: key_in)
  qed
next
  case (Waking v cs wr)
  show thesis
  proof (cases "cs = [] \<and> (\<exists>wr'. wr = k # wr')")
    case True
    with step Waking show thesis by (intro taken) (auto simp: thread_step_def)
  next
    case False
    with step Waking show thesis
      by (intro same) (auto simp: thread_step_def split: list.splits)
  qed
qed (rule same; use step in \<open>auto simp: thread_step_def restart_def finish_def owned_at_def
    intro: key_in split: list.splits if_splits\<close>)+

lemma ctrls_before:
  assumes "thread_step cfg p i s = Some s'" and "c < next_ctrl (shared s)" and "ctrls (shared s') c \<noteq> None"
  shows "ctrls (shared s) c \<noteq> None"
proof (cases "threads s i")
  case (Running tx fs q)
  from running_step_waiting(2) [OF assms(1) this] assms(2,3) show ?thesis by auto
next
  case (Locking v tx rs rv wv wr)
  from locking_step_waiting [OF assms(1) this] assms(3) show ?thesis by simp
qed (use assms in \<open>auto simp: step_split_simps ControlBlock_set_changed_def split: list.splits if_splits option.splits\<close>)

lemma ctrl_kept:
  assumes "thread_step cfg p i s = Some s'" and "ctrl_of (threads s i) = Some c"
  shows "ctrl_of (threads s' i) = Some c \<or> ctrls (shared s') c = None"
  using assms
  by (cases "threads s i") (auto simp: thread_step_defs restart_def split: list.splits if_splits)

text \<open>A thread registers at each variable at most once.\<close>

lemma to_register_body_ends:
  "reg_wf cfg (vars tx) \<Longrightarrow> distinct (to_register (threads (body_ends cfg p i tx fs r s) i))"
  by (cases rule: body_ends_cases [of fs r])
    (auto simp: Let_def restart_def reg_wf_distinct intro: distinct_read_values)

lemma to_register_step:
  assumes step: "thread_step cfg p i s = Some s'" and wf: "wf_thread cfg (threads s i)"
    and "distinct (to_register (threads s i))"
  shows "distinct (to_register (threads s' i))"
    and "ctrl_of (threads s i) \<noteq> None \<Longrightarrow> set (to_register (threads s' i)) \<subseteq> set (to_register (threads s i))"
proof -
  have "distinct (to_register (threads s' i)) \<and>
    (ctrl_of (threads s i) \<noteq> None \<longrightarrow> set (to_register (threads s' i)) \<subseteq> set (to_register (threads s i)))"
  proof (cases "threads s i")
    case (Running tx fs q)
    with step wf have b: "body_step cfg p i tx fs q s = Some s'" and wf': "reg_wf cfg (vars tx)"
      by (simp_all add: thread_step_def)
    show ?thesis
    proof (cases q)
      case (Perform op k')
      with b have "body_step cfg p i tx fs (Perform op k') s = Some s'" by simp
      then show ?thesis using Running by (cases rule: perform_cases) simp_all
    next
      case (Return x)
      with b have "s' = body_ends cfg p i tx fs (Inr x) s" by simp
      with to_register_body_ends [OF wf'] Running show ?thesis by simp
    next
      case (Raise e)
      with b have "s' = body_ends cfg p i tx fs (Inl e) s" by simp
      with to_register_body_ends [OF wf'] Running show ?thesis by simp
    qed (use b Running in auto)
  next
    case (Locking v tx rs rv wv wr)
    show ?thesis
    proof (cases rs)
      case Nil
      with step Locking show ?thesis by (auto simp: thread_step_def)
    next
      case (Cons r rs')
      obtain k l where r: "r = (k, l)" by (cases r)
      with step Locking Cons have "lock_step i v tx k l rs' rv wv wr s = Some s'" by (simp add: thread_step_def)
      then show ?thesis using Locking by (cases rule: lock_step_cases) simp_all
    qed
  qed (use assms in \<open>auto simp: thread_step_defs restart_def finish_def split: list.splits if_splits\<close>)
  then show "distinct (to_register (threads s' i))"
    and "ctrl_of (threads s i) \<noteq> None \<Longrightarrow> set (to_register (threads s' i)) \<subseteq> set (to_register (threads s i))"
    by simp_all
qed

section \<open>The entries of a list\<close>

text \<open>The entries are distinct and of control blocks handed out; a thread is not in a list at which it is
  still to register; a control block that is in a list and has not been dropped belongs to a thread.\<close>

definition list_in_order :: "block \<Rightarrow> 'v system \<Rightarrow> bool" where
  "list_in_order k s \<longleftrightarrow> distinct (waiting k s) \<and>
     (\<forall>c \<in> set (waiting k s). c < next_ctrl (shared s) \<and>
       (\<forall>i. ctrl_of (threads s i) = Some c \<longrightarrow> k \<notin> set (to_register (threads s i))) \<and>
       (ctrls (shared s) c \<noteq> None \<longrightarrow> (\<exists>i. ctrl_of (threads s i) = Some c)))"

lemma list_entries_step:
  assumes step: "thread_step cfg p i s = Some s'" and wf: "wf_thread cfg (threads s i)"
    and dist: "distinct (to_register (threads s i))" and inv: "list_in_order k s"
    and c: "c \<in> set (waiting k s)"
  shows "c < next_ctrl (shared s')"
    and "ctrl_of (threads s' j) = Some c \<Longrightarrow> k \<notin> set (to_register (threads s' j))"
    and "ctrls (shared s') c \<noteq> None \<Longrightarrow> \<exists>j. ctrl_of (threads s' j) = Some c"
proof -
  note others = thread_step_others [OF step]
  have old: "c < next_ctrl (shared s)"
      "\<And>j. ctrl_of (threads s j) = Some c \<Longrightarrow> k \<notin> set (to_register (threads s j))"
      "ctrls (shared s) c \<noteq> None \<Longrightarrow> \<exists>j. ctrl_of (threads s j) = Some c"
    using inv c by (auto simp: list_in_order_def)
  show "c < next_ctrl (shared s')" using old(1) next_ctrl_grows [OF step] by simp
  show "k \<notin> set (to_register (threads s' j))" if now: "ctrl_of (threads s' j) = Some c"
  proof (cases "j = i")
    case True
    with now ctrl_of_step [OF step] old(1) have before: "ctrl_of (threads s i) = Some c" by auto
    with to_register_step(2) [OF step wf dist] old(2) [OF before] True show ?thesis by auto
  qed (use now old(2) [of j] others [of j] in simp)
  show "\<exists>j. ctrl_of (threads s' j) = Some c" if alive: "ctrls (shared s') c \<noteq> None"
  proof -
    from ctrls_before [OF step old(1) alive] old(3) obtain j where j: "ctrl_of (threads s j) = Some c" by blast
    then have "ctrl_of (threads s' j) = Some c"
      using ctrl_kept [OF step, of c] alive others [of j] by (cases "j = i") auto
    then show ?thesis by blast
  qed
qed

lemma list_in_order_step:
  assumes step: "thread_step cfg p i s = Some s'" and wf: "wf_thread cfg (threads s i)"
    and dist: "distinct (to_register (threads s i))" and inv: "list_in_order k s" and apart: "ctrls_apart s'"
  shows "list_in_order k s'"
proof -
  note entries = list_entries_step [OF step wf dist inv]
  have fewer: ?thesis if "distinct (waiting k s')" "set (waiting k s') \<subseteq> set (waiting k s)"
    using that entries by (auto simp: list_in_order_def)
  have distinct: "distinct (waiting k s)" using inv by (simp add: list_in_order_def)
  from step show ?thesis
  proof (cases rule: waiting_step_cases [where k = k])
    case (registered c)
    then have new: "c \<notin> set (waiting k s)" using inv by (fastforce simp: list_in_order_def)
    have owner: "ctrl_of (threads s' i) = Some c" using registered(5) by (simp add: owned_at_def)
    then have mine: "c < next_ctrl (shared s')" "\<And>j. ctrl_of (threads s' j) = Some c \<Longrightarrow> j = i"
      using apart unfolding ctrls_apart_def by blast+
    have "k \<notin> set (to_register (threads s' i))" using dist registered(4) by simp
    with mine have "ctrl_of (threads s' j) = Some c \<Longrightarrow> k \<notin> set (to_register (threads s' j))" for j by blast
    then show ?thesis
      using distinct new mine(1) owner entries unfolding list_in_order_def registered(1) by (simp; blast)
  qed (use fewer distinct in auto)
qed

interpretation lists: system_invariant cfg p
  "\<lambda>s. (\<forall>i. distinct (to_register (threads s i))) \<and> (\<forall>k. list_in_order k s)" for cfg p
proof
  fix s :: "'a system"
  assume start: "initial p s"
  then have "waiting k s = []" for k by (simp add: initial_def)
  moreover have "to_register (threads s i) = []" for i
    using start by (cases rule: initial_threads [where i = i]) simp_all
  ultimately show "(\<forall>i. distinct (to_register (threads s i))) \<and> (\<forall>k. list_in_order k s)"
    by (simp add: list_in_order_def)
next
  fix s s' :: "'a system" and i
  assume reach: "reachable cfg p s" and step: "thread_step cfg p i s = Some s'"
    and inv: "(\<forall>i. distinct (to_register (threads s i))) \<and> (\<forall>k. list_in_order k s)"
  note wf = reachable_wf [OF reach]
  have "ctrls_apart s'" by (rule ctrls.invariant) (rule reachable.steps [OF reach step.thread [OF step]])
  with inv have "list_in_order k s'" for k by (intro list_in_order_step [OF step wf]) simp_all
  moreover have "distinct (to_register (threads s' j))" for j
    using to_register_step(1) [OF step wf] thread_step_others [OF step, of j] inv by (cases "j = i") simp_all
  ultimately show "(\<forall>i. distinct (to_register (threads s' i))) \<and> (\<forall>k. list_in_order k s')" by simp
next
  fix s :: "'a system" and i tx e
  assume inv: "(\<forall>i. distinct (to_register (threads s i))) \<and> (\<forall>k. list_in_order k s)"
    and st: "threads s i = Running tx [] (Raise e)"
  have "ctrl_of (threads (set_thread i (Stopped Abandoned) s) j) = ctrl_of (threads s j)"
    "to_register (threads (set_thread i (Stopped Abandoned) s) j) = to_register (threads s j)" for j
    using st by simp_all
  with inv show "(\<forall>j. distinct (to_register (threads (set_thread i (Stopped Abandoned) s) j))) \<and>
      (\<forall>k. list_in_order k (set_thread i (Stopped Abandoned) s))"
    by (simp add: list_in_order_def)
next
  fix s :: "'a system" and var :: tvar and v
  assume "(\<forall>i. distinct (to_register (threads s i))) \<and> (\<forall>k. list_in_order k s)"
  then show "(\<forall>i. distinct (to_register (threads (s\<lparr>shared := TVar_write_atomic var v (shared s)\<rparr>) i))) \<and>
      (\<forall>k. list_in_order k (s\<lparr>shared := TVar_write_atomic var v (shared s)\<rparr>))"
    by (simp add: list_in_order_def TVar_write_atomic_def Arc_new_def)
qed

section \<open>The stale entries\<close>

text \<open>The entries of threads that no longer wait, or have called \<open>set_dead\<close> here.\<close>

definition gone :: "block \<Rightarrow> 'v system \<Rightarrow> nat set" where
  "gone k s = {c \<in> set (waiting k s). \<nexists>i. owned_at k (threads s i) c}"

lemma finite_gone [simp]: "finite (gone k s)"
  by (simp add: gone_def)

text \<open>The threads in \<open>F\<close> have at most one control block each.\<close>

lemma card_owned:
  assumes "finite F" and "\<And>c. c \<in> C \<Longrightarrow> \<exists>i \<in> F. ctrl_of (threads s i) = Some c"
  shows "card C \<le> card F"
proof -
  have "C \<subseteq> (\<lambda>i. the (ctrl_of (threads s i))) ` F"
  proof
    fix c
    assume "c \<in> C"
    with assms(2) obtain i where "i \<in> F" "ctrl_of (threads s i) = Some c" by blast
    then show "c \<in> (\<lambda>i. the (ctrl_of (threads s i))) ` F" by (intro image_eqI [of _ _ i]) simp_all
  qed
  then show ?thesis using assms(1) by (rule surj_card_le [rotated])
qed

lemma owner_moves: "movers F s \<Longrightarrow> ctrl_of (threads s i) = Some c \<Longrightarrow> i \<in> F"
  by (rule ccontr) (auto simp: movers_def dest!: spec [of _ i])

lemma gone_step:
  assumes reach: "reachable cfg p s" and step: "thread_step cfg p i s = Some s'"
    and F: "movers F s" "movers F s'" "card F < 2 ^ 63"
    and inv: "card (gone k s) \<le> unat (deads k s) + card F"
  shows "card (gone k s') \<le> unat (deads k s') + card F"
proof -
  note others = thread_step_others [OF step]
  have fin: "finite F" using F(1) by (simp add: movers_def)
  have fewer: "card (gone k s') \<le> card (gone k s)"
    if lists: "\<And>c. c \<in> set (waiting k s') \<Longrightarrow> c \<in> set (waiting k s) \<or> owned_at k (threads s' i) c"
      and keeps: "\<And>c. owned_at k (threads s i) c \<Longrightarrow> owned_at k (threads s' i) c"
  proof (rule card_mono)
    show "gone k s' \<subseteq> gone k s"
    proof
      fix c
      assume c: "c \<in> gone k s'"
      have "\<not> owned_at k (threads s j) c" for j
      proof -
        have "\<not> owned_at k (threads s' j) c" using c by (simp add: gone_def)
        then show ?thesis using keeps [of c] others [of j] by (cases "j = i") auto
      qed
      with c lists [of c] show "c \<in> gone k s" by (auto simp: gone_def)
    qed
  qed simp
  from step show ?thesis
  proof (cases rule: waiting_step_cases [where k = k])
    case same
    with fewer inv show ?thesis by simp
  next
    case (registered c)
    have "card (gone k s') \<le> card (gone k s)"
      by (rule fewer) (use registered in \<open>auto simp: owned_at_def\<close>)
    with registered(2) inv show ?thesis by simp
  next
    case counted
    have "gone k s' \<subseteq> gone k s \<union> {c. ctrl_of (threads s i) = Some c}"
    proof
      fix c
      assume c: "c \<in> gone k s'"
      have "\<not> owned_at k (threads s j) c" if "ctrl_of (threads s i) \<noteq> Some c" for j
      proof -
        have "\<not> owned_at k (threads s' j) c" using c by (simp add: gone_def)
        then show ?thesis using that others [of j] by (cases "j = i") (auto simp: owned_at_def)
      qed
      with c show "c \<in> gone k s \<union> {c. ctrl_of (threads s i) = Some c}" by (auto simp: gone_def counted(1))
    qed
    moreover have one: "finite {c. ctrl_of (threads s i) = Some c}" "card {c. ctrl_of (threads s i) = Some c} \<le> 1"
      by (cases "ctrl_of (threads s i)"; simp)+
    ultimately have "card (gone k s') \<le> card (gone k s \<union> {c. ctrl_of (threads s i) = Some c})"
      by (intro card_mono) simp_all
    also have "\<dots> \<le> card (gone k s) + 1"
      using card_Un_le [of "gone k s" "{c. ctrl_of (threads s i) = Some c}"] one(2) by linarith
    finally have card: "card (gone k s') \<le> Suc (card (gone k s))" by simp
    have "cleaning_at k s \<subseteq> F"
      using owner_moves [OF F(1)] by (fastforce simp: cleaning_at_def)
    then have "card (cleaning_at k s) \<le> card F" by (rule card_mono [OF fin])
    then have "unat (deads k s) \<le> 64 + card F"
      using dead.invariant [OF reach, rule_format, of k] by (simp add: dead_bounded_def)
    with F(3) have "unat (deads k s') = Suc (unat (deads k s))"
      by (simp add: counted(2) unat_word_ariths)
    with card inv show ?thesis by simp
  next
    case cleaned
    have "list_in_order k s" using lists.invariant [OF reach] by blast
    have "\<exists>j \<in> F. ctrl_of (threads s j) = Some c" if "c \<in> gone k s'" for c
    proof -
      from that have "c \<in> set (waiting k s)" "ctrls (shared s) c \<noteq> None"
        by (auto simp: gone_def cleaned(1))
      with \<open>list_in_order k s\<close> obtain j where "ctrl_of (threads s j) = Some c" by (auto simp: list_in_order_def)
      with owner_moves [OF F(1)] show ?thesis by blast
    qed
    then have "card (gone k s') \<le> card F" by (rule card_owned [OF fin])
    then show ?thesis by simp
  next
    case taken
    then show ?thesis by (simp add: gone_def)
  qed
qed

section \<open>The bound\<close>

lemma movers_step:
  assumes "movers F s" and "step cfg p s l s'"
  shows "movers F s'"
  using assms(2)
proof (cases rule: step.cases)
  case (thread i)
  have "i \<in> F"
  proof (rule ccontr)
    assume "i \<notin> F"
    with assms(1) thread(2) show False by (auto simp: movers_def thread_step_def)
  qed
  with assms(1) thread_step_others [OF thread(2)] show ?thesis by (metis movers_def)
next
  case (give_up i tx e)
  then have "i \<in> F" using assms(1) by (auto simp: movers_def)
  with assms(1) show ?thesis by (auto simp: movers_def give_up)
next
  case (atomic var v)
  with assms(1) show ?thesis by (simp add: movers_def)
qed

lemma execution_gone:
  assumes "execution cfg p s0 h s" and "movers F s0" and "card F < 2 ^ 63"
  shows "movers F s \<and> card (gone k s) \<le> unat (deads k s) + card F"
  using assms(1)
proof (induction rule: execution.induct)
  case at_start
  then have "waiting k s0 = []" by (simp add: initial_def)
  with assms(2) show ?case by (simp add: gone_def)
next
  case (continue h s l s')
  note reach = execution_reachable [OF continue(1)]
  have F: "movers F s" "movers F s'" using continue.IH movers_step [OF _ continue(2)] by blast+
  from continue(2) have "card (gone k s') \<le> unat (deads k s') + card F"
  proof (cases rule: step.cases)
    case (thread i)
    with gone_step [OF reach thread(2) F assms(3)] continue.IH show ?thesis by blast
  next
    case (give_up i tx e)
    then have "owned_at k (threads s' j) c = owned_at k (threads s j) c" for j c by simp
    with give_up continue.IH show ?thesis by (simp add: gone_def)
  next
    case (atomic var v)
    then have "waiting k s' = waiting k s" "deads k s' = deads k s" "threads s' = threads s"
      by (simp_all add: TVar_write_atomic_def Arc_new_def)
    with continue.IH show ?thesis by (simp add: gone_def)
  qed
  with F(2) show ?case ..
qed

text \<open>C35: the lists of waiting threads do not pile up: if \<open>n\<close> threads run transactions, then in every
  interleaving, and however often they wait, no variable has more than \<open>64 + 3 * n\<close> entries in its
  list: the clean-up of \<open>set_dead\<close> keeps up with the registrations left behind, although it counts
  them inexactly and races with other threads.\<close>

theorem waiting_lists_bounded:
  assumes "execution cfg p s0 h s" and "card {i. \<nexists>v. threads s0 i = Finished v} < 2 ^ 63"
  shows "length (waiting_threads (blocks (shared s) k)) \<le> 64 + 3 * card {i. \<nexists>v. threads s0 i = Finished v}"
proof -
  let ?F = "{i. \<nexists>v. threads s0 i = Finished v}"
  note reach = execution_reachable [OF assms(1)]
  have start: "movers ?F s0" using execution_initial [OF assms(1)] by (auto simp: movers_def initial_def)
  note inv = execution_gone [OF assms(1) start assms(2), of k]
  then have F: "movers ?F s" "finite ?F" by (simp_all add: movers_def)
  let ?C = "{c \<in> set (waiting k s). \<exists>i. owned_at k (threads s i) c}"
  have "\<exists>i \<in> ?F. ctrl_of (threads s i) = Some c" if "c \<in> ?C" for c
    using that owner_moves [OF F(1)] by (fastforce simp: owned_at_def)
  then have owned: "card ?C \<le> card ?F" by (rule card_owned [OF F(2)])
  have "cleaning_at k s \<subseteq> ?F" using owner_moves [OF F(1)] by (fastforce simp: cleaning_at_def)
  then have "card (cleaning_at k s) \<le> card ?F" by (rule card_mono [OF F(2)])
  then have "unat (deads k s) \<le> 64 + card ?F"
    using dead.invariant [OF reach, rule_format, of k] by (simp add: dead_bounded_def)
  moreover have "distinct (waiting k s)" using lists.invariant [OF reach] by (simp add: list_in_order_def)
  then have "length (waiting k s) = card (gone k s \<union> ?C)"
    unfolding gone_def by (subst distinct_card [symmetric]) (auto intro: arg_cong [where f = card])
  moreover have "card (gone k s \<union> ?C) \<le> card (gone k s) + card ?C" by (rule card_Un_le)
  ultimately show ?thesis using inv owned by linarith
qed

theorem waiting_lists_bounded_witness: "length (waiting_threads (blocks (shared parked_system) (Block 2))) \<le> 67"
proof -
  have "{i. \<nexists>v. threads (demo_system retry_prog 1) i = Finished v} = {0}" by auto
  with waiting_lists_bounded [OF parked_execution, of "Block 2"] show ?thesis by simp
qed

end
