(* ===== verification/Test_Helpers.thy ===== *)
theory Test_Helpers
  imports STM_Prelude
begin

text \<open>
  The helpers of the tests (\<open>test.rs\<close>): run a function in a thread of its own and wait for its result
  for a limited time.  Time is in milliseconds.  Two things are parameters: \<open>sleep ms t\<close> is the time
  at which a thread that goes to sleep at \<open>t\<close> is running again, and \<open>recv t\<close> is what \<open>try_recv\<close> gives at
  the time \<open>t\<close>.  \<open>t\<close> is the time at which the function \<open>g\<close> of the caller has returned.
\<close>

section \<open>The helpers\<close>

text \<open>The loop that sleeps in steps of 50 ms; the time, and the result if there is one.\<close>

fun poll :: "(nat \<Rightarrow> nat \<Rightarrow> nat) \<Rightarrow> (nat \<Rightarrow> 'a option) \<Rightarrow> nat \<Rightarrow> nat \<Rightarrow> nat \<times> 'a option" where
  "poll sleep recv 0 t = (t, None)"
| "poll sleep recv (Suc n) t =
     (let t = sleep 50 t in case recv t of Some a \<Rightarrow> (t, Some a) | None \<Rightarrow> poll sleep recv n t)"

definition async_test :: "(nat \<Rightarrow> nat \<Rightarrow> nat) \<Rightarrow> (nat \<Rightarrow> 'a option) \<Rightarrow> nat \<Rightarrow> nat \<Rightarrow> 'a option" where
  "async_test sleep recv duration_ms t =
     (case recv t of
        Some a \<Rightarrow> Some a
      | None \<Rightarrow>
          (case poll sleep recv (duration_ms div 50) t of
             (t, Some a) \<Rightarrow> Some a
           | (t, None) \<Rightarrow> recv (sleep (duration_ms mod 50) t)))"

definition terminates_async :: "(nat \<Rightarrow> nat \<Rightarrow> nat) \<Rightarrow> (nat \<Rightarrow> 'a option) \<Rightarrow> nat \<Rightarrow> nat \<Rightarrow> bool" where
  "terminates_async sleep recv duration_ms t \<longleftrightarrow> async_test sleep recv duration_ms t \<noteq> None"

definition terminates :: "(nat \<Rightarrow> nat \<Rightarrow> nat) \<Rightarrow> (nat \<Rightarrow> 'a option) \<Rightarrow> nat \<Rightarrow> nat \<Rightarrow> bool" where
  "terminates sleep recv duration_ms t \<longleftrightarrow> terminates_async sleep recv duration_ms t"

section \<open>How long they wait\<close>

text \<open>A result that has been sent stays in the channel, and a sleep lasts as long as asked for or longer.\<close>

definition channel :: "(nat \<Rightarrow> 'a option) \<Rightarrow> bool" where
  "channel recv \<longleftrightarrow> (\<forall>t t' a. recv t = Some a \<longrightarrow> t \<le> t' \<longrightarrow> recv t' = Some a)"

lemma channelD: "channel recv \<Longrightarrow> recv t = Some a \<Longrightarrow> t \<le> t' \<Longrightarrow> recv t' = Some a"
  unfolding channel_def by blast

lemma poll_recv: "poll sleep recv n t = (t', Some a) \<Longrightarrow> recv t' = Some a"
proof (induction n arbitrary: t)
  case (Suc n)
  then show ?case by (cases "recv (sleep 50 t)") (simp_all add: Let_def)
qed simp

lemma poll_time:
  assumes "poll sleep recv n t = (t', None)" and "\<And>ms t. t + ms \<le> sleep ms t"
  shows "t + 50 * n \<le> t'"
  using assms(1)
proof (induction n arbitrary: t)
  case (Suc n)
  then have "sleep 50 t + 50 * n \<le> t'" by (auto simp: Let_def split: option.splits)
  with assms(2) [of t 50] show ?case by simp
qed simp

lemma poll_time_exact: "poll (\<lambda>ms t. t + ms) recv n t = (t', r) \<Longrightarrow> t' \<le> t + 50 * n"
proof (induction n arbitrary: t)
  case (Suc n)
  then show ?case by (cases "recv (t + 50)") (fastforce simp: Let_def)+
qed simp

lemma async_test_received: "async_test sleep recv d t = Some a \<Longrightarrow> \<exists>t'. recv t' = Some a"
  by (auto simp: async_test_def dest: poll_recv split: option.splits prod.splits)

text \<open>A result that is there after the given time is not missed.\<close>

lemma async_test_waits:
  assumes "channel recv" and "\<And>ms t. t + ms \<le> sleep ms t" and "recv (t + d) = Some a"
  shows "async_test sleep recv d t = Some a"
proof -
  have same: "b = a" if "recv t' = Some b" for t' b
    using channelD [OF assms(1) that, of "max t' (t + d)"] channelD [OF assms(1,3), of "max t' (t + d)"] by simp
  have late: "recv t' = Some a" if "t + d \<le> t'" for t' using channelD [OF assms(1,3) that] .
  have "recv (sleep (d mod 50) t') = Some a" if "poll sleep recv (d div 50) t = (t', None)" for t'
  proof (rule late)
    from poll_time [OF that assms(2)] have "t + 50 * (d div 50) \<le> t'" .
    then have "t + 50 * (d div 50) + d mod 50 \<le> t' + d mod 50" by (rule add_le_mono1)
    also have "\<dots> \<le> sleep (d mod 50) t'" by (rule assms(2))
    finally show "t + d \<le> sleep (d mod 50) t'" using mult_div_mod_eq [of 50 d] by linarith
  qed
  then show ?thesis
    using same by (auto simp: async_test_def dest: poll_recv split: option.split prod.split)
qed

text \<open>With exact sleeps, a later one is not waited for: the time is used up to the millisecond.\<close>

lemma async_test_exact:
  assumes "channel recv"
  shows "async_test (\<lambda>ms t. t + ms) recv d t = recv (t + d)"
proof (cases "recv (t + d)")
  case (Some a)
  then show ?thesis by (simp add: async_test_waits [OF assms])
next
  case None
  have early: "recv t' = None" if "t' \<le> t + d" for t'
    using None channelD [OF assms _ that] by (cases "recv t'") auto
  show ?thesis
  proof (cases "poll (\<lambda>ms t. t + ms) recv (d div 50) t")
    case (Pair t' r)
    then have "t' \<le> t + 50 * (d div 50)" by (rule poll_time_exact)
    then have "t' + d mod 50 \<le> t + d" using mult_div_mod_eq [of 50 d] by linarith
    with early [of t] early [of t'] early [of "t' + d mod 50"] Pair None show ?thesis
      by (cases r) (auto simp: async_test_def dest!: poll_recv)
  qed
qed

lemma terminates_iff: "channel recv \<Longrightarrow> terminates (\<lambda>ms t. t + ms) recv d t \<longleftrightarrow> (\<exists>t' \<le> t + d. recv t' \<noteq> None)"
  by (auto simp: terminates_def terminates_async_def async_test_exact dest: channelD)

end
