(* ===== verification/Unit_Tests.thy ===== *)
theory Unit_Tests
  imports Runner_Properties Programs
begin

text \<open>
  The unit tests of the crate that run in one thread, as definitions, and the theorem that they pass:
  not for one run, but for every world, every features and whatever other threads do while a thread
  is parked.  A test is true if its assertions hold.  The type \<open>i32\<close> has the number 0.
\<close>

section \<open>The tests of the crate root\<close>

text \<open>The result of a transaction is \<open>x\<close>.\<close>

fun returns :: "'t \<Rightarrow> ((fault + 't) \<times> 'v world) option \<Rightarrow> bool" where
  "returns x (Some (Inr y, w)) \<longleftrightarrow> x = y"
| "returns x _ \<longleftrightarrow> False"

type_synonym unit_test = "config \<Rightarrow> (int world \<Rightarrow> int world) \<Rightarrow> nat \<Rightarrow> int world \<Rightarrow> bool"

definition infinite_retry :: unit_test where
  "infinite_retry cfg env me w \<longleftrightarrow>
     (let terminated = (atomically cfg env me (lift_result retry :: (int, stm_error, int) body) w \<noteq> None)
      in \<not> terminated)"

definition stm_nested :: unit_test where
  "stm_nested cfg env me w \<longleftrightarrow>
     (let (var, w) = TVar_new 0 0 w
      in returns 42 (atomically cfg env me (and_then (TVar_write cfg var 42) (\<lambda>_. TVar_read cfg var)) w))"

definition or_simple :: unit_test where
  "or_simple cfg env me w \<longleftrightarrow>
     (let (var, w) = TVar_new 0 42 w
      in returns 42 (atomically cfg env me (Transaction_or cfg (lift_result retry) (TVar_read cfg var)) w))"

definition or_nocommit :: unit_test where
  "or_nocommit cfg env me w \<longleftrightarrow>
     (let (var, w) = TVar_new 0 42 w
      in returns 42 (atomically cfg env me (Transaction_or cfg
           (and_then (TVar_write cfg var 23) (\<lambda>_. lift_result retry)) (TVar_read cfg var)) w))"

definition or_nested_first :: unit_test where
  "or_nested_first cfg env me w \<longleftrightarrow>
     (let (var, w) = TVar_new 0 42 w
      in returns 42 (atomically cfg env me (Transaction_or cfg
           (Transaction_or cfg (lift_result retry) (lift_result retry)) (TVar_read cfg var)) w))"

definition or_nested_second :: unit_test where
  "or_nested_second cfg env me w \<longleftrightarrow>
     (let (var, w) = TVar_new 0 42 w
      in returns 42 (atomically cfg env me (Transaction_or cfg
           (lift_result retry) (Transaction_or cfg (TVar_read cfg var) (lift_result retry))) w))"

definition unwrap_some :: unit_test where
  "unwrap_some cfg env me w \<longleftrightarrow>
     (let x = Some 42 in returns (42 :: int) (atomically cfg env me (lift_result (unwrap_or_retry x)) w))"

definition unwrap_none :: bool where
  "unwrap_none \<longleftrightarrow> (let x = None :: int option in unwrap_or_retry x = retry)"

definition guard_true :: bool where
  "guard_true \<longleftrightarrow> (let x = guard True in x = Inr ())"

definition guard_false :: bool where
  "guard_false \<longleftrightarrow> (let x = guard False in x = retry)"

definition optionally_succeed :: unit_test where
  "optionally_succeed cfg env me w \<longleftrightarrow>
     returns (Some (42 :: int)) (atomically cfg env me (optionally cfg (lift_result (Inr 42))) w)"

definition optionally_fail :: unit_test where
  "optionally_fail cfg env me w \<longleftrightarrow>
     returns (None :: int option) (atomically cfg env me (optionally cfg (lift_result retry)) w)"

section \<open>The tests of transactions\<close>

text \<open>Two tests use a vector of numbers.\<close>

definition test_read :: "config \<Rightarrow> int list world \<Rightarrow> bool" where
  "test_read cfg w \<longleftrightarrow>
     (let log = transaction_default; (var, w) = TVar_new 0 [1, 2, 3, 4] w
      in case Transaction_read cfg var log w of (Inr (Inr x, log), w) \<Rightarrow> x = [1, 2, 3, 4] | _ \<Rightarrow> False)"

definition test_write_read :: "config \<Rightarrow> int list world \<Rightarrow> bool" where
  "test_write_read cfg w \<longleftrightarrow>
     (let log = transaction_default; (var, w) = TVar_new 0 [1, 2] w
      in case Transaction_write cfg var [1, 2, 3, 4] log w of
           (Inr (Inr _, log), w) \<Rightarrow>
             (case Transaction_read cfg var log w of
                (Inr (Inr x, log), w) \<Rightarrow> x = [1, 2, 3, 4] \<and> TVar_read_atomic var w = Inr [1, 2]
              | _ \<Rightarrow> False)
         | _ \<Rightarrow> False)"

definition transaction_simple :: unit_test where
  "transaction_simple cfg env me w \<longleftrightarrow>
     returns (42 :: int) (Transaction_with cfg env me (lift_result (Inr 42)) w)"

definition transaction_read :: unit_test where
  "transaction_read cfg env me w \<longleftrightarrow>
     (let (read, w) = TVar_new 0 42 w in returns 42 (Transaction_with cfg env me (TVar_read cfg read) w))"

text \<open>The closure \<open>|_| TransactionControl::Abort\<close>.\<close>

definition always_abort :: "('v, unit) control_fn" where
  "always_abort e c w = (Inr ControlAbort, c, w)"

definition transaction_with_control_abort_on_single_run :: unit_test where
  "transaction_with_control_abort_on_single_run cfg env me w \<longleftrightarrow>
     (let (read, w) = TVar_new 0 42 w
      in returns (Some 42) (Transaction_with_control cfg env me always_abort () (TVar_read cfg read) w))"

definition transaction_with_control_abort_on_retry :: unit_test where
  "transaction_with_control_abort_on_retry cfg env me w \<longleftrightarrow>
     returns (None :: int option)
       (Transaction_with_control cfg env me always_abort () (lift_result (Inl Retry)) w)"

definition transaction_write :: unit_test where
  "transaction_write cfg env me w \<longleftrightarrow>
     (let (write, w) = TVar_new 0 42 w
      in case Transaction_with cfg env me (TVar_write cfg write 0) w of
           Some (Inr _, w) \<Rightarrow> TVar_read_atomic write w = Inr 0
         | _ \<Rightarrow> False)"

definition transaction_copy :: unit_test where
  "transaction_copy cfg env me w \<longleftrightarrow>
     (let (read, w) = TVar_new 0 42 w; (write, w) = TVar_new 0 0 w
      in case Transaction_with cfg env me (and_then (TVar_read cfg read) (\<lambda>r. TVar_write cfg write r)) w of
           Some (Inr _, w) \<Rightarrow> TVar_read_atomic write w = Inr 42
         | _ \<Rightarrow> False)"

definition transaction_control_stuff :: unit_test where
  "transaction_control_stuff cfg env me w \<longleftrightarrow>
     (let (read, w) = TVar_new 0 42 w; (write, w) = TVar_new 0 0 w
      in case Transaction_with cfg env me (and_then (TVar_read cfg read) (\<lambda>r. TVar_write cfg write r)) w of
           Some (Inr _, w) \<Rightarrow> TVar_read_atomic write w = Inr 42
         | _ \<Rightarrow> False)"

text \<open>The test is to panic; a body that does not return would be no panic.\<close>

definition transaction_nested_fail :: unit_test where
  "transaction_nested_fail cfg env me w \<longleftrightarrow>
     (case Transaction_with cfg env me (\<lambda>tx w.
          case Transaction_with cfg env me (lift_result (Inr (42 :: int))) w of
            Some (Inl flt, w) \<Rightarrow> (Inl flt, w)
          | Some (Inr _, w) \<Rightarrow> (Inr (Inr (1 :: int), tx), w)
          | None \<Rightarrow> (Inr (Inr 1, tx), w)) w of
        Some (Inl flt, w) \<Rightarrow> True
      | _ \<Rightarrow> False)"

section \<open>The tests of the other modules\<close>

definition test_read_atomic :: "int world \<Rightarrow> bool" where
  "test_read_atomic w \<longleftrightarrow> (let (var, w) = TVar_new 0 42 w in TVar_read_atomic var w = Inr 42)"

definition test_write_obsolete_ignore :: "int world \<Rightarrow> bool" where
  "test_write_obsolete_ignore w \<longleftrightarrow>
     (let (boxed, w) = Arc_new (Dyn 0 42) w; t = LogVar_obsolete (Write boxed) in t = None)"

text \<open>A new control block in the world.\<close>

definition new_ctrl :: "nat \<Rightarrow> int world \<Rightarrow> nat \<times> int world" where
  "new_ctrl me w = (next_ctrl w, w\<lparr>ctrls := (ctrls w)(next_ctrl w := Some (ControlBlock_new me)),
     next_ctrl := Suc (next_ctrl w)\<rparr>)"

definition test_blocked :: "nat \<Rightarrow> int world \<Rightarrow> bool" where
  "test_blocked me w \<longleftrightarrow>
     (let (ctrl, w) = new_ctrl me w in \<not> ControlBlock_wait id me ctrl w \<noteq> None)"

definition wait_after_change :: "nat \<Rightarrow> int world \<Rightarrow> bool" where
  "wait_after_change me w \<longleftrightarrow>
     (let (ctrl, w) = new_ctrl me w; w = ControlBlock_set_changed ctrl w
      in ControlBlock_wait id me ctrl w \<noteq> None)"

definition wait_after_multiple_changes :: "nat \<Rightarrow> int world \<Rightarrow> bool" where
  "wait_after_multiple_changes me w \<longleftrightarrow>
     (let (ctrl, w) = new_ctrl me w;
          w = ControlBlock_set_changed ctrl w; w = ControlBlock_set_changed ctrl w;
          w = ControlBlock_set_changed ctrl w; w = ControlBlock_set_changed ctrl w
      in ControlBlock_wait id me ctrl w \<noteq> None)"

text \<open>The other thread calls \<open>set_changed\<close> while this one is parked.\<close>

definition wait_threaded_wakeup :: "nat \<Rightarrow> int world \<Rightarrow> bool" where
  "wait_threaded_wakeup me w \<longleftrightarrow>
     (let (ctrl, w) = new_ctrl me w
      in ControlBlock_wait (\<lambda>w. ControlBlock_set_changed ctrl w) me ctrl w \<noteq> None)"

section \<open>The tests pass\<close>

lemma TVar_new_sel:
  assumes "TVar_new ty v w = (var, w')"
  shows "control_block_of var = Block (next_block w)" "marker var = ty"
    "mem w' k = (if k = control_block_of var then Arc (next_arc w) (Dyn ty v) else mem w k)"
    "transaction_running w' = transaction_running w" "next_block w' = Suc (next_block w)"
  using assms by (auto simp: TVar_new_def VarControlBlock_new_def Arc_new_def Let_def)

text \<open>The types that the values have.\<close>

definition types_of :: "'v world \<Rightarrow> block \<Rightarrow> nat" where
  "types_of w k = type_id (arc_dyn (mem w k))"

lemma typed_types_of: "world_typed (types_of w) w" "\<not> hash_registers cfg \<Longrightarrow> all_live cfg w"
  by (simp_all add: world_typed_def types_of_def all_live_def)

lemma runs_alone_once:
  assumes "refining_body (types_of w) cfg m a" and "\<not> transaction_running w me" and "\<not> hash_registers cfg"
    and "a (store w) = Inr (t, s)"
  shows "\<exists>w'. Transaction_with_control cfg env me control c m w = Some (Inr (Some t), w') \<and> store w' = s \<and>
    world_typed (types_of w) w'"
  using solo_with_control [OF assms(1) typed_types_of(1) typed_types_of(2) [OF assms(3)] assms(2,4), of env control c] by blast

lemma with_returns:
  assumes "refining_body (types_of w) cfg m a" and "\<not> transaction_running w me" and "\<not> hash_registers cfg"
    and "a (store w) = Inr (t, s)"
  shows "\<exists>w'. Transaction_with cfg env me m w = Some (Inr t, w') \<and> store w' = s \<and>
    world_typed (types_of w) w'"
  using runs_alone_once [OF assms, of env always_retry "()"] by (auto simp: Transaction_with_def)

lemma atomically_returns:
  assumes "refining_body (types_of w) cfg m a" and "\<not> transaction_running w me" and "\<not> hash_registers cfg"
    and "a (store w) = Inr (t, s)"
  shows "returns t (atomically cfg env me m w)"
  using with_returns [OF assms, of env] by (auto simp: atomically_def)

text \<open>The operations on a variable of type \<open>i32\<close>.\<close>

lemma refining_ops:
  assumes "types_of w (control_block_of var) = marker var"
  shows "refining_body (types_of w) cfg (TVar_read cfg var) (s_read (control_block_of var))"
    and "refining_body (types_of w) cfg (TVar_write cfg var v) (s_write (control_block_of var) v)"
  using assms by (simp_all add: TVar_ops refining_read refining_write)

lemma TVar_new_ops:
  assumes "TVar_new ty v w = (var, w')"
  shows "types_of w' (control_block_of var) = marker var" "store w' (control_block_of var) = v"
    "transaction_running w' me = transaction_running w me"
  using TVar_new_sel [OF assms] by (simp_all add: types_of_def store_def)

lemmas s_defs = s_then_def s_or_def s_read_def s_write_def s_result_def retry_def

lemma new_var_returns:
  assumes "TVar_new ty v w = (var, w1)" and "\<not> transaction_running w me" and "\<not> hash_registers cfg"
    and "types_of w1 (control_block_of var) = marker var \<Longrightarrow> refining_body (types_of w1) cfg m a"
    and "\<And>s. s (control_block_of var) = v \<Longrightarrow> \<exists>s'. a s = Inr (x, s')"
  shows "returns x (atomically cfg env me m w1)"
proof -
  note new = TVar_new_ops [OF assms(1)]
  obtain s' where "a (store w1) = Inr (x, s')" using assms(5) new(2) by blast
  with atomically_returns [OF assms(4) [OF new(1)]] assms(2,3) new(3) show ?thesis by simp
qed

lemma crate_root_tests:
  assumes "\<not> transaction_running w me" and "\<not> hash_registers cfg"
  shows "stm_nested cfg env me w" and "or_simple cfg env me w" and "or_nocommit cfg env me w"
    and "or_nested_first cfg env me w" and "or_nested_second cfg env me w"
proof -
  have retry: "refining_body ty cfg (lift_result (Inl Retry)) (s_result (Inl Retry))" for ty :: "block \<Rightarrow> nat"
    by (rule refining_result)
  note returns = new_var_returns [OF _ assms]
  show "stm_nested cfg env me w"
    unfolding stm_nested_def
    by (auto intro!: returns [OF _ refining_then [OF refining_ops(2) refining_ops(1)]] simp: s_defs split: prod.split)
  show "or_simple cfg env me w"
    unfolding or_simple_def
    by (auto intro!: returns [OF _ refining_or [OF retry refining_ops(1)]] simp: s_defs split: prod.split)
  show "or_nocommit cfg env me w"
    unfolding or_nocommit_def
    by (auto intro!: returns [OF _ refining_or [OF refining_then [OF refining_ops(2) retry] refining_ops(1)]]
        simp: s_defs split: prod.split)
  show "or_nested_first cfg env me w"
    unfolding or_nested_first_def
    by (auto intro!: returns [OF _ refining_or [OF refining_or [OF retry retry] refining_ops(1)]]
        simp: s_defs split: prod.split)
  show "or_nested_second cfg env me w"
    unfolding or_nested_second_def
    by (auto intro!: returns [OF _ refining_or [OF retry refining_or [OF refining_ops(1) retry]]]
        simp: s_defs split: prod.split)
qed

lemma result_tests:
  assumes "\<not> transaction_running w me" and "\<not> hash_registers cfg"
  shows "unwrap_some cfg env me w" and "optionally_succeed cfg env me w" and "optionally_fail cfg env me w"
  unfolding unwrap_some_def optionally_succeed_def optionally_fail_def Let_def
  by (rule atomically_returns [OF refining_result assms] atomically_returns [OF refining_optionally [OF refining_result] assms];
    simp add: s_defs)+

lemma retry_tests:
  assumes "\<not> transaction_running w me" and "\<not> hash_registers cfg"
    and "\<And>w. ctrls (env w) = ctrls w"
  shows "infinite_retry cfg env me w"
  using solo_blocks [OF refining_result typed_types_of(1) typed_types_of(2) [OF assms(2)] assms(1) _ assms(3), of "retry :: int stm_closure_result"]
  by (simp add: infinite_retry_def atomically_def Transaction_with_def s_result_def retry_def)

lemma TVar_read_atomic_typed:
  "ty (control_block_of var) = marker var \<Longrightarrow> world_typed ty w \<Longrightarrow>
   TVar_read_atomic var w = Inr (store w (control_block_of var))"
  by (simp add: TVar_read_atomic_def TVar_read_ref_atomic_def downcast_def world_typed_def store_def)

lemma with_tests:
  assumes "\<not> transaction_running w me" and "\<not> hash_registers cfg"
  shows "transaction_simple cfg env me w" and "transaction_read cfg env me w"
    and "transaction_with_control_abort_on_single_run cfg env me w"
proof -
  show "transaction_simple cfg env me w"
    using with_returns [OF refining_result assms, of "Inr (42 :: int)" 42 _ env]
    by (auto simp: transaction_simple_def s_result_def)
  fix var :: tvar and w1 :: "int world"
  obtain var w1 where new: "TVar_new 0 (42 :: int) w = (var, w1)" by fastforce
  note sel = TVar_new_ops [OF new]
  have run: "\<not> transaction_running w1 me" using assms(1) sel(3) by simp
  have spec: "s_read (control_block_of var) (store w1) = Inr (42, store w1)"
    using sel(2) by (simp add: s_read_def)
  show "transaction_read cfg env me w"
    using with_returns [OF refining_ops(1) [OF sel(1)] run assms(2) spec, of env]
    by (auto simp: transaction_read_def new)
  show "transaction_with_control_abort_on_single_run cfg env me w"
    using runs_alone_once [OF refining_ops(1) [OF sel(1)] run assms(2) spec, of env always_abort "()"]
    by (auto simp: transaction_with_control_abort_on_single_run_def new)
qed

lemma write_test:
  assumes "\<not> transaction_running w me" and "\<not> hash_registers cfg"
  shows "transaction_write cfg env me w"
proof -
  obtain var w1 where new: "TVar_new 0 (42 :: int) w = (var, w1)" by fastforce
  note sel = TVar_new_ops [OF new]
  have run: "\<not> transaction_running w1 me" using assms(1) sel(3) by simp
  obtain w' where "Transaction_with cfg env me (TVar_write cfg var 0) w1 = Some (Inr (), w')"
      "store w' = (store w1)(control_block_of var := 0)" "world_typed (types_of w1) w'"
    using with_returns [OF refining_ops(2) [OF sel(1)] run assms(2), of 0 "()" _ env] by (auto simp: s_write_def)
  then show ?thesis
    by (simp add: transaction_write_def new TVar_read_atomic_typed [where ty = "types_of w1", OF sel(1)])
qed

lemma copy_tests:
  assumes "\<not> transaction_running w me" and "\<not> hash_registers cfg"
  shows "transaction_copy cfg env me w" and "transaction_control_stuff cfg env me w"
proof -
  obtain var w1 where new: "TVar_new 0 (42 :: int) w = (var, w1)" by fastforce
  obtain var' w2 where new': "TVar_new 0 (0 :: int) w1 = (var', w2)" by fastforce
  let ?copy = "and_then (TVar_read cfg var) (\<lambda>r. TVar_write cfg var' r)"
  note sel = TVar_new_sel [OF new] and sel' = TVar_new_sel [OF new']
  have ty: "types_of w2 (control_block_of var) = marker var" "types_of w2 (control_block_of var') = marker var'"
    and v: "store w2 (control_block_of var) = 42"
    using sel sel' by (simp_all add: types_of_def store_def)
  have run: "\<not> transaction_running w2 me" using assms(1) sel(4) sel'(4) by simp
  have "refining_body (types_of w2) cfg ?copy (s_then (s_read (control_block_of var)) (s_write (control_block_of var')))"
    by (intro refining_then refining_ops ty)
  then obtain w' where w': "Transaction_with cfg env me ?copy w2 = Some (Inr (), w')"
      "store w' = (store w2)(control_block_of var' := 42)" "world_typed (types_of w2) w'"
    using with_returns [OF _ run assms(2), of ?copy _ "()"] v by (fastforce simp: s_then_def s_read_def s_write_def)
  then have "TVar_read_atomic var' w' = Inr 42" by (simp add: TVar_read_atomic_typed [where ty = "types_of w2", OF ty(2)])
  with w'(1) show "transaction_copy cfg env me w" "transaction_control_stuff cfg env me w"
    by (simp_all add: transaction_copy_def transaction_control_stuff_def new new')
qed

lemma guard_tests:
  assumes "\<not> transaction_running w me"
  shows "transaction_with_control_abort_on_retry cfg env me w" and "transaction_nested_fail cfg env me w"
proof -
  let ?w = "w\<lparr>transaction_running := (transaction_running w)(me := True)\<rparr>"
  have "rust_loop (with_control_body cfg env me always_abort (lift_result (Inl Retry) :: (int, stm_error, int) body))
      (transaction_default, ()) ?w = Some (Inr None, ?w)"
    by (intro rust_loop_stops) (simp add: with_control_body_def lift_result_def always_abort_def)
  then show "transaction_with_control_abort_on_retry cfg env me w"
    using assms by (simp add: transaction_with_control_abort_on_retry_def Transaction_with_control_def with_guard_enters)
  let ?body = "\<lambda>tx w. case Transaction_with cfg env me (lift_result (Inr (42 :: int))) w of
            Some (Inl flt, w) \<Rightarrow> (Inl flt, w)
          | Some (Inr _, w) \<Rightarrow> (Inr (Inr (1 :: int), tx), w)
          | None \<Rightarrow> (Inr (Inr 1, tx), w)"
  have "Transaction_with cfg env me (lift_result (Inr (42 :: int))) ?w = Some (Inl NestedTransaction, ?w)"
    by (simp add: Transaction_with_def Transaction_with_control_def with_guard_nested)
  then have "rust_loop (with_control_body cfg env me always_retry ?body) (transaction_default, ()) ?w =
      Some (Inl NestedTransaction, ?w)"
    by (intro rust_loop_stops) (simp add: with_control_body_def)
  then show "transaction_nested_fail cfg env me w"
    using assms by (simp add: transaction_nested_fail_def Transaction_with_def Transaction_with_control_def with_guard_enters)
qed

lemma access_tests:
  shows "test_read cfg u" and "test_write_read cfg u" and "test_read_atomic w" and "test_write_obsolete_ignore w"
  by (simp_all add: test_read_def test_write_read_def test_read_atomic_def test_write_obsolete_ignore_def
      TVar_new_def VarControlBlock_new_def Arc_new_def Let_def Transaction_read_eq Transaction_write_eq
      entry_of_def downcast_def early_conflict_def ptr_eq_def TVar_read_atomic_def TVar_read_ref_atomic_def)

lemma wait_returns: "\<not> ctrl_blocked c w \<Longrightarrow> ControlBlock_wait env me c w = Some w"
  by (subst ControlBlock_wait.simps) simp

lemma wait_tests:
  shows "test_blocked me w" and "wait_after_change me w" and "wait_after_multiple_changes me w"
    and "wait_threaded_wakeup me w"
proof -
  obtain c w1 where new: "new_ctrl me w = (c, w1)" and c: "ctrls w1 c = Some (ControlBlock_new me)"
    by (simp add: new_ctrl_def)
  have blocked: "ctrl_blocked c ((park_timeout id me ^^ k) w1)" for k
    by (induction k) (simp_all add: c ctrl_blocked_def ControlBlock_new_def park_timeout_def Let_def)
  then show "test_blocked me w"
    by (simp add: test_blocked_def new ControlBlock_wait_None_iff)
  have woken: "\<not> ctrl_blocked c (ControlBlock_set_changed c w2)" if "ctrls w2 c \<noteq> None" for w2 :: "int world"
    using that by (auto simp: ctrl_blocked_def ControlBlock_set_changed_def Let_def split: if_splits)
  have known: "ctrls (ControlBlock_set_changed c w2) c \<noteq> None" if "ctrls w2 c \<noteq> None" for w2 :: "int world"
    using that by (auto simp: ControlBlock_set_changed_def Let_def)
  show "wait_after_change me w" "wait_after_multiple_changes me w"
    using c by (simp_all add: wait_after_change_def wait_after_multiple_changes_def new wait_returns woken known)
  have "ControlBlock_wait env me c w1 = ControlBlock_wait env me c (park_timeout env me w1)" for env
    using blocked [of 0] by (subst ControlBlock_wait.simps) simp
  moreover have "\<not> ctrl_blocked c (park_timeout (\<lambda>w. ControlBlock_set_changed c w) me w1)"
    using woken [of w1] c by (simp add: park_timeout_def ctrl_blocked_def Let_def)
  ultimately show "wait_threaded_wakeup me w"
    by (simp add: wait_threaded_wakeup_def new wait_returns)
qed

text \<open>The test suites of the four modules that have one.\<close>

definition crate_root_suite :: unit_test where
  "crate_root_suite cfg env me w \<longleftrightarrow>
     infinite_retry cfg env me w \<and> stm_nested cfg env me w \<and> or_simple cfg env me w \<and>
     or_nocommit cfg env me w \<and> or_nested_first cfg env me w \<and> or_nested_second cfg env me w \<and>
     unwrap_some cfg env me w \<and> unwrap_none \<and> guard_true \<and> guard_false \<and>
     optionally_succeed cfg env me w \<and> optionally_fail cfg env me w"

definition transaction_suite :: "config \<Rightarrow> (int world \<Rightarrow> int world) \<Rightarrow> nat \<Rightarrow> int world \<Rightarrow> int list world \<Rightarrow> bool"
where
  "transaction_suite cfg env me w u \<longleftrightarrow>
     test_read cfg u \<and> test_write_read cfg u \<and> transaction_simple cfg env me w \<and>
     transaction_read cfg env me w \<and> transaction_with_control_abort_on_single_run cfg env me w \<and>
     transaction_with_control_abort_on_retry cfg env me w \<and> transaction_write cfg env me w \<and>
     transaction_copy cfg env me w \<and> transaction_control_stuff cfg env me w \<and>
     transaction_nested_fail cfg env me w"

definition module_suite :: "nat \<Rightarrow> int world \<Rightarrow> bool" where
  "module_suite me w \<longleftrightarrow>
     test_read_atomic w \<and> test_write_obsolete_ignore w \<and> test_blocked me w \<and> wait_after_change me w \<and>
     wait_after_multiple_changes me w \<and> wait_threaded_wakeup me w"

text \<open>C40: the unit tests of the crate that run transactions in one thread pass: in every world, under
  every combination of the features but the hash registers, and whatever other threads do to the world
  while this one is parked, as long as none of them touches a control block in the test that is to
  block for ever.\<close>

theorem unit_tests_pass:
  assumes "\<not> transaction_running w me" and "\<not> hash_registers cfg"
    and "\<And>w. ctrls (env w) = ctrls w"
  shows "crate_root_suite cfg env me w \<and> transaction_suite cfg env me w u \<and> module_suite me w"
  using retry_tests [OF assms] crate_root_tests [OF assms(1,2)] result_tests [OF assms(1,2)]
    with_tests [OF assms(1,2)] write_test [OF assms(1,2)] copy_tests [OF assms(1,2)]
    guard_tests [OF assms(1)] access_tests wait_tests
  by (simp add: crate_root_suite_def transaction_suite_def module_suite_def unwrap_none_def guard_true_def
      guard_false_def guard_def)

theorem unit_tests_pass_witness:
  "crate_root_suite default_config id 0 demo_world"
  using unit_tests_pass [where env = id and cfg = default_config and me = 0 and w = demo_world] by simp

end
