(* ===== verification/Thread_Tests.thy ===== *)
theory Thread_Tests
  imports Outcome_Properties
begin

text \<open>
  The unit tests of the crate that run two transactions at once (\<open>threaded\<close> and \<open>read_write_interfere\<close>
  of \<open>lib.rs\<close>), for every order in which the steps of the two threads may come.  The times for which
  the tests sleep only make one of the orders likely; they are no part of the model.
\<close>

section \<open>Two threads\<close>

text \<open>Threads 0 and 1 have been spawned, each to run a transaction on the variable \<open>var\<close>, whose value is
  \<open>x\<close>; no other thread runs transactions.\<close>

definition spawned :: "(tvar \<Rightarrow> nat \<Rightarrow> int prog) \<Rightarrow> tvar \<Rightarrow> int \<Rightarrow> int system \<Rightarrow> bool" where
  "spawned p var x s0 \<longleftrightarrow> initial (p var) s0 \<and> (\<forall>i. calls s0 i = With) \<and>
     (\<forall>i. committed_value (threads s0 i) = None \<longleftrightarrow> i < 2) \<and>
     arc_dyn (value_of s0 (control_block_of var)) = Dyn (marker var) x"

lemma commits_of_Cons [simp]:
  "commits_of i (Committed j v # h) = (if j = i then v # commits_of i h else commits_of i h)"
  by (simp add: commits_of_def map_filter_def)

text \<open>The histories of two threads.\<close>

lemma history_of_two:
  assumes "\<And>var v. Stored var v \<notin> set h" and "\<And>i. i \<ge> 2 \<Longrightarrow> commits_of i h = []"
  obtains "h = []" | v h' where "h = Committed 0 v # h'" | v h' where "h = Committed 1 v # h'"
proof (cases h)
  case (Cons e h')
  with assms(1) obtain i v where e: "e = Committed i v" by (cases e) auto
  then have "i < 2" using assms(2) [of i] Cons by (cases "i < 2") auto
  then have "i = 0 \<or> i = 1" by auto
  with that e Cons show thesis by blast
qed

text \<open>What the threads have returned is what one of the five serial runs gives.\<close>

lemma no_commits:
  assumes "\<And>i. commits_of i h = []" and "\<And>var v. Stored var v \<notin> set h"
  shows "h = []"
proof (cases h)
  case (Cons e h')
  with assms(2) obtain i v where "e = Committed i v" by (cases e) auto
  with assms(1) [of i] Cons show ?thesis by simp
qed

lemma two_threads_outcome:
  assumes start: "spawned p var x s0" and outcome: "outcome_of (p var) s0 h s"
    and free: "\<And>i. or_free (p var i)"
  obtains (nothing) "h = []" "store (shared s) = store (shared s0)"
      "spec (p var 0) (store (shared s)) = Inl Retry" "spec (p var 1) (store (shared s)) = Inl Retry"
  | (one) i v where "i < 2" "h = [Committed i v]"
      "threads s i = Finished v" "spec (p var i) (store (shared s0)) = Inr (v, store (shared s))"
      "spec (p var (1 - i)) (store (shared s)) = Inl Retry"
  | (both) i v v' st where "i < 2" "h = [Committed i v, Committed (1 - i) v']"
      "threads s i = Finished v" "threads s (1 - i) = Finished v'"
      "spec (p var i) (store (shared s0)) = Inr (v, st)"
      "spec (p var (1 - i)) st = Inr (v', store (shared s))"
proof -
  have run: "serial_run (p var) h (store (shared s0)) = Some (store (shared s))"
    using outcome serial_or_free [of "p var", OF free] by (simp add: outcome_of_def)
  have stored: "\<And>var v. Stored var v \<notin> set h" using outcome by (simp add: outcome_of_def)
  have fin: "(\<exists>v. threads s i = Finished v \<and>
             commits_of i h = (if committed_value (threads s0 i) = None then [v] else [])) \<or>
          (\<exists>tx c reads. threads s i = Parked tx c reads \<and> commits_of i h = [] \<and>
             spec (p var i) (store (shared s)) = Inl Retry)" for i
  proof -
    have out: "thread_outcome (p var i) With (committed_value (threads s0 i) = None) (commits_of i h) s (threads s i)"
      using outcome start by (simp add: outcome_of_def spawned_def)
    show ?thesis
    proof (cases "threads s i")
      case (Stopped r)
      with out show ?thesis by (cases r) simp_all
    qed (use out free [of i] in simp_all)
  qed
  have running: "committed_value (threads s0 i) = None \<longleftrightarrow> i < 2" for i using start by (simp add: spawned_def)
  have others: "commits_of i h = []" if "i \<ge> 2" for i using fin [of i] running [of i] that by auto
  have who: "if commits_of i h = [] then spec (p var i) (store (shared s)) = Inl Retry
      else \<exists>v. threads s i = Finished v \<and> commits_of i h = [v]" if "i < 2" for i
    using fin [of i] running [of i] that by auto
  have rest: ?thesis if i: "i < 2" and h: "h = Committed i v # h'" for i v h'
  proof -
    let ?j = "1 - i"
    have j: "?j < 2" "?j \<noteq> i" "\<And>k. k \<noteq> i \<Longrightarrow> k \<noteq> ?j \<Longrightarrow> k \<ge> 2" using i by arith+
    have iv: "threads s i = Finished v" "commits_of i h' = []" using who [OF i] h by auto
    obtain st where st: "spec (p var i) (store (shared s0)) = Inr (v, st)" "serial_run (p var) h' st = Some (store (shared s))"
      using run h by (auto split: sum.splits if_splits)
    show thesis
    proof (cases h')
      case Nil
      with who [OF j(1)] h j(2) have "spec (p var ?j) (store (shared s)) = Inl Retry" by simp
      with one [OF i _ iv(1)] st h Nil show thesis by simp
    next
      case (Cons e h'')
      obtain k v' where e: "e = Committed k v'" using stored h Cons by (cases e) auto
      have "k \<noteq> i" using iv(2) Cons e by auto
      moreover have "k < 2" using others [of k] h Cons e by (cases "k < 2") (auto split: if_splits)
      ultimately have k: "k = ?j" using j(3) [of k] by fastforce
      have jv: "threads s ?j = Finished v'" "commits_of ?j h'' = []"
        using who [OF j(1)] h Cons e k j(2) by auto
      have "commits_of n h'' = []" for n
        using iv(2) jv(2) others [of n] h Cons e k j(3) [of n] by (cases "n = i"; cases "n = ?j") (auto split: if_splits)
      then have "h'' = []" by (rule no_commits) (use stored h Cons in simp)
      then show thesis
        using both [OF i _ iv(1) jv(1) st(1)] st(2) h Cons e k by (auto split: sum.splits if_splits)
    qed
  qed
  from stored others show thesis
  proof (rule history_of_two [of h])
    assume "h = []"
    then show thesis using who [of 0] who [of 1] run by - (rule nothing; simp)
  qed (use rest in auto)
qed

lemma spawned_goes_on:
  assumes "spawned p var x s0" and "\<And>i. no_spin (p var i) (wait_on_retry cfg)"
    and "\<And>ty i. ty (control_block_of var) = marker var \<Longrightarrow> prog_typed ty (p var i)"
    and "execution cfg (p var) s0 h1 s1" and "\<And>var v. Stored var v \<notin> set h1"
  shows "always_ends_in cfg (p var) s1 (\<lambda>s. \<exists>h. outcome_of (p var) s0 (h1 @ h) s)"
proof (rule runs_go_on [OF assms(4,5,2)])
  show "world_typed (\<lambda>k. type_id (arc_dyn (value_of s0 k))) (shared s0)" by (simp add: world_typed_def)
  show "prog_typed (\<lambda>k. type_id (arc_dyn (value_of s0 k))) (p var i)" for i
    using assms(1) by (intro assms(3)) (simp add: spawned_def)
qed

section \<open>The tests\<close>

text \<open>A transaction without a result returns 0.\<close>

definition threaded :: "tvar \<Rightarrow> nat \<Rightarrow> int prog" where
  "threaded var i = (if i = 0
     then Perform (ReadOp var) (\<lambda>x. if x = Some 0 then Raise Retry else Return (the x))
     else Perform (WriteOp var 42) (\<lambda>_. Return 0))"

definition read_write_interfere :: "tvar \<Rightarrow> nat \<Rightarrow> int prog" where
  "read_write_interfere var i = (if i = 0
     then Perform (ReadOp var) (\<lambda>x. Perform (WriteOp var (the x + 10)) (\<lambda>_. Return 0))
     else Perform (WriteOp var 32) (\<lambda>_. Return 0))"

text \<open>C19: the test \<open>threaded\<close> passes in every interleaving: a thread that retries until a variable is not
  0, and a thread that writes 42 to it, both return, the first one with 42: whether it parks before
  or after the write, or never, it is neither left asleep nor does it spin for ever.\<close>

theorem threaded_passes:
  assumes "spawned threaded var 0 s0" and "wait_on_retry cfg"
  shows "always_ends_in cfg (threaded var) s0 (\<lambda>s. threads s 0 = Finished 42 \<and> threads s 1 = Finished 0)"
proof (rule always_ends_in_mono)
  have "initial (threaded var) s0" using assms(1) by (simp add: spawned_def)
  from execution.at_start [OF this]
  show "always_ends_in cfg (threaded var) s0 (\<lambda>s. \<exists>h. outcome_of (threaded var) s0 ([] @ h) s)"
    by (rule spawned_goes_on [OF assms(1), rotated 2]) (simp_all add: threaded_def assms(2))
  fix s
  assume "\<exists>h. outcome_of (threaded var) s0 ([] @ h) s"
  then obtain h where outcome: "outcome_of (threaded var) s0 h s" by auto
  have zero: "store (shared s0) (control_block_of var) = 0" using assms(1) by (simp add: spawned_def store_def)
  have free: "or_free (threaded var i)" for i by (simp add: threaded_def)
  note specs = threaded_def s_then_def s_result_def
  from assms(1) outcome free show "threads s 0 = Finished 42 \<and> threads s 1 = Finished 0"
  proof (cases rule: two_threads_outcome)
    case nothing
    then show ?thesis by (simp add: specs)
  next
    case (one i v)
    then show ?thesis using zero
      by (cases "i = 0") (auto simp: specs less_2_cases_iff dest!: sym [of _ "store (shared s)"])
  next
    case (both i v v' st)
    then show ?thesis using zero by (cases "i = 0") (auto simp: specs less_2_cases_iff)
  qed
qed

text \<open>C20: the test \<open>read_write_interfere\<close> passes in every interleaving that it aims at, and no update is
  lost in the others: both threads return, and the variable ends with 42 if the thread that writes 32
  has committed when the other one, which adds 10, has not, whatever that one has read before; it ends
  with 32 if the thread that adds 10 has committed when the other one has not; so in every interleaving
  it ends with 42 or 32, never 10.\<close>

theorem read_write_interfere_passes:
  assumes "spawned read_write_interfere var 0 s0"
    and "execution cfg (read_write_interfere var) s0 h1 s1" and "\<And>var v. Stored var v \<notin> set h1"
  shows "always_ends_in cfg (read_write_interfere var) s1 (\<lambda>s. threads s 0 = Finished 0 \<and>
    threads s 1 = Finished 0 \<and> store (shared s) (control_block_of var) \<in> {42, 32} \<and>
    (committed_value (threads s1 0) = None \<and> committed_value (threads s1 1) \<noteq> None \<longrightarrow>
      store (shared s) (control_block_of var) = 42) \<and>
    (committed_value (threads s1 0) \<noteq> None \<and> committed_value (threads s1 1) = None \<longrightarrow>
      store (shared s) (control_block_of var) = 32))"
proof (rule always_ends_in_mono)
  show "always_ends_in cfg (read_write_interfere var) s1 (\<lambda>s. \<exists>h. outcome_of (read_write_interfere var) s0 (h1 @ h) s)"
    by (rule spawned_goes_on [OF assms(1) _ _ assms(2,3)]) (simp_all add: read_write_interfere_def)
  fix s
  assume "\<exists>h. outcome_of (read_write_interfere var) s0 (h1 @ h) s"
  then obtain h where outcome: "outcome_of (read_write_interfere var) s0 (h1 @ h) s" ..
  have zero: "store (shared s0) (control_block_of var) = 0" using assms(1) by (simp add: spawned_def store_def)
  have "committed_value (threads s0 i) = None" if "i < 2" for i using that assms(1) by (simp add: spawned_def)
  note commits = execution_commits [OF assms(2) this]
  have free: "or_free (read_write_interfere var i)" for i by (simp add: read_write_interfere_def)
  note specs = read_write_interfere_def s_then_def s_result_def
  from assms(1) outcome free show "threads s 0 = Finished 0 \<and> threads s 1 = Finished 0 \<and>
    store (shared s) (control_block_of var) \<in> {42, 32} \<and>
    (committed_value (threads s1 0) = None \<and> committed_value (threads s1 1) \<noteq> None \<longrightarrow>
      store (shared s) (control_block_of var) = 42) \<and>
    (committed_value (threads s1 0) \<noteq> None \<and> committed_value (threads s1 1) = None \<longrightarrow>
      store (shared s) (control_block_of var) = 32)"
  proof (cases rule: two_threads_outcome)
    case (both i v v' st)
    have first: "h1 = [] \<or> (\<exists>h'. h1 = Committed i v # h')" using both(2) by (auto simp: append_eq_Cons_conv)
    then have "i = 1" if "committed_value (threads s1 0) = None" "committed_value (threads s1 1) \<noteq> None"
      using that commits [of 0] commits [of 1] both(1) by (auto simp: less_2_cases_iff)
    moreover have "i = 0" if "committed_value (threads s1 0) \<noteq> None" "committed_value (threads s1 1) = None"
      using first that commits [of 0] commits [of 1] both(1) by (auto simp: less_2_cases_iff)
    moreover have "i = 0 \<or> i = 1" using both(1) by auto
    ultimately show ?thesis using both(3-) zero
      by (elim disjE) (auto simp: specs dest!: sym [of _ "store (shared s)"])
  qed (simp_all add: specs split: if_splits)
qed

lemma spawned_demo:
  "arc_dyn (value_of (demo_system (p (demo_var n)) 2) (Block n)) = Dyn 0 x \<Longrightarrow> spawned p (demo_var n) x (demo_system (p (demo_var n)) 2)"
  by (auto simp: spawned_def)

theorem threaded_passes_witness:
  "always_ends_in default_config (threaded (demo_var 0)) (demo_system (threaded (demo_var 0)) 2)
     (\<lambda>s. threads s 0 = Finished 42 \<and> threads s 1 = Finished 0)"
  by (rule threaded_passes [OF spawned_demo]) simp_all

theorem read_write_interfere_passes_witness:
  "always_ends_in default_config (read_write_interfere (demo_var 0)) (demo_system (read_write_interfere (demo_var 0)) 2)
     (\<lambda>s. threads s 0 = Finished 0 \<and> threads s 1 = Finished 0 \<and> store (shared s) (Block 0) \<in> {42, 32})"
  using read_write_interfere_passes [OF spawned_demo execution.at_start [OF initial_demo], of 0 default_config] by simp

end
