(* ===== verification/Doc_Examples.thy ===== *)
theory Doc_Examples
  imports Unit_Tests
begin

text \<open>
  What the documentation of the crate shows and says.  The code blocks of the doc comments are
  definitions (\<open>cargo test\<close> runs them as tests of their own; the one that is not run, a transaction that
  retries for ever, is the test \<open>infinite_retry\<close>), and the theorem is that they run to their end and that
  their assertions hold.  The accessors outside of transactions are compared with the transactions that
  their documentation calls semantically equivalent.
\<close>

section \<open>The code blocks of the crate root\<close>

text \<open>A block without an assertion is to run to its end without a panic.\<close>

fun finishes :: "((fault + 't) \<times> 'v world) option \<Rightarrow> bool" where
  "finishes (Some (Inr _, _)) \<longleftrightarrow> True"
| "finishes _ \<longleftrightarrow> False"

definition doc_atomically :: unit_test where
  "doc_atomically cfg env me w \<longleftrightarrow> returns (42 :: int) (atomically cfg env me (lift_result (Inr 42)) w)"

definition doc_pass_failure :: unit_test where
  "doc_pass_failure cfg env me w \<longleftrightarrow>
     (let (var, w) = TVar_new 0 0 w
      in returns 42 (atomically cfg env me (and_then (TVar_write cfg var 42) (\<lambda>_. TVar_read cfg var)) w))"

text \<open>The example of \<open>try_or_coerce\<close> has two errors, and a conversion from one to the other.\<close>

datatype error1 = Error1
datatype error2 = Error2

fun error2_from :: "error1 \<Rightarrow> error2" where
  "error2_from Error1 = Error2"

definition op1 :: "('v, error1 transaction_error, unit) body" where
  "op1 = lift_result (Inr ())"

definition op2 :: "('v, error2 transaction_error, unit) body" where
  "op2 = lift_result (Inr ())"

text \<open>The macro around an operation of the transaction; its final \<open>?\<close> is the \<open>and_then\<close> behind it.\<close>

definition coerced :: "('a \<Rightarrow> 'b) \<Rightarrow> ('v, 'a transaction_error, 't) body \<Rightarrow> ('v, 'b transaction_error, 't) body" where
  "coerced conv f tx w = (case f tx w of
       (Inl flt, w) \<Rightarrow> (Inl flt, w)
     | (Inr (r, tx), w) \<Rightarrow> (Inr (try_or_coerce conv r, tx), w))"

definition doc_try_or_coerce :: unit_test where
  "doc_try_or_coerce cfg env me w \<longleftrightarrow>
     finishes (atomically_with_err cfg env me
       (and_then (coerced error2_from op1) (\<lambda>_. and_then op2 (\<lambda>_. lift_result (Inr ())))) w)"

datatype my_error = MyError

definition doc_abort :: unit_test where
  "doc_abort cfg env me w \<longleftrightarrow>
     (case atomically_with_err cfg env me (lift_result (abort MyError :: (32 word, my_error) transaction_closure_result)) w of
        Some (Inr execute_once, _) \<Rightarrow> isl execute_once
      | _ \<Rightarrow> False)"

text \<open>A variable that holds a value of type \<open>Option<i32>\<close>, with the number 1; a failed assertion panics.\<close>

definition doc_unwrap_or_retry :: "config \<Rightarrow> (int option world \<Rightarrow> int option world) \<Rightarrow> nat \<Rightarrow> int option world \<Rightarrow> bool"
where
  "doc_unwrap_or_retry cfg env me w \<longleftrightarrow>
     (let (x, w) = TVar_new 1 (Some 42) w
      in finishes (atomically cfg env me
           (and_then (TVar_read cfg x) (\<lambda>v. and_then (lift_result (unwrap_or_retry v))
              (\<lambda>inner. if inner = 42 then lift_result (Inr inner) else user_panic))) w))"

definition doc_guard :: unit_test where
  "doc_guard cfg env me w \<longleftrightarrow>
     (let (var, w) = TVar_new 0 42 w
      in returns 42 (atomically cfg env me (and_then (TVar_read cfg var)
           (\<lambda>v. and_then (lift_result (guard (v = 42))) (\<lambda>_. lift_result (Inr v)))) w))"

definition doc_optionally :: unit_test where
  "doc_optionally cfg env me w \<longleftrightarrow>
     returns (None :: 32 word option) (atomically cfg env me (optionally cfg (lift_result retry)) w)"

section \<open>The code blocks of the variables\<close>

definition doc_read_atomic :: unit_test where
  "doc_read_atomic cfg env me w \<longleftrightarrow>
     (let (var, w) = TVar_new 0 0 w in finishes (atomically cfg env me (TVar_read cfg var) w))"

definition doc_write_atomic :: unit_test where
  "doc_write_atomic cfg env me w \<longleftrightarrow>
     (let (var, w) = TVar_new 0 0 w in finishes (atomically cfg env me (TVar_write cfg var 1) w))"

definition doc_modify :: unit_test where
  "doc_modify cfg env me w \<longleftrightarrow>
     (let (var, w) = TVar_new 0 21 w
      in case atomically cfg env me (TVar_modify cfg var (\<lambda>x. x * 2)) w of
           Some (Inr _, w) \<Rightarrow> TVar_read_atomic var w = Inr 42
         | _ \<Rightarrow> False)"

definition doc_exchange :: unit_test where
  "doc_exchange cfg env me w \<longleftrightarrow>
     (let (var, w) = TVar_new 0 0 w
      in case atomically cfg env me (TVar_exchange cfg var 42) w of
           Some (Inr x, w) \<Rightarrow> x = 0 \<and> TVar_read_atomic var w = Inr 42
         | _ \<Rightarrow> False)"

section \<open>Transactions of one operation\<close>

text \<open>An operation on a variable of the right type, alone in its transaction, has the effect that the
  specification gives it, whatever the other threads did before.\<close>

lemma atomically_runs:
  assumes "refining_body (types_of w) cfg m a" and "\<not> transaction_running w me" and "\<not> hash_registers cfg"
    and "a (store w) = Inr (t, s)"
  obtains w' where "atomically cfg env me m w = Some (Inr t, w')" and "store w' = s"
    and "world_typed (types_of w) w'" and "\<not> transaction_running w' me"
  using solo_with_control [OF assms(1) typed_types_of(1) typed_types_of(2) [OF assms(3)] assms(2,4), of env always_retry "()"]
  unfolding atomically_def Transaction_with_def by fastforce

lemma refining_updates:
  assumes "types_of w (control_block_of var) = marker var"
  shows "refining_body (types_of w) cfg (TVar_modify cfg var f) (s_modify (control_block_of var) f)"
    and "refining_body (types_of w) cfg (TVar_exchange cfg var v) (s_exchange (control_block_of var) v)"
  using assms by (simp_all add: TVar_ops refining_modify refining_exchange)

lemma store_write_atomic: "store (TVar_write_atomic var v w) = (store w)(control_block_of var := v)"
  by (simp add: store_def TVar_write_atomic_def Arc_new_def fun_eq_iff)

lemma read_transaction:
  assumes "types_of w (control_block_of var) = marker var" and "\<not> transaction_running w me" and "\<not> hash_registers cfg"
  obtains w' where "atomically cfg env me (TVar_read cfg var) w = Some (TVar_read_atomic var w, w')"
    and "store w' = store w" and "world_typed (types_of w) w'"
    and "\<not> transaction_running w' me"
proof -
  have "s_read (control_block_of var) (store w) = Inr (store w (control_block_of var), store w)"
    by (simp add: s_read_def)
  from atomically_runs [OF refining_ops(1) [OF assms(1)] assms(2,3) this, of env]
  obtain w' where "atomically cfg env me (TVar_read cfg var) w = Some (Inr (store w (control_block_of var)), w')"
    "store w' = store w" "world_typed (types_of w) w'" "\<not> transaction_running w' me" .
  then show thesis using that TVar_read_atomic_typed [OF assms(1) typed_types_of(1)] by simp
qed

lemma write_transaction:
  assumes "types_of w (control_block_of var) = marker var" and "\<not> transaction_running w me" and "\<not> hash_registers cfg"
  obtains w' where "atomically cfg env me (TVar_write cfg var v) w = Some (Inr (), w')"
    and "store w' = store (TVar_write_atomic var v w)" and "world_typed (types_of w) w'"
    and "\<not> transaction_running w' me"
proof -
  have "s_write (control_block_of var) v (store w) = Inr ((), store (TVar_write_atomic var v w))"
    by (simp add: s_write_def store_write_atomic)
  from atomically_runs [OF refining_ops(2) [OF assms(1)] assms(2,3) this, of env] show thesis using that .
qed

lemma modify_transaction:
  assumes "types_of w (control_block_of var) = marker var" and "\<not> transaction_running w me" and "\<not> hash_registers cfg"
  obtains w' where "atomically cfg env me (TVar_modify cfg var f) w = Some (Inr (), w')"
    and "store w' = store (TVar_write_atomic var (f (store w (control_block_of var))) w)"
    and "world_typed (types_of w) w'"
    and "\<not> transaction_running w' me"
proof -
  have "s_modify (control_block_of var) f (store w) =
      Inr ((), store (TVar_write_atomic var (f (store w (control_block_of var))) w))"
    by (simp add: s_modify_def store_write_atomic)
  from atomically_runs [OF refining_updates(1) [OF assms(1)] assms(2,3) this, of env] show thesis using that .
qed

lemma exchange_transaction:
  assumes "types_of w (control_block_of var) = marker var" and "\<not> transaction_running w me" and "\<not> hash_registers cfg"
  obtains w' where "atomically cfg env me (TVar_exchange cfg var v) w = Some (TVar_read_atomic var w, w')"
    and "store w' = store (TVar_write_atomic var v w)" and "world_typed (types_of w) w'"
    and "\<not> transaction_running w' me"
proof -
  have "s_exchange (control_block_of var) v (store w) =
      Inr (store w (control_block_of var), store (TVar_write_atomic var v w))"
    by (simp add: s_exchange_def store_write_atomic)
  from atomically_runs [OF refining_updates(2) [OF assms(1)] assms(2,3) this, of env]
  obtain w' where "atomically cfg env me (TVar_exchange cfg var v) w = Some (Inr (store w (control_block_of var)), w')"
    "store w' = store (TVar_write_atomic var v w)" "world_typed (types_of w) w'" "\<not> transaction_running w' me" .
  then show thesis using that TVar_read_atomic_typed [OF assms(1) typed_types_of(1)] by simp
qed

text \<open>C15: \<open>read_atomic\<close> and \<open>write_atomic\<close> do what the transactions do that their documentation calls
  semantically equivalent, as far as the values of the variables go: a transaction that only reads a
  variable returns (or panics with) what \<open>read_atomic\<close> returns and changes no variable; a transaction that
  only writes, modifies or exchanges it leaves every variable with the value that \<open>write_atomic\<close> leaves,
  and exchange returns what \<open>read_atomic\<close> returned before.  This holds in every state of the shared
  memory and whatever the other threads would do while this one is parked: it never is.  (The two differ
  in whom they wake.)\<close>

theorem atomic_accessors_are_transactions:
  assumes "type_id (arc_dyn (mem w (control_block_of var))) = marker var" and "\<not> transaction_running w me"
    and "\<not> hash_registers cfg"
  shows "(\<exists>w'. atomically cfg env me (TVar_read cfg var) w = Some (TVar_read_atomic var w, w') \<and>
        store w' = store w) \<and>
    (\<exists>w'. atomically cfg env me (TVar_write cfg var v) w = Some (Inr (), w') \<and>
        store w' = store (TVar_write_atomic var v w)) \<and>
    (\<exists>w' u. atomically cfg env me (TVar_modify cfg var f) w = Some (Inr (), w') \<and>
        TVar_read_atomic var w = Inr u \<and> store w' = store (TVar_write_atomic var (f u) w)) \<and>
    (\<exists>w'. atomically cfg env me (TVar_exchange cfg var v) w = Some (TVar_read_atomic var w, w') \<and>
        store w' = store (TVar_write_atomic var v w))"
proof -
  have ty: "types_of w (control_block_of var) = marker var" using assms(1) by (simp add: types_of_def)
  note assms = ty assms(2,3)
  have read: "TVar_read_atomic var w = Inr (store w (control_block_of var))"
    by (rule TVar_read_atomic_typed [where ty = "types_of w", OF ty typed_types_of(1)])
  show ?thesis
  proof (intro conjI)
    show "\<exists>w'. atomically cfg env me (TVar_read cfg var) w = Some (TVar_read_atomic var w, w') \<and> store w' = store w"
      by (rule read_transaction [OF assms, of env]) blast
    show "\<exists>w'. atomically cfg env me (TVar_write cfg var v) w = Some (Inr (), w') \<and>
        store w' = store (TVar_write_atomic var v w)"
      by (rule write_transaction [OF assms, of env v]) blast
    show "\<exists>w' u. atomically cfg env me (TVar_modify cfg var f) w = Some (Inr (), w') \<and>
        TVar_read_atomic var w = Inr u \<and> store w' = store (TVar_write_atomic var (f u) w)"
      by (rule modify_transaction [OF assms, of env f]) (use read in blast)
    show "\<exists>w'. atomically cfg env me (TVar_exchange cfg var v) w = Some (TVar_read_atomic var w, w') \<and>
        store w' = store (TVar_write_atomic var v w)"
      by (rule exchange_transaction [OF assms, of env v]) blast
  qed
qed

theorem atomic_accessors_are_transactions_witness:
  "\<exists>w'. atomically default_config id 0 (TVar_write default_config (demo_var 2) 99) demo_world = Some (Inr (), w') \<and>
     store w' = store (TVar_write_atomic (demo_var 2) 99 demo_world)"
  using atomic_accessors_are_transactions [where var = "demo_var 2" and w = demo_world and cfg = default_config
      and me = 0 and env = id and v = 99] by simp

section \<open>The examples run\<close>

lemma Transaction_with_err_stops:
  assumes "\<not> transaction_running w me"
    and "with_err_body cfg env me f (transaction_default, ()) (w\<lparr>transaction_running := (transaction_running w)(me := True)\<rparr>)
      = Some (Inr (Inl r), w')"
  shows "\<exists>w'. atomically_with_err cfg env me f w = Some (Inr r, w')"
  using assms(1) rust_loop_stops(3) [of "with_err_body cfg env me f", OF assms(2)]
  by (simp add: atomically_with_err_def Transaction_with_err_def with_guard_enters)

lemma commit_nothing: "\<exists>w'. commit_or_clear cfg r transaction_default c w = Some (Inr (Inl r), w')"
  by (simp add: commit_or_clear_def Transaction_commit_eq transaction_default_def keys_live_def log_valid_def)

lemma error_examples:
  assumes "\<not> transaction_running w me"
  shows "doc_try_or_coerce cfg env me w" and "doc_abort cfg env me w"
proof -
  let ?f = "and_then (coerced error2_from op1) (\<lambda>_. and_then op2 (\<lambda>_. lift_result (Inr ()))) ::
    (int, error2 transaction_error, unit) body"
  have "?f tx w = (Inr (Inr (), tx), w)" for tx w
    by (simp add: and_then_def coerced_def op1_def op2_def lift_result_def)
  with commit_nothing obtain w' where
    "with_err_body cfg env me ?f (transaction_default, ()) (w\<lparr>transaction_running := (transaction_running w)(me := True)\<rparr>)
      = Some (Inr (Inl (Inr ())), w')" by (fastforce simp: with_err_body_def)
  from Transaction_with_err_stops [OF assms this] show "doc_try_or_coerce cfg env me w"
    by (auto simp: doc_try_or_coerce_def)
  let ?g = "lift_result (abort MyError) :: (int, my_error transaction_error, 32 word) body"
  have "\<exists>w'. atomically_with_err cfg env me ?g w = Some (Inr (Inl MyError), w')"
    by (rule Transaction_with_err_stops [OF assms]) (simp add: with_err_body_def lift_result_def abort_def)
  then show "doc_abort cfg env me w" by (auto simp: doc_abort_def)
qed

lemma returns_finishes: "returns x r \<Longrightarrow> finishes r"
  by (auto elim: returns.elims)

lemma body_examples:
  assumes "\<not> transaction_running w me" and "\<not> hash_registers cfg"
  shows "doc_atomically cfg env me w" and "doc_optionally cfg env me w" and "doc_pass_failure cfg env me w"
    and "doc_guard cfg env me w"
proof -
  show "doc_atomically cfg env me w" "doc_optionally cfg env me w"
    unfolding doc_atomically_def doc_optionally_def
    by (rule atomically_returns [OF refining_result assms]
        atomically_returns [OF refining_optionally [OF refining_result] assms]; simp add: s_defs)+
  note returns = new_var_returns [OF _ assms]
  show "doc_pass_failure cfg env me w"
    unfolding doc_pass_failure_def
    by (auto intro!: returns [OF _ refining_then [OF refining_ops(2) refining_ops(1)]] simp: s_defs split: prod.split)
  show "doc_guard cfg env me w"
    unfolding doc_guard_def
    by (auto intro!: returns [OF _ refining_then [OF refining_ops(1) refining_then [OF refining_result refining_result]]]
        simp: s_defs guard_def split: prod.split)
qed

lemma var_examples:
  assumes "\<not> transaction_running w me" and "\<not> hash_registers cfg"
  shows "doc_read_atomic cfg env me w" and "doc_write_atomic cfg env me w" and "doc_modify cfg env me w"
    and "doc_exchange cfg env me w"
proof -
  have new: "types_of w1 (control_block_of var) = marker var" "\<not> transaction_running w1 me"
      "TVar_read_atomic var w1 = Inr x" "store w1 (control_block_of var) = x"
    if "TVar_new 0 x w = (var, w1)" for x :: int and var w1
    using TVar_new_ops [OF that] assms(1) TVar_read_atomic_typed [OF _ typed_types_of(1)] by metis+
  note reads = read_transaction [OF new(1,2) assms(2), where env = env]
    and writes = write_transaction [OF new(1,2) assms(2), where env = env]
    and modifies = modify_transaction [OF new(1,2) assms(2), where env = env]
    and exchanges = exchange_transaction [OF new(1,2) assms(2), where env = env]
    and typed = TVar_read_atomic_typed [where ty = "types_of w1" and w = w' for w1 w', OF new(1)]
  obtain v0 w0 v1 w1 where vars: "TVar_new 0 (0 :: int) w = (v0, w0)" "TVar_new 0 (21 :: int) w = (v1, w1)"
    by fastforce
  show "doc_read_atomic cfg env me w"
    by (rule reads [OF vars(1) vars(1)]) (simp add: doc_read_atomic_def vars new(3) [OF vars(1)])
  show "doc_write_atomic cfg env me w"
    by (rule writes [OF vars(1) vars(1), where v = 1]) (simp add: doc_write_atomic_def vars)
  show "doc_modify cfg env me w"
    by (rule modifies [OF vars(2) vars(2), where f = "\<lambda>x. x * 2"])
      (simp add: doc_modify_def vars typed [OF vars(2)] new(4) [OF vars(2)] store_write_atomic)
  show "doc_exchange cfg env me w"
    by (rule exchanges [OF vars(1) vars(1), where v = 42])
      (simp add: doc_exchange_def vars typed [OF vars(1)] new(3) [OF vars(1)] store_write_atomic)
qed

text \<open>The assertion in the body of a transaction holds at its first attempt, and there is no second one.\<close>

lemma assert_example:
  assumes "\<not> transaction_running w me" and "\<not> hash_registers cfg"
  shows "doc_unwrap_or_retry cfg env me w"
proof -
  obtain x w1 where new: "TVar_new 1 (Some (42 :: int)) w = (x, w1)" by fastforce
  let ?w = "w1\<lparr>transaction_running := (transaction_running w1)(me := True)\<rparr>"
  let ?f = "and_then (TVar_read cfg x) (\<lambda>v. and_then (lift_result (unwrap_or_retry v))
              (\<lambda>inner. if inner = 42 then lift_result (Inr inner) else user_panic))"
  let ?tx = "set_entry cfg x (Read (mem w1 (control_block_of x))) (count cfg (n_read_update (\<lambda>n. n + 1)) transaction_default)"
  have v: "type_id (arc_dyn (mem w1 (control_block_of x))) = marker x" "payload (arc_dyn (mem w1 (control_block_of x))) = Some 42"
    using TVar_new_sel [OF new] by simp_all
  have read: "Transaction_read cfg x transaction_default ?w = (Inr (Inr (Some 42), ?tx), ?w)"
    using v by (simp add: Transaction_read_eq entry_of_def counted_def transaction_default_def downcast_def early_conflict_iff
        ptr_eq_def Let_def)
  have log: "log_valid ?w (vars ?tx)" "reg_wf cfg (vars ?tx)"
    by (auto simp: set_entry_def transaction_default_def log_valid_def reg_wf_def ptr_eq_def split: if_splits)
  have "commit_or_clear cfg (Some 42) ?tx () ?w = Some (Inr (Inl (Some 42)), commit_world cfg (reg_records cfg (vars ?tx)) ?w)"
    using log assms(2) by (simp add: commit_or_clear_def Transaction_commit_eq keys_live_def)
  then have "rust_loop (with_control_body cfg env me always_retry ?f) (transaction_default, ()) ?w =
      Some (Inr (Some 42), commit_world cfg (reg_records cfg (vars ?tx)) ?w)"
    by (intro rust_loop_stops) (simp add: with_control_body_def and_then_def TVar_read_def read lift_result_def)
  moreover have "\<not> transaction_running w1 me" using assms(1) TVar_new_sel [OF new] by simp
  ultimately show ?thesis
    by (simp add: doc_unwrap_or_retry_def new [unfolded One_nat_def] atomically_def Transaction_with_def Transaction_with_control_def
        with_guard_enters)
qed

text \<open>All code blocks of the documentation that are run, in every world and whatever the other threads do.\<close>

theorem doc_examples_pass:
  assumes "\<not> transaction_running w me" and "\<not> transaction_running u me" and "\<not> hash_registers cfg"
  shows "doc_atomically cfg env me w \<and> doc_pass_failure cfg env me w \<and> doc_try_or_coerce cfg env me w \<and>
    doc_abort cfg env me w \<and> doc_unwrap_or_retry cfg env' me u \<and> doc_guard cfg env me w \<and>
    doc_optionally cfg env me w \<and> doc_read_atomic cfg env me w \<and> doc_write_atomic cfg env me w \<and>
    doc_modify cfg env me w \<and> doc_exchange cfg env me w"
  using body_examples [OF assms(1,3)] error_examples [OF assms(1)] assert_example [OF assms(2,3)]
    var_examples [OF assms(1,3)] by blast

end
