(* ===== verification/Benchmarks.thy ===== *)
theory Benchmarks
  imports Doc_Examples
begin

text \<open>
  What the benchmarks measure (\<open>benches/benches/*.rs\<close>).  The library that times them runs a closure again
  and again on the same state; how often, is a parameter here, as are the values that a bench stores and
  the number of its variables.  The baselines of the standard library (\<open>AtomicU32\<close>, \<open>RwLock\<close>) and the
  plots are left out.  The theorem is that the benches measure what their names say: every one of the
  repeated reads gives the value of its variable, and every one of the repeated commits of one
  transaction succeeds, so no bench measures an early return.
\<close>

section \<open>The benches\<close>

text \<open>The routine of a bench takes the variables that its closure captures.\<close>

type_synonym ('v, 's, 'a) routine = "'s \<Rightarrow> 'v world \<Rightarrow> ((fault + 'a \<times> 's) \<times> 'v world) option"

text \<open>\<open>b.iter(routine)\<close>, for \<open>n\<close> iterations: the list of what they return.\<close>

fun iter :: "nat \<Rightarrow> ('v, 's, 'a) routine \<Rightarrow> ('v, 's, 'a list) routine" where
  "iter 0 routine s w = Some (Inr ([], s), w)"
| "iter (Suc n) routine s w = (case routine s w of
       Some (Inr (x, s), w) \<Rightarrow>
         (case iter n routine s w of
            Some (Inr (xs, s), w) \<Rightarrow> Some (Inr (x # xs, s), w)
          | Some (Inl flt, w) \<Rightarrow> Some (Inl flt, w)
          | None \<Rightarrow> None)
     | Some (Inl flt, w) \<Rightarrow> Some (Inl flt, w)
     | None \<Rightarrow> None)"

text \<open>\<open>(0..n).map(|_| TVar::new(v)).collect()\<close>\<close>

fun new_tvars :: "nat \<Rightarrow> nat \<Rightarrow> 'v \<Rightarrow> 'v world \<Rightarrow> tvar list \<times> 'v world" where
  "new_tvars 0 ty v w = ([], w)"
| "new_tvars (Suc n) ty v w =
     (let (x, w) = TVar_new ty v w; (xs, w) = new_tvars n ty v w in (x # xs, w))"

text \<open>A loop over variables that drops what the operation returns.\<close>

fun for_each :: "(tvar \<Rightarrow> ('v, 'e, 't) body) \<Rightarrow> tvar list \<Rightarrow> ('v, 'v transaction, unit) routine" where
  "for_each m [] tx w = Some (Inr ((), tx), w)"
| "for_each m (x # xs) tx w = (case m x tx w of
       (Inl flt, w) \<Rightarrow> Some (Inl flt, w)
     | (Inr (_, tx), w) \<Rightarrow> for_each m xs tx w)"

definition then_do :: "('v, 's, 'a) routine \<Rightarrow> ('v, 's, 'b) routine \<Rightarrow> ('v, 's, 'b) routine" where
  "then_do r r' s w = (case r s w of
       Some (Inr (_, s), w) \<Rightarrow> r' s w
     | Some (Inl flt, w) \<Rightarrow> Some (Inl flt, w)
     | None \<Rightarrow> None)"

definition commit_routine :: "config \<Rightarrow> ('v, 'v transaction, bool) routine" where
  "commit_routine cfg tx w = (case commit_transaction cfg tx w of
       (Inl flt, w) \<Rightarrow> Some (Inl flt, w)
     | (Inr b, w) \<Rightarrow> Some (Inr (b, tx), w))"

text \<open>The three benches of \<open>transactions.rs\<close>: \<open>n\<close> accesses, and the commit, \<open>k\<close> times.  An index is in
  range: the vector is as long as the greatest \<open>n\<close>.\<close>

definition n_reads_commit :: "config \<Rightarrow> tvar list \<Rightarrow> nat \<Rightarrow> nat \<Rightarrow> ('v, 'v transaction, bool list) routine" where
  "n_reads_commit cfg tvs n k =
     then_do (for_each (Transaction_read cfg) (take n tvs)) (iter k (commit_routine cfg))"

definition n_writes_commit :: "config \<Rightarrow> tvar list \<Rightarrow> 'v \<Rightarrow> nat \<Rightarrow> nat \<Rightarrow> ('v, 'v transaction, bool list) routine" where
  "n_writes_commit cfg tvs v n k =
     then_do (for_each (\<lambda>x. Transaction_write cfg x v) (take n tvs)) (iter k (commit_routine cfg))"

definition n_accesses_commit :: "config \<Rightarrow> tvar list \<Rightarrow> 'v \<Rightarrow> nat \<Rightarrow> nat \<Rightarrow> ('v, 'v transaction, bool list) routine" where
  "n_accesses_commit cfg tvs v n k =
     then_do (for_each (Transaction_read cfg) (take (n div 2) tvs))
       (then_do (for_each (\<lambda>x. Transaction_write cfg x v) (drop (n div 2) (take n tvs)))
         (iter k (commit_routine cfg)))"

text \<open>The benches of \<open>read.rs\<close> and of \<open>tvars.rs\<close>: one variable in a transaction that stays open, in a transaction of
  its own, outside of transactions; \<open>n\<close> variables; and the \<open>n\<close>-th variable after the others.\<close>

definition access_alone :: "('v, 'e, 't) body \<Rightarrow> nat \<Rightarrow> ('v, 'v transaction, ('e + 't) list) routine" where
  "access_alone m k = iter k (\<lambda>tx w. Some (m tx w))"

definition access_in_transaction :: "config \<Rightarrow> ('v world \<Rightarrow> 'v world) \<Rightarrow> nat \<Rightarrow> ('v, stm_error, 't) body \<Rightarrow> nat \<Rightarrow>
    ('v, unit, 't list) routine" where
  "access_in_transaction cfg env me m k = iter k (\<lambda>s w. case atomically cfg env me m w of
       Some (Inr t, w) \<Rightarrow> Some (Inr (t, s), w)
     | Some (Inl flt, w) \<Rightarrow> Some (Inl flt, w)
     | None \<Rightarrow> None)"

definition bench_read_atomic :: "tvar \<Rightarrow> nat \<Rightarrow> ('v, unit, 'v list) routine" where
  "bench_read_atomic tvar k = iter k (\<lambda>s w. Some (map_sum id (\<lambda>v. (v, s)) (TVar_read_atomic tvar w), w))"

definition bench_write_atomic :: "tvar \<Rightarrow> 'v \<Rightarrow> nat \<Rightarrow> ('v, unit, unit list) routine" where
  "bench_write_atomic tvar v k = iter k (\<lambda>s w. Some (Inr ((), s), TVar_write_atomic tvar v w))"

definition n_accesses :: "(tvar \<Rightarrow> ('v, 'e, 't) body) \<Rightarrow> tvar list \<Rightarrow> nat \<Rightarrow> nat \<Rightarrow> ('v, 'v transaction, unit list) routine" where
  "n_accesses m tvs n k = iter k (for_each m (take n tvs))"

definition nth_access :: "(tvar \<Rightarrow> ('v, 'e, 't) body) \<Rightarrow> tvar list \<Rightarrow> nat \<Rightarrow> nat \<Rightarrow>
    ('v, 'v transaction, ('e + 't) list) routine" where
  "nth_access m tvs n k =
     then_do (for_each m (take (n - 1) tvs)) (iter k (\<lambda>tx w. Some (m (tvs ! (n - 1)) tx w)))"

text \<open>The third group of \<open>tvars.rs\<close>: a new variable in each iteration.\<close>

definition bench_new :: "nat \<Rightarrow> 'v \<Rightarrow> nat \<Rightarrow> ('v, unit, tvar list) routine" where
  "bench_new ty v k = iter k (\<lambda>s w. let (x, w) = TVar_new ty v w in Some (Inr (x, s), w))"

section \<open>Operations in an open transaction\<close>

text \<open>What the logs of the benches have in common: everything read is current.\<close>

definition steady :: "(block \<Rightarrow> nat) \<Rightarrow> config \<Rightarrow> 'v transaction \<Rightarrow> 'v world \<Rightarrow> bool" where
  "steady ty cfg tx w \<longleftrightarrow> reg_wf cfg (vars tx) \<and> world_typed ty w \<and> log_typed ty (vars tx) \<and> log_current w (vars tx)"

lemma steady_init: "steady (types_of w) cfg init_transaction w"
  by (simp add: steady_def init_transaction_def transaction_default_def typed_types_of)

lemma steady_step:
  assumes "refining_body ty cfg m a" and "steady ty cfg tx w" and "a (view tx w) = Inr (t, s)"
  obtains tx' w' where "m tx w = (Inr (Inr t, tx'), w')" and "steady ty cfg tx' w'" and "view tx' w' = s"
proof -
  note typed = refining_body.axioms(1) [OF assms(1)]
  note st = assms(2) [unfolded steady_def]
  obtain r tx' w' where run: "m tx w = (Inr (r, tx'), w')"
    using typed_body.typed [OF typed] st by blast
  note spec = refining_body.refines [OF assms(1) _ _ _ _ run]
    and keeps = typed_body.keeps_typing [OF typed run]
  have "steady ty cfg tx' w'" "r = Inr t" "view tx' w' = s"
    using st spec keeps assms(3) by (auto simp: steady_def)
  with run show thesis by (auto intro: that)
qed


text \<open>The logs of the benches that commit: the variables of \<open>R\<close> are read and no others, and none of them is
  written.  Such a log stays current when it is committed.\<close>

fun fits :: "block set \<Rightarrow> block \<Rightarrow> 'a log_var \<Rightarrow> bool" where
  "fits R k (Read v) \<longleftrightarrow> k \<in> R"
| "fits R k (Write v) \<longleftrightarrow> k \<notin> R"
| "fits R k l \<longleftrightarrow> False"

definition plain :: "block set \<Rightarrow> 'a register \<Rightarrow> bool" where
  "plain R r \<longleftrightarrow> (\<forall>k l. map_of r k = Some l \<longrightarrow> fits R k l)"

lemma fits_write: "fits R k l \<Longrightarrow> k \<notin> R \<Longrightarrow> fits R k (LogVar_write b l)"
  by (cases l) simp_all

lemma plain_set_entry:
  "plain R (vars tx) \<Longrightarrow> reg_wf cfg (vars tx) \<Longrightarrow> fits R (control_block_of var) l \<Longrightarrow> vars tx1 = vars tx \<Longrightarrow>
   plain R (vars (set_entry cfg var l tx1))"
  by (simp add: plain_def)

lemma plain_read:
  assumes "plain R (vars tx)" and "reg_wf cfg (vars tx)" and "control_block_of var \<in> R"
    and "Transaction_read cfg var tx w = (Inr (r, tx'), w')"
  shows "plain R (vars tx')"
proof -
  have "fits R (control_block_of var) (entry_of var tx w)"
    using assms(1,3) by (auto simp: plain_def entry_of_def split: option.split)
  then have "fits R (control_block_of var) (snd (LogVar_read (entry_of var tx w)))"
    by (cases "entry_of var tx w") simp_all
  from plain_set_entry [OF assms(1,2) this] assms(1,4) show ?thesis
    by (auto simp: Transaction_read_eq Let_def split: if_splits sum.splits)
qed

lemma plain_write:
  assumes "plain R (vars tx)" and "reg_wf cfg (vars tx)" and "control_block_of var \<notin> R"
    and "Transaction_write cfg var v tx w = (Inr (r, tx'), w')"
  shows "plain R (vars tx')"
proof -
  have "fits R (control_block_of var) (case map_of (vars tx) (control_block_of var) of
      Some l \<Rightarrow> LogVar_write b l | None \<Rightarrow> Write b)" for b
    using assms(1,3) by (auto simp: plain_def fits_write split: option.split)
  from plain_set_entry [OF assms(1,2) this] assms(4) show ?thesis
    by (auto simp: Transaction_write_eq Let_def)
qed

lemma steady_commit:
  assumes "steady ty cfg tx w" and "plain R (vars tx)" and "\<not> hash_registers cfg"
  shows "\<exists>w'. commit_routine cfg tx w = Some (Inr (True, tx), w') \<and> steady ty cfg tx w' \<and> store w' = view tx w \<and>
    view tx w' = view tx w"
proof -
  note st = assms(1) [unfolded steady_def]
  let ?w = "commit_world cfg (reg_records cfg (vars tx)) w"
  have wf: "reg_wf cfg (vars tx)" using st by simp
  have "commit_routine cfg tx w = Some (Inr (True, tx), ?w)"
    using st assms(3)
    by (simp add: commit_routine_def commit_transaction_def Transaction_commit_eq log_current_valid)
  moreover have cur: "log_current ?w (vars tx)"
    unfolding log_current_def
  proof (intro allI impI)
    fix k l v
    assume l: "map_of (vars tx) k = Some l" "LogVar_into_read_value l = Some v"
    then have "fits R k l" "mem w k = v" using st assms(2) by (auto simp: plain_def log_current_def)
    with l show "mem ?w k = v" by (cases l) (simp_all add: commit_world_blocks [OF wf] log_writes_def)
  qed
  moreover have "world_typed ty ?w" using st by (intro world_typed_commit) simp_all
  moreover have "store ?w = view tx w" using st by (simp add: commit_installs_view)
  moreover have "view tx ?w = view tx w"
  proof
    fix k show "view tx ?w k = view tx w k"
      by (simp add: view_def commit_world_blocks [OF wf] log_writes_def split: option.split)
  qed
  ultimately show ?thesis using st by (auto simp: steady_def)
qed

section \<open>Loops\<close>

lemma iter_rule:
  assumes "I s w" and "\<And>s w. I s w \<Longrightarrow> \<exists>s' w'. routine s w = Some (Inr (x, s'), w') \<and> I s' w'"
  shows "\<exists>s' w'. iter n routine s w = Some (Inr (replicate n x, s'), w') \<and> I s' w'"
  using assms(1)
proof (induction n arbitrary: s w)
  case (Suc n)
  then show ?case using assms(2) by fastforce
qed simp

lemma for_each_rule:
  assumes "I tx w"
    and "\<And>x tx w. x \<in> set xs \<Longrightarrow> I tx w \<Longrightarrow> \<exists>r tx' w'. m x tx w = (Inr (r, tx'), w') \<and> I tx' w'"
  shows "\<exists>tx' w'. for_each m xs tx w = Some (Inr ((), tx'), w') \<and> I tx' w'"
  using assms
proof (induction xs arbitrary: tx w)
  case (Cons x xs)
  obtain r tx' w' where "m x tx w = (Inr (r, tx'), w')" "I tx' w'" using Cons.prems(1) Cons.prems(2) [of x tx w] by auto
  with Cons.IH [of tx' w'] Cons.prems(2) show ?case by simp
qed simp

lemma then_do_rule:
  assumes "\<exists>s' w'. r s w = Some (Inr (x, s'), w') \<and> I s' w'"
    and "\<And>s w. I s w \<Longrightarrow> \<exists>s' w'. r' s w = Some (Inr (y, s'), w') \<and> J s' w'"
  shows "\<exists>s' w'. then_do r r' s w = Some (Inr (y, s'), w') \<and> J s' w'"
  using assms by (fastforce simp: then_do_def)

section \<open>The variables\<close>

lemma new_tvars_sel:
  "new_tvars n ty v w = (xs, w') \<Longrightarrow>
   map control_block_of xs = map Block [next_block w..<next_block w + n] \<and>
   (\<forall>x \<in> set xs. marker x = ty \<and> arc_dyn (mem w' (control_block_of x)) = Dyn ty v) \<and>
   (\<forall>j < next_block w. mem w' (Block j) = mem w (Block j)) \<and>
   transaction_running w' = transaction_running w"
proof (induction n arbitrary: w xs)
  case (Suc n)
  obtain x w1 xs' where new: "TVar_new ty v w = (x, w1)" and rest: "new_tvars n ty v w1 = (xs', w')" and xs: "xs = x # xs'"
    using Suc.prems by (auto simp: Let_def split: prod.splits)
  from Suc.IH [OF rest] TVar_new_sel [OF new] show ?case by (simp add: xs upt_conv_Cons)
qed simp

lemma new_tvars_ready:
  assumes "new_tvars n ty v w0 = (xs, w)"
  shows "distinct (map control_block_of xs)" and "x \<in> set xs \<Longrightarrow> types_of w (control_block_of x) = marker x"
    and "x \<in> set xs \<Longrightarrow> store w (control_block_of x) = v" and "length xs = n"
proof -
  note sel = new_tvars_sel [OF assms]
  show "distinct (map control_block_of xs)" using sel by (simp add: distinct_map inj_on_def)
  have "length (map control_block_of xs) = n" using sel by (simp del: length_map) simp
  then show "length xs = n" by simp
qed (use new_tvars_sel [OF assms] in \<open>simp_all add: types_of_def store_def\<close>)

text \<open>The bench of \<open>TVar::new\<close> makes the variables that a loop would collect, so all of them are different.\<close>

lemma bench_new_collects:
  "bench_new ty v k s w = (case new_tvars k ty v w of (xs, w') \<Rightarrow> Some (Inr (xs, s), w'))"
  by (induction k arbitrary: w) (simp_all add: bench_new_def Let_def split: prod.split)

section \<open>What the benches measure\<close>

lemma read_step:
  assumes "steady ty cfg tx w" and "ty (control_block_of x) = marker x"
  shows "\<exists>tx' w'. Transaction_read cfg x tx w = (Inr (Inr (view tx w (control_block_of x)), tx'), w') \<and>
    steady ty cfg tx' w' \<and> view tx' w' = view tx w \<and>
    (plain R (vars tx) \<and> control_block_of x \<in> R \<longrightarrow> plain R (vars tx'))"
proof -
  have "s_read (control_block_of x) (view tx w) = Inr (view tx w (control_block_of x), view tx w)"
    by (simp add: s_read_def)
  from steady_step [OF refining_read [of ty x cfg, OF assms(2)] assms(1) this] obtain tx' w' where
    run: "Transaction_read cfg x tx w = (Inr (Inr (view tx w (control_block_of x)), tx'), w')"
    and "steady ty cfg tx' w'" "view tx' w' = view tx w"
    by blast
  with plain_read [OF _ _ _ run] assms(1) show ?thesis by (auto simp: steady_def)
qed

lemma write_step:
  assumes "steady ty cfg tx w" and "ty (control_block_of x) = marker x"
  shows "\<exists>tx' w'. Transaction_write cfg x v tx w = (Inr (Inr (), tx'), w') \<and> steady ty cfg tx' w' \<and>
    (plain R (vars tx) \<and> control_block_of x \<notin> R \<longrightarrow> plain R (vars tx'))"
proof -
  have "s_write (control_block_of x) v (view tx w) = Inr ((), (view tx w)(control_block_of x := v))"
    by (simp add: s_write_def)
  from steady_step [OF refining_write [of ty x cfg v, OF assms(2)] assms(1) this] obtain tx' w' where
    run: "Transaction_write cfg x v tx w = (Inr (Inr (), tx'), w')" and "steady ty cfg tx' w'"
    by blast
  with plain_write [OF _ _ _ run] assms(1) show ?thesis by (auto simp: steady_def)
qed

lemma read_loop:
  assumes "steady ty cfg tx w \<and> plain R (vars tx) \<and> view tx w = s"
    and "\<And>x. x \<in> set xs \<Longrightarrow> ty (control_block_of x) = marker x \<and> control_block_of x \<in> R"
  shows "\<exists>tx' w'. for_each (Transaction_read cfg) xs tx w = Some (Inr ((), tx'), w') \<and>
    steady ty cfg tx' w' \<and> plain R (vars tx') \<and> view tx' w' = s"
  by (rule for_each_rule [where I = "\<lambda>tx w. steady ty cfg tx w \<and> plain R (vars tx) \<and> view tx w = s", OF assms(1)])
    (use assms(2) read_step [of ty cfg _ _ _ R] in fastforce)

lemma write_loop:
  assumes "steady ty cfg tx w \<and> plain R (vars tx)"
    and "\<And>x. x \<in> set xs \<Longrightarrow> ty (control_block_of x) = marker x \<and> control_block_of x \<notin> R"
  shows "\<exists>tx' w'. for_each (\<lambda>x. Transaction_write cfg x v) xs tx w = Some (Inr ((), tx'), w') \<and>
    steady ty cfg tx' w' \<and> plain R (vars tx')"
  by (rule for_each_rule [where I = "\<lambda>tx w. steady ty cfg tx w \<and> plain R (vars tx)", OF assms(1)])
    (use assms(2) write_step [of ty cfg _ _ _ v R] in fastforce)

lemma commit_loop:
  assumes "steady ty cfg tx w" and "plain R (vars tx)" and "\<not> hash_registers cfg"
  shows "\<exists>tx' w'. iter k (commit_routine cfg) tx w = Some (Inr (replicate k True, tx'), w') \<and> steady ty cfg tx' w'"
  using iter_rule [where I = "\<lambda>tx w. steady ty cfg tx w \<and> plain R (vars tx)" and routine = "commit_routine cfg"
      and x = True and n = k] assms steady_commit by blast

text \<open>The benches of the commit: all of their commits succeed.\<close>

definition completes :: "('v, 's, 'a) routine \<Rightarrow> 'a \<Rightarrow> 's \<Rightarrow> 'v world \<Rightarrow> bool" where
  "completes r x s w \<longleftrightarrow> (\<exists>s' w'. r s w = Some (Inr (x, s'), w'))"

lemma plain_init: "plain R (vars init_transaction)"
  by (simp add: plain_def init_transaction_def transaction_default_def)

lemma ex_some: "\<exists>s' w'. P s' w' \<and> Q s' w' \<Longrightarrow> \<exists>s' w'. P s' w'"
  by blast

theorem benches_commit:
  assumes "new_tvars m ty v0 w0 = (tvs, w)" and "\<not> hash_registers cfg"
  shows "completes (n_reads_commit cfg tvs n k) (replicate k True) init_transaction w \<and>
    completes (n_writes_commit cfg tvs v n k) (replicate k True) init_transaction w \<and>
    completes (n_accesses_commit cfg tvs v n k) (replicate k True) init_transaction w"
proof -
  note new = new_tvars_ready [OF assms(1)]
  define H where "H = control_block_of ` set (take (n div 2) tvs)"
  let ?S = "steady (types_of w) cfg"
  let ?I = "\<lambda>R tx w'. ?S tx w' \<and> plain R (vars tx)"
  have init: "?I R init_transaction w" for R using steady_init plain_init by blast
  have commits: "\<exists>s' w'. then_do r (iter k (commit_routine cfg)) tx w1 = Some (Inr (replicate k True, s'), w') \<and> ?S s' w'"
    if "\<exists>tx' w'. r tx w1 = Some (Inr ((), tx'), w') \<and> ?I R tx' w'" for r tx w1 R
    by (rule then_do_rule [where I = "?I R"], rule that) (use commit_loop assms(2) in blast)
  have reads: "\<exists>tx' w'. for_each (Transaction_read cfg) xs init_transaction w = Some (Inr ((), tx'), w') \<and> ?I R tx' w'"
    if "set xs \<subseteq> set tvs" and "control_block_of ` set xs \<subseteq> R" for xs R
    using read_loop [of "types_of w" cfg init_transaction w R "view init_transaction w" xs] init [of R] that new(2) by blast
  have writes: "\<exists>tx' w'. for_each (\<lambda>x. Transaction_write cfg x v) xs tx w1 = Some (Inr ((), tx'), w') \<and> ?I R tx' w'"
    if "?I R tx w1" and "set xs \<subseteq> set tvs" and "control_block_of ` set xs \<inter> R = {}" for xs R tx w1
    using that new(2) by (intro write_loop) auto
  have in_tvs: "set (take n tvs) \<subseteq> set tvs" "set (take (n div 2) tvs) \<subseteq> set tvs"
      "set (drop (n div 2) (take n tvs)) \<subseteq> set tvs"
    by (auto dest: in_set_takeD in_set_dropD)
  have apart: "control_block_of ` set (drop (n div 2) (take n tvs)) \<inter> H = {}"
  proof -
    let ?ks = "map control_block_of (take n tvs)"
    have "distinct ?ks" using distinct_take [OF new(1), of n] by (simp only: take_map)
    then have "set (take (n div 2) ?ks) \<inter> set (drop (n div 2) ?ks) = {}"
      by (rule set_take_disj_set_drop_if_distinct) simp
    then show ?thesis by (simp add: H_def take_map drop_map min_def inf_commute)
  qed
  have "completes (n_reads_commit cfg tvs n k) (replicate k True) init_transaction w"
    unfolding completes_def n_reads_commit_def
    by (rule ex_some, rule commits, rule reads [OF in_tvs(1) subset_UNIV])
  moreover have "completes (n_writes_commit cfg tvs v n k) (replicate k True) init_transaction w"
    unfolding completes_def n_writes_commit_def
    by (rule ex_some, rule commits, rule writes [OF init [of "{}"] in_tvs(1) Int_empty_right])
  moreover have "completes (n_accesses_commit cfg tvs v n k) (replicate k True) init_transaction w"
    unfolding completes_def n_accesses_commit_def
    by (rule ex_some, rule then_do_rule [where I = "?I H"], rule reads [OF in_tvs(2)], simp add: H_def,
        rule commits, rule writes [OF _ in_tvs(3) apart])
  ultimately show ?thesis by blast
qed


lemma completes_iter:
  assumes "I s w" and "\<And>s w. I s w \<Longrightarrow> \<exists>s' w'. routine s w = Some (Inr (x, s'), w') \<and> I s' w'"
  shows "completes (iter n routine) (replicate n x) s w"
  using iter_rule [of I s w routine x n, OF assms(1)] assms(2) unfolding completes_def by blast

text \<open>The benches of one variable, which a transaction of the variable's own type reads and writes.\<close>

theorem benches_access:
  assumes "types_of w (control_block_of x) = marker x" and "\<not> transaction_running w me" and "\<not> hash_registers cfg"
  shows "completes (access_alone (Transaction_read cfg x) k) (replicate k (Inr (store w (control_block_of x)))) init_transaction w"
    and "completes (access_alone (Transaction_write cfg x v) k) (replicate k (Inr ())) init_transaction w"
    and "completes (access_in_transaction cfg env me (TVar_read cfg x) k) (replicate k (store w (control_block_of x))) () w"
    and "completes (access_in_transaction cfg env me (TVar_write cfg x v) k) (replicate k ()) () w"
    and "completes (bench_read_atomic x k) (replicate k (store w (control_block_of x))) () w"
    and "completes (bench_write_atomic x v k) (replicate k ()) () w"
proof -
  let ?k = "control_block_of x" and ?S = "steady (types_of w) cfg"
  have view: "view init_transaction w = store w" by (simp add: init_transaction_def transaction_default_def)
  show "completes (access_alone (Transaction_read cfg x) k) (replicate k (Inr (store w ?k))) init_transaction w"
    unfolding access_alone_def
    by (rule completes_iter [where I = "\<lambda>tx w'. ?S tx w' \<and> view tx w' = store w"])
      (use steady_init view assms(1) read_step [of "types_of w" cfg _ _ x UNIV] in fastforce)+
  show "completes (access_alone (Transaction_write cfg x v) k) (replicate k (Inr ())) init_transaction w"
    unfolding access_alone_def
    by (rule completes_iter [where I = ?S])
      (use steady_init assms(1) write_step [of "types_of w" cfg _ _ x v UNIV] in blast)+
  let ?T = "\<lambda>s w'. types_of w' ?k = marker x \<and> \<not> transaction_running w' me"
  have typed: "types_of w2 ?k = marker x" if "world_typed (types_of w1) w2" "types_of w1 ?k = marker x" for w1 w2 :: "'a world"
    using that by (simp add: world_typed_def types_of_def)
  have atomic: "TVar_read_atomic x w1 = Inr (store w1 ?k)" if "types_of w1 ?k = marker x" for w1 :: "'a world"
    by (rule TVar_read_atomic_typed [OF that typed_types_of(1)])
  show "completes (access_in_transaction cfg env me (TVar_read cfg x) k) (replicate k (store w ?k)) () w"
    unfolding access_in_transaction_def
  proof (rule completes_iter [where I = "\<lambda>s w'. ?T s w' \<and> store w' = store w"])
    fix s and w1 :: "'a world"
    assume I: "?T s w1 \<and> store w1 = store w"
    then show "\<exists>s' w'. (case atomically cfg env me (TVar_read cfg x) w1 of
          Some (Inr t, w) \<Rightarrow> Some (Inr (t, s), w) | Some (Inl flt, w) \<Rightarrow> Some (Inl flt, w) | None \<Rightarrow> None) =
        Some (Inr (store w ?k, s'), w') \<and> ?T s' w' \<and> store w' = store w"
      by (elim conjE, elim read_transaction [OF _ _ assms(3), where env = env]) (use atomic typed in auto)
  qed (use assms in simp)
  show "completes (access_in_transaction cfg env me (TVar_write cfg x v) k) (replicate k ()) () w"
    unfolding access_in_transaction_def
  proof (rule completes_iter [where I = ?T])
    fix s and w1 :: "'a world"
    assume "?T s w1"
    then show "\<exists>s' w'. (case atomically cfg env me (TVar_write cfg x v) w1 of
          Some (Inr t, w) \<Rightarrow> Some (Inr (t, s), w) | Some (Inl flt, w) \<Rightarrow> Some (Inl flt, w) | None \<Rightarrow> None) =
        Some (Inr ((), s'), w') \<and> ?T s' w'"
      by (elim conjE, elim write_transaction [OF _ _ assms(3), where env = env and v = v]) (use typed in auto)
  qed (use assms in simp)
  show "completes (bench_read_atomic x k) (replicate k (store w ?k)) () w"
    unfolding bench_read_atomic_def
    by (rule completes_iter [where I = "\<lambda>s w'. w' = w"]) (simp_all add: atomic [OF assms(1)])
  show "completes (bench_write_atomic x v k) (replicate k ()) () w"
    unfolding bench_write_atomic_def by (rule completes_iter [where I = "\<lambda>s w'. True"]) simp_all
qed

text \<open>The benches of many variables.\<close>

theorem benches_accesses:
  assumes "new_tvars m ty v0 w0 = (tvs, w)"
  shows "completes (n_accesses (Transaction_read cfg) tvs n k) (replicate k ()) init_transaction w"
    and "completes (n_accesses (\<lambda>x. Transaction_write cfg x v) tvs n k) (replicate k ()) init_transaction w"
    and "0 < n \<Longrightarrow> n \<le> m \<Longrightarrow>
      completes (nth_access (Transaction_read cfg) tvs n k) (replicate k (Inr v0)) init_transaction w"
    and "0 < n \<Longrightarrow> n \<le> m \<Longrightarrow>
      completes (nth_access (\<lambda>x. Transaction_write cfg x v) tvs n k) (replicate k (Inr ())) init_transaction w"
proof -
  note new = new_tvars_ready [OF assms]
  let ?R = "\<lambda>tx w'. steady (types_of w) cfg tx w' \<and> plain UNIV (vars tx) \<and> view tx w' = store w"
  let ?W = "\<lambda>tx w'. steady (types_of w) cfg tx w' \<and> plain {} (vars tx)"
  have init: "?R init_transaction w" "?W init_transaction w"
    using steady_init plain_init by (auto simp: init_transaction_def transaction_default_def)
  have typed: "types_of w (control_block_of x) = marker x" if "x \<in> set (take j tvs)" for x j
    by (rule new(2)) (rule in_set_takeD [OF that])
  have reads: "\<exists>tx' w'. for_each (Transaction_read cfg) (take j tvs) tx w1 = Some (Inr ((), tx'), w') \<and> ?R tx' w'"
    if "?R tx w1" for j tx w1
    by (rule read_loop [OF that]) (simp add: typed)
  have writes: "\<exists>tx' w'. for_each (\<lambda>x. Transaction_write cfg x v) (take j tvs) tx w1 = Some (Inr ((), tx'), w') \<and> ?W tx' w'"
    if "?W tx w1" for j tx w1
    by (rule write_loop [OF that]) (simp add: typed)
  show "completes (n_accesses (Transaction_read cfg) tvs n k) (replicate k ()) init_transaction w"
    unfolding n_accesses_def by (rule completes_iter [where I = ?R, OF init(1)]) (rule reads)
  show "completes (n_accesses (\<lambda>x. Transaction_write cfg x v) tvs n k) (replicate k ()) init_transaction w"
    unfolding n_accesses_def by (rule completes_iter [where I = ?W, OF init(2)]) (rule writes)
  assume "0 < n" "n \<le> m"
  then have nth: "tvs ! (n - 1) \<in> set tvs" using new(4) by simp
  note x = new(2) [OF nth] and v0 = new(3) [OF nth]
  show "completes (nth_access (Transaction_read cfg) tvs n k) (replicate k (Inr v0)) init_transaction w"
    unfolding completes_def nth_access_def
  proof (rule ex_some, rule then_do_rule [where I = ?R], rule reads [OF init(1)], rule iter_rule [where I = ?R])
    fix tx :: "'a transaction" and w1 assume "?R tx w1"
    with read_step [of "types_of w" cfg tx w1 "tvs ! (n - 1)" UNIV, OF _ x] v0
    show "\<exists>tx' w'. Some (Transaction_read cfg (tvs ! (n - 1)) tx w1) = Some (Inr (Inr v0, tx'), w') \<and> ?R tx' w'"
      unfolding option.inject by (metis UNIV_I)
  qed
  show "completes (nth_access (\<lambda>x. Transaction_write cfg x v) tvs n k) (replicate k (Inr ())) init_transaction w"
    unfolding completes_def nth_access_def
  proof (rule ex_some, rule then_do_rule [where I = ?W], rule writes [OF init(2)], rule iter_rule [where I = ?W])
    fix tx :: "'a transaction" and w1 assume "?W tx w1"
    with write_step [of "types_of w" cfg tx w1 "tvs ! (n - 1)" v "{}", OF _ x]
    show "\<exists>tx' w'. Some (Transaction_write cfg (tvs ! (n - 1)) v tx w1) = Some (Inr (Inr (), tx'), w') \<and> ?W tx' w'"
      unfolding option.inject by (metis empty_iff)
  qed
qed

end
