(* ===== verification/Build_Script.thy ===== *)
theory Build_Script
  imports STM_Prelude
begin

text \<open>
  The build script (\<open>build.rs\<close>) tells the compiler the channel of the toolchain.  Which of the three
  functions \<open>set_rustc_channel_cfg\<close> is compiled is decided by the crate \<open>rustversion\<close>; the channel is
  a parameter.
\<close>

datatype channel_name = Nightly | Beta | Stable

fun set_rustc_channel_cfg :: "channel_name \<Rightarrow> string" where
  "set_rustc_channel_cfg Nightly = ''nightly''"
| "set_rustc_channel_cfg Beta = ''beta''"
| "set_rustc_channel_cfg Stable = ''stable''"

text \<open>The line that \<open>main\<close> prints.\<close>

definition build_main :: "channel_name \<Rightarrow> string" where
  "build_main c = ''cargo:rustc-cfg='' @ set_rustc_channel_cfg c"

lemma build_main_inject: "build_main c = build_main c' \<longleftrightarrow> c = c'"
  by (cases c; cases c') (simp_all add: build_main_def)

end
