(* ===== verification/Spec2Isabelle.thy ===== *)
theory Spec2Isabelle
  imports
    STM_Prelude Log_Var Shared_World Result_Types Registers Tallies Transaction_Ops Transaction_Facts Bodies
    Op_Properties Commit_Wait Commit_Properties Wait_Properties Runner Loop_Rules Store_Refinement
    Runner_Facts Runner_Properties Profile_Properties Tally_Properties Dangling_Properties
    Programs Interleaving Lock_Invariants Progress_Properties Atomicity Atomicity_Properties
    Replay Coherence Histories Serializability_Properties Address_Reuse Reuse_Properties Wakeups Wakeup_Properties
    Solo_Runs Solo_Properties Cleanup_Properties Conflict_Properties Cancel_Properties
    Typing_Properties Run_Ranks Fresh_Attempts Termination_Properties Outcome_Properties
    Lock_Policies Waiting_Lists Test_Helpers Unit_Tests Thread_Tests Doc_Examples Benchmarks Build_Script
begin

text \<open>
  The library fast-stm: software transactional memory for Rust.  A transaction is a closure that reads
  and writes transactional variables (\<open>TVar\<close>) through a log; when it has finished, \<open>commit\<close> locks the
  variables of the log, checks that the values read are still there, and stores the values written; a
  transaction that calls \<open>retry\<close> waits until one of the variables it has read changes.  The theories
  model all of the code of the crate, with its unit tests, the examples of its documentation and what its
  benchmarks do.

  The program's parts and the theories that model them.

  \<^item> transaction/log_var.rs, the entries of the log: \<open>Log_Var\<close>.
  \<^item> transaction/control_block.rs and tvar.rs, the state that all threads share (values with pointer
    identity, variables with their waiting threads and dead-thread counters, control blocks of waiting
    threads, the allocator) and the operations on it: \<open>Shared_World\<close>.  The order of the variables, by
    address, is in \<open>STM_Prelude\<close>, with the compile-time features of the crate (the record \<open>config\<close>)
    and the faults: panics and the use of freed memory are values of the type \<open>fault\<close>.
  \<^item> result.rs, and the helpers of lib.rs that only handle results: \<open>Result_Types\<close>.
  \<^item> The maps that hold a log, a B-tree or (feature \<open>hash-registers\<close>) a hash table: \<open>Registers\<close>, with
    the locale \<open>register\<close> as their interface; the counters of the feature \<open>profiling\<close>: \<open>Tallies\<close>.
  \<^item> transaction/mod.rs, the operations of a body (\<open>read\<close>, \<open>write\<close>, \<open>modify\<close>, \<open>exchange\<close>, \<open>or\<close>,
    \<open>combine\<close>, \<open>clear\<close>), the methods of \<open>TVar\<close> that call them and \<open>optionally\<close> of lib.rs:
    \<open>Transaction_Ops\<close>; a body is a function of the transaction and the world.
  \<^item> \<open>commit\<close> and \<open>wait_for_change\<close> of transaction/mod.rs as operations of one thread: \<open>Commit_Wait\<close>.
    While a thread is parked the other threads act as a function \<open>env\<close> on the world, a parameter.
  \<^item> The guard against nesting, the four loops \<open>with\<close>, \<open>with_control\<close>, \<open>with_err\<close> and
    \<open>with_control_and_err\<close>, their four profiling copies, and \<open>atomically\<close>, \<open>atomically_with_err\<close> of
    lib.rs: \<open>Runner\<close>.  A loop that never ends is \<open>None\<close> (a partial function); the control closure has
    a state that it threads through its calls.
  \<^item> The same operations, \<open>commit\<close>, \<open>wait_for_change\<close> and the four loops as a step relation of any
    number of threads, one step for each access to shared state, with the read-write locks of the
    variables, control functions that may give up whenever they are called, and calls of
    \<open>write_atomic\<close> by other code: \<open>Interleaving\<close>.  The field \<open>calls\<close> of a system tells which of the
    four functions a thread has called.  There a body is a program, a tree of operations, of uses of
    \<open>or\<close> and of functions of the values read: \<open>Programs\<close>.
  \<^item> The unit tests of lib.rs, mod.rs, tvar.rs, log_var.rs and control_block.rs: \<open>Unit_Tests\<close> for those
    of one thread, \<open>Thread_Tests\<close> for the two that run two transactions at once; their helpers in
    test.rs, which wait for a result for a limited time: \<open>Test_Helpers\<close>; build.rs: \<open>Build_Script\<close>.
  \<^item> The code blocks of the doc comments: \<open>Doc_Examples\<close>.  The routines that the benches of
    benches/benches run again and again: \<open>Benchmarks\<close>; the number of iterations is a parameter.

  What the lemmas show.

  \<^item> \<open>Transaction_Facts\<close>, \<open>Bodies\<close>: every operation as an update of one log entry; the contracts that
    bodies keep and that the combinators preserve (locales \<open>wf_body\<close>, \<open>isolated_body\<close>, \<open>stm_body\<close>).
    \<open>Store_Refinement\<close>: the abstract specification of a body, a function on stores, and the locale
    \<open>refining_body\<close> of the bodies that compute it, for which every operation is an interpretation.
  \<^item> \<open>Op_Properties\<close>, \<open>Commit_Properties\<close>, \<open>Wait_Properties\<close>, \<open>Runner_Properties\<close>,
    \<open>Profile_Properties\<close>, \<open>Tally_Properties\<close>, \<open>Dangling_Properties\<close>: the behaviour of one thread on
    every branch, with \<open>Loop_Rules\<close> and \<open>Runner_Facts\<close> for the loops: a transaction that runs alone
    computes its specification, a commit is all or nothing, what an abandoned or panicking
    transaction leaves, when a wait returns, which of the eight loops are equivalent.
  \<^item> \<open>Lock_Invariants\<close>, \<open>Progress_Properties\<close>, \<open>Solo_Runs\<close>, \<open>Solo_Properties\<close>: the locks of the
    commits exclude each other and cannot deadlock; a thread that runs alone for long enough commits
    or parks, and its steps are those of the model of one thread.
  \<^item> \<open>Atomicity\<close>, \<open>Atomicity_Properties\<close>: the abstract memory, which has the values that commits past
    their commit point are about to store; it changes at commit points only.  \<open>Coherence\<close>: pointer
    comparison is comparison of values.  \<open>Replay\<close>, \<open>Histories\<close>, \<open>Serializability_Properties\<close>: a run
    can be replayed on every store that agrees with its log, so executions are serializable.
    \<open>Conflict_Properties\<close>: a commit fails only if another commit or a \<open>write_atomic\<close> has taken effect.
  \<^item> \<open>Cancel_Properties\<close>: a thread that returns without a commit has had no effect, but its error is not
    validated.  \<open>Typing_Properties\<close>: well-typed threads do not panic.
  \<^item> \<open>Run_Ranks\<close>, \<open>Fresh_Attempts\<close>, \<open>Termination_Properties\<close>: no livelock; every run ends, by a
    lexicographic measure: threads that have not committed, threads still to be woken, attempts that
    may have read values no longer there, and a multiset of the ranks of the threads.
    \<open>Outcome_Properties\<close> puts all this together: without calls of \<open>write_atomic\<close> every run of well-typed
    programs that do not spin ends in the outcome of a serial run, exactly so if no program has an \<open>or\<close>
    and otherwise with choices of the alternative that may be out of date, and without \<open>or\<close> and
    \<open>with_err\<close> nobody is parked whose transaction could go on.  \<open>Lock_Policies\<close>: so does every run in which the locks
    choose whom they serve, as long as a lock that nobody holds is not refused to all that ask for it
    (locale \<open>lock_policy\<close>, with the preference of waiting writers and queues as interpretations).
  \<^item> \<open>Unit_Tests\<close>, \<open>Thread_Tests\<close>: the tests pass, in every world and under every interleaving;
    \<open>Test_Helpers\<close>: the helpers wait as long as they say.  \<open>Doc_Examples\<close>: the examples run, and
    \<open>read_atomic\<close> and \<open>write_atomic\<close> have the effect of the transactions that their documentation calls
    equivalent.  \<open>Benchmarks\<close>: the repeated accesses and commits of the benches all succeed.
  \<^item> \<open>Address_Reuse\<close>, \<open>Reuse_Properties\<close>: the step relation allocates every value at a new address; with
    an allocator that hands out again the addresses of values nobody refers to any more, every run is
    one of the step relation up to the names of the addresses, so all of this holds for it too.
  \<^item> \<open>Wakeups\<close>, \<open>Wakeup_Properties\<close>: no wake-up by a commit is lost for the variables at which a parked
    thread has registered.  \<open>Cleanup_Properties\<close>: the data
    race on the counter of dead threads is harmless.  \<open>Waiting_Lists\<close>: the lists of waiting threads
    do not pile up.
  The invariants of the step relation are interpretations of the locale \<open>system_invariant\<close>.

  Findings, each with its theorem: a transaction with \<open>or\<close> need not be serializable, because commits
  do not check what a blocked alternative has read (\<open>or_not_serializable\<close>); such a transaction may also
  wait for too few variables (\<open>or_loses_wait\<close>); \<open>write_atomic\<close> wakes nobody
  (\<open>write_atomic_does_not_wake\<close>); with \<open>hash-registers\<close> a commit can follow a dangling pointer
  (\<open>hash_registers_dangle\<close>); \<open>with_err\<close> waits after a failure as if it were a retry
  (\<open>with_err_waits_on_failure\<close>); the error of an aborted transaction may come from values that the
  variables never had together (\<open>cancelled_not_validated\<close>).

  Bounds.  The event counters and the counters of dead threads are 64-bit words that wrap around.
  Addresses of variables, pointers to values and identities of control blocks are natural numbers, handed
  out in increasing order.  The code compares pointers to values for what they hold; that these may be
  reused makes no difference, since the code holds a reference to whatever it compares
  (\<open>Reuse_Properties\<close>).
  No proof uses fuel: the loops are partial functions, and the theorems that they return say so.

  What is not modelled.  Time: a call of \<open>park_timeout\<close> returns at some moment, and a thread then tests
  its flag again, so time-outs change nothing.  The spinning and parking inside of the
  locks: a thread that asks for a lock has no step until it can get it; in \<open>Interleaving\<close> any of those
  that ask may be served, in \<open>Lock_Policies\<close> only some.  The
  relaxed orderings of the atomic operations: steps are sequentially consistent, and the flag and the
  lists are protected by atomic swaps and locks.  Reference counts: a variable of a program in
  \<open>Interleaving\<close> outlives it, and a control block is gone when its owner drops it, even if another
  thread is just informing it; \<open>Dangling_Properties\<close> treats variables that do not.  Bodies that do not
  return.  Calls of the profiling copies of the loops by interleaved threads: they differ from the plain
  ones in counters that no other thread sees.  The timing library of the benches, and their baselines of
  the standard library.
\<close>

end
